(* ===== verification/Agora_Types.thy ===== *)
theory Agora_Types
  imports Agora_Prelude
begin

text \<open>
  The value types of \<^verbatim>\<open>core/crates/types\<close>: hashes and addresses, amounts, the three native
  assets, finality checkpoints and the DRC sequence selector.

  A 32-byte \<open>Hash\<close> is a 256-bit word and a 20-byte \<open>Address\<close> a 160-bit word, read big-endian, so
  that the lexicographic comparison of the byte arrays in the code is the order of the words and
  the all-zero value is \<open>0\<close>. Hashing and signing live outside the repository (SHA-256, secp256k1,
  Borsh) and enter the model as parameters.
\<close>

section \<open>Hashes, addresses, amounts\<close>

type_synonym hash = "256 word"
type_synonym address = "160 word"
type_synonym amount = u64
type_synonym bytes = "u8 list"

definition amount_from_whole :: "u64 \<Rightarrow> amount option" where
  "amount_from_whole whole = checked_mul whole (10 ^ 8)"

section \<open>Native assets\<close>

datatype native_asset_id = TLT | OVL | DRC

definition all_assets :: "native_asset_id list" where
  "all_assets = [TLT, OVL, DRC]"

fun wire_byte :: "native_asset_id \<Rightarrow> u8" where
  "wire_byte TLT = 0"
| "wire_byte OVL = 1"
| "wire_byte DRC = 2"

definition from_wire_byte :: "u8 \<Rightarrow> native_asset_id option" where
  "from_wire_byte b =
     (if b = 0 then Some TLT else if b = 1 then Some OVL else if b = 2 then Some DRC else None)"

fun ticker :: "native_asset_id \<Rightarrow> string" where
  "ticker TLT = ''TLT''"
| "ticker OVL = ''OVL''"
| "ticker DRC = ''DRC''"

fun is_mineable :: "native_asset_id \<Rightarrow> bool" where
  "is_mineable TLT = True"
| "is_mineable OVL = False"
| "is_mineable DRC = False"

record native_amount =
  na_asset :: native_asset_id
  na_value :: amount

definition native_checked_add :: "native_amount \<Rightarrow> native_amount \<Rightarrow> native_amount option" where
  "native_checked_add a b =
     (if na_asset a \<noteq> na_asset b then None
      else map_option (\<lambda>v. \<lparr>na_asset = na_asset a, na_value = v\<rparr>)
             (checked_add (na_value a) (na_value b)))"

definition native_checked_sub :: "native_amount \<Rightarrow> native_amount \<Rightarrow> native_amount option" where
  "native_checked_sub a b =
     (if na_asset a \<noteq> na_asset b then None
      else map_option (\<lambda>v. \<lparr>na_asset = na_asset a, na_value = v\<rparr>)
             (checked_sub (na_value a) (na_value b)))"

lemma from_wire_byte_wire_byte [simp]: "from_wire_byte (wire_byte a) = Some a"
  by (cases a) (simp_all add: from_wire_byte_def)

lemma wire_byte_inj [simp]: "wire_byte a = wire_byte b \<longleftrightarrow> a = b"
  by (cases a; cases b) simp_all

lemma set_all_assets: "set all_assets = UNIV"
  by (auto simp: all_assets_def) (metis native_asset_id.exhaust)

section \<open>Finality checkpoints\<close>

datatype checkpoint_state =
    Proposed
  | PoWAccepted
  | AwaitingOvlQuorum
  | AwaitingDrcQuorum
  | Finalized
  | RevertedOrOrphaned

definition is_finalized :: "checkpoint_state \<Rightarrow> bool" where
  "is_finalized s \<longleftrightarrow> s = Finalized"

definition is_reorgable :: "checkpoint_state \<Rightarrow> bool" where
  "is_reorgable s \<longleftrightarrow> s \<noteq> Finalized"

record checkpoint_body =
  cb_chain_id :: string
  cb_genesis_hash :: hash
  cb_consensus_policy_hash :: hash
  cb_state_transition_version :: string
  cb_blue_score :: u64
  cb_block_hash :: hash
  cb_state_root :: hash
  cb_validator_epoch :: u64

record checkpoint_attestation =
  ca_body :: checkpoint_body
  ca_set :: native_asset_id
  ca_validator :: address
  ca_public_key :: bytes
  ca_signature :: bytes

record finality_certificate =
  fc_body :: checkpoint_body
  fc_state :: checkpoint_state
  fc_pow_work_met :: bool
  fc_ovl_signed_stake :: u64
  fc_ovl_active_stake :: u64
  fc_drc_signed_stake :: u64
  fc_drc_active_stake :: u64

definition new_certificate :: "checkpoint_body \<Rightarrow> finality_certificate" where
  "new_certificate body =
     \<lparr>fc_body = body, fc_state = Proposed, fc_pow_work_met = False,
      fc_ovl_signed_stake = 0, fc_ovl_active_stake = 0,
      fc_drc_signed_stake = 0, fc_drc_active_stake = 0\<rparr>"

section \<open>DRC account sequences\<close>

datatype drc_account_sequence = Nonce | Ticket

record drc_account_sequence_selector =
  sel_kind :: drc_account_sequence
  sel_value :: u64

datatype drc_account_sequence_error =
    InvalidSelector
  | TicketSequenceOverflow
  | NonceOverflow
  | TicketCapExceeded
  | UnknownTicket
  | DuplicateTicket
  | TicketSelectorOnLegacyVersion
  | MissingAccountSequence

definition nonce_selector :: "u64 \<Rightarrow> drc_account_sequence_selector" where
  "nonce_selector v = \<lparr>sel_kind = Nonce, sel_value = v\<rparr>"

definition ticket_selector :: "u64 \<Rightarrow> drc_account_sequence_selector" where
  "ticket_selector v = \<lparr>sel_kind = Ticket, sel_value = v\<rparr>"

definition resolve_drc_account_sequence ::
    "u32 \<Rightarrow> u32 \<Rightarrow> u64 \<Rightarrow> drc_account_sequence_selector option
     \<Rightarrow> drc_account_sequence_error + drc_account_sequence_selector" where
  "resolve_drc_account_sequence version ticket_capable_version nonce account_sequence =
     (if ticket_capable_version \<le> version then ok_or account_sequence MissingAccountSequence
      else if (case account_sequence of Some s \<Rightarrow> sel_kind s = Ticket | None \<Rightarrow> False)
      then Err TicketSelectorOnLegacyVersion
      else Ok (nonce_selector nonce))"

end
