(* ===== verification/Dag.thy ===== *)
theory Dag
  imports Agora_Types
begin

text \<open>
  The in-memory block DAG of \<^verbatim>\<open>core/crates/consensus/src/dag.rs\<close>: insertion, tip removal, the
  breadth-first past closure and the anticone. \<open>HashMap\<close> is an association list with distinct keys
  (the code iterates over its values), \<open>HashSet\<close> a HOL set. The section on correctness shows the
  well-formedness invariant, that the closure loop terminates and computes reachability along
  parent edges, and that \<open>anticone\<close> is the set of blocks incomparable with its argument.
\<close>

section \<open>The data structure and its operations\<close>

datatype consensus_error =
    MissingBlock hash
  | InvalidPow
  | Emission string
  | InvalidBlock string

record dag =
  dag_order :: "hash list"
  dag_parents :: "(hash \<times> hash list) list"

definition dag_new :: dag where
  "dag_new = \<lparr>dag_order = [], dag_parents = []\<rparr>"

definition contains :: "dag \<Rightarrow> hash \<Rightarrow> bool" where
  "contains d h \<longleftrightarrow> map_of (dag_parents d) h \<noteq> None"

definition parents_of :: "dag \<Rightarrow> hash \<Rightarrow> consensus_error + hash list" where
  "parents_of d h = ok_or (map_of (dag_parents d) h) (MissingBlock h)"

fun first_missing :: "dag \<Rightarrow> hash list \<Rightarrow> hash option" where
  "first_missing d [] = None"
| "first_missing d (p # ps) = (if \<not> contains d p then Some p else first_missing d ps)"

definition dag_insert :: "dag \<Rightarrow> hash \<Rightarrow> hash list \<Rightarrow> consensus_error + dag" where
  "dag_insert d h ps =
     (if contains d h then Ok d
      else case first_missing d ps of
        Some p \<Rightarrow> Err (MissingBlock p)
      | None \<Rightarrow> Ok \<lparr>dag_order = dag_order d @ [h],
                   dag_parents = AList.update h ps (dag_parents d)\<rparr>)"

definition remove_tip :: "dag \<Rightarrow> hash \<Rightarrow> bool \<times> dag" where
  "remove_tip d h =
     (if \<not> contains d h then (False, d)
      else if (\<exists>ps \<in> set (map snd (dag_parents d)). h \<in> set ps) then (False, d)
      else (True, \<lparr>dag_order = filter (\<lambda>x. x \<noteq> h) (dag_order d),
                   dag_parents = AList.delete h (dag_parents d)\<rparr>))"

definition tips :: "dag \<Rightarrow> hash list" where
  "tips d =
     (let referenced = (\<Union>ps \<in> set (map snd (dag_parents d)). set ps)
      in filter (\<lambda>h. h \<notin> referenced) (dag_order d))"

text \<open>
  The work-list loop of \<open>past_closure\<close>: pop the front, skip what was seen, otherwise mark it and
  append its parents. It ends because each unseen block that has an entry is marked once.
\<close>

function past_bfs :: "dag \<Rightarrow> hash set \<Rightarrow> hash list \<Rightarrow> consensus_error + hash set" where
  "past_bfs d seen [] = Ok seen"
| "past_bfs d seen (current # q) =
     (if current \<in> seen then past_bfs d seen q
      else bind_result (parents_of d current)
             (\<lambda>ps. past_bfs d (insert current seen) (q @ ps)))"
  by pat_completeness auto
termination
proof (relation "measures [\<lambda>(d, seen, q). card (fst ` set (dag_parents d) - seen),
                           \<lambda>(d, seen, q). length q]", goal_cases)
  case (3 d seen current q ps)
  then have "current \<in> fst ` set (dag_parents d) - seen"
    by (force simp: parents_of_def dest: map_of_SomeD)
  then have "card (fst ` set (dag_parents d) - insert current seen)
           < card (fst ` set (dag_parents d) - seen)"
    by (intro psubset_card_mono) auto
  then show ?case by simp
qed simp_all

definition past_closure :: "dag \<Rightarrow> hash \<Rightarrow> consensus_error + hash set" where
  "past_closure d h =
     (if \<not> contains d h then Err (MissingBlock h) else past_bfs d {} [h])"

definition future_step :: "dag \<Rightarrow> hash \<Rightarrow> hash set \<Rightarrow> hash \<Rightarrow> consensus_error + hash set" where
  "future_step d h future candidate =
     (if candidate = h then Ok future
      else bind_result (past_closure d candidate)
             (\<lambda>candidate_past. Ok (if h \<in> candidate_past then insert candidate future else future)))"

definition anticone :: "dag \<Rightarrow> hash \<Rightarrow> consensus_error + hash set" where
  "anticone d h =
     bind_result (past_closure d h) (\<lambda>past.
     bind_result (fold_result (future_step d h) {} (dag_order d)) (\<lambda>future.
       Ok (set (filter (\<lambda>c. c \<noteq> h \<and> c \<notin> past \<and> c \<notin> future) (dag_order d)))))"

section \<open>Well-formed DAGs\<close>

text \<open>
  \<open>wf_dag\<close> is the invariant of the type: insertion order and parent map hold the same blocks,
  each once, and every block comes after all its parents.
\<close>

definition par :: "dag \<Rightarrow> hash \<Rightarrow> hash list" where
  "par d h = (case map_of (dag_parents d) h of None \<Rightarrow> [] | Some ps \<Rightarrow> ps)"

fun topo :: "(hash \<Rightarrow> hash list) \<Rightarrow> hash set \<Rightarrow> hash list \<Rightarrow> bool" where
  "topo f S [] = True"
| "topo f S (h # hs) = (set (f h) \<subseteq> S \<and> topo f (insert h S) hs)"

definition wf_dag :: "dag \<Rightarrow> bool" where
  "wf_dag d \<longleftrightarrow>
     distinct (dag_order d) \<and> distinct (map fst (dag_parents d))
     \<and> set (dag_order d) = fst ` set (dag_parents d)
     \<and> topo (par d) {} (dag_order d)"

lemma topo_append:
  "topo f S (xs @ ys) \<longleftrightarrow> topo f S xs \<and> topo f (S \<union> set xs) ys"
  by (induction xs arbitrary: S) auto

lemma topo_cong:
  "(\<And>x. x \<in> set xs \<Longrightarrow> f x = g x) \<Longrightarrow> topo f S xs = topo g S xs"
  by (induction xs arbitrary: S) auto

lemma topo_filter:
  assumes "topo f S xs" and "\<And>x. x \<in> set xs \<Longrightarrow> r \<notin> set (f x)"
  shows "topo f (S - {r}) (filter (\<lambda>x. x \<noteq> r) xs)"
  using assms
proof (induction xs arbitrary: S)
  case Nil
  then show ?case by simp
next
  case (Cons x xs)
  have "topo f (insert x S - {r}) (filter (\<lambda>x. x \<noteq> r) xs)"
    using Cons by auto
  moreover have "x \<noteq> r \<Longrightarrow> insert x S - {r} = insert x (S - {r})" by auto
  moreover have "x = r \<Longrightarrow> insert x S - {r} = S - {r}" by auto
  ultimately show ?case using Cons.prems by auto
qed

lemma contains_iff_mem:
  "contains d h \<longleftrightarrow> h \<in> fst ` set (dag_parents d)"
  by (simp add: contains_def map_of_eq_None_iff)

lemma wf_contains: "wf_dag d \<Longrightarrow> contains d h \<longleftrightarrow> h \<in> set (dag_order d)"
  by (simp add: wf_dag_def contains_iff_mem)

lemma parents_of_contains: "contains d h \<Longrightarrow> parents_of d h = Ok (par d h)"
  by (auto simp: contains_def parents_of_def par_def)

lemma parents_of_missing: "\<not> contains d h \<Longrightarrow> parents_of d h = Err (MissingBlock h)"
  by (simp add: contains_def parents_of_def)

lemma par_missing [simp]: "\<not> contains d h \<Longrightarrow> par d h = []"
  by (auto simp: contains_def par_def split: option.split)

lemma first_missing_None: "first_missing d ps = None \<longleftrightarrow> (\<forall>p \<in> set ps. contains d p)"
  by (induction ps) auto

lemma first_missing_Some: "first_missing d ps = Some p \<Longrightarrow> p \<in> set ps \<and> \<not> contains d p"
  by (induction ps) (auto split: if_splits)

lemma wf_dag_new: "wf_dag dag_new"
  by (simp add: wf_dag_def dag_new_def)

lemma dag_insert_cases:
  assumes "dag_insert d h ps = Ok d'" and "\<not> contains d h"
  shows "(\<forall>p \<in> set ps. contains d p)
    \<and> d' = \<lparr>dag_order = dag_order d @ [h], dag_parents = AList.update h ps (dag_parents d)\<rparr>"
  using assms by (auto simp: dag_insert_def first_missing_None split: option.splits)

lemma par_insert:
  "par \<lparr>dag_order = xs, dag_parents = AList.update h ps (dag_parents d)\<rparr> x
     = (if x = h then ps else par d x)"
  by (simp add: par_def update_conv')

lemma wf_dag_insert:
  assumes wf: "wf_dag d" and ins: "dag_insert d h ps = Ok d'"
  shows "wf_dag d'"
proof (cases "contains d h")
  case True
  with ins wf show ?thesis by (simp add: dag_insert_def)
next
  case False
  let ?d' = "\<lparr>dag_order = dag_order d @ [h], dag_parents = AList.update h ps (dag_parents d)\<rparr>"
  from dag_insert_cases [OF ins False] have d': "d' = ?d'" and ps: "\<forall>p \<in> set ps. contains d p"
    by auto
  have h: "h \<notin> set (dag_order d)" using False wf by (simp add: wf_contains)
  have "topo (par ?d') {} (dag_order d) = topo (par d) {} (dag_order d)"
    by (rule topo_cong) (use h in \<open>auto simp: par_insert\<close>)
  then have "topo (par ?d') {} (dag_order d)"
    using wf by (simp add: wf_dag_def)
  moreover have "set ps \<subseteq> set (dag_order d)"
    using ps wf by (auto simp: wf_contains)
  moreover have "fst ` set (AList.update h ps (dag_parents d)) = insert h (fst ` set (dag_parents d))"
    by (simp add: dom_update)
  ultimately show ?thesis using wf h
    by (simp add: d' wf_dag_def topo_append par_insert distinct_update)
qed

lemma par_delete:
  "par \<lparr>dag_order = xs, dag_parents = AList.delete h (dag_parents d)\<rparr> x
     = (if x = h then [] else par d x)"
  by (simp add: par_def delete_conv')

lemma unreferenced_par:
  assumes "\<not> (\<exists>ps \<in> set (map snd (dag_parents d)). h \<in> set ps)"
  shows "h \<notin> set (par d x)"
proof (cases "map_of (dag_parents d) x")
  case (Some ps)
  then have "ps \<in> set (map snd (dag_parents d))" by (force dest: map_of_SomeD)
  then show ?thesis using assms Some by (auto simp: par_def)
qed (simp add: par_def)

lemma wf_dag_remove_tip:
  assumes wf: "wf_dag d"
  shows "wf_dag (snd (remove_tip d h))"
proof (cases "contains d h \<and> \<not> (\<exists>ps \<in> set (map snd (dag_parents d)). h \<in> set ps)")
  case False
  then show ?thesis using wf by (auto simp: remove_tip_def)
next
  case True
  let ?d' = "\<lparr>dag_order = filter (\<lambda>x. x \<noteq> h) (dag_order d),
              dag_parents = AList.delete h (dag_parents d)\<rparr>"
  have d': "snd (remove_tip d h) = ?d'" using True by (auto simp: remove_tip_def)
  have free: "h \<notin> set (par d x)" for x
    using True by (intro unreferenced_par) simp
  have "topo (par d) {} (dag_order d)" using wf by (simp add: wf_dag_def)
  from topo_filter [OF this, of h] free
  have "topo (par d) {} (filter (\<lambda>x. x \<noteq> h) (dag_order d))" by simp
  moreover have "topo (par ?d') {} (filter (\<lambda>x. x \<noteq> h) (dag_order d))
      = topo (par d) {} (filter (\<lambda>x. x \<noteq> h) (dag_order d))"
    by (rule topo_cong) (simp add: par_delete)
  moreover have "fst ` set (AList.delete h (dag_parents d)) = fst ` set (dag_parents d) - {h}"
    using delete_keys [of h "dag_parents d"] by (metis image_set set_removeAll)
  ultimately show ?thesis using wf
    by (auto simp: d' wf_dag_def distinct_delete)
qed

section \<open>The past of a block\<close>

definition parent_rel :: "dag \<Rightarrow> (hash \<times> hash) set" where
  "parent_rel d = {(h, p). p \<in> set (par d h)}"

definition past :: "dag \<Rightarrow> hash \<Rightarrow> hash set" where
  "past d h = (parent_rel d)\<^sup>* `` {h}"

lemma past_refl [simp]: "h \<in> past d h"
  by (simp add: past_def)

lemma past_trans: "y \<in> past d x \<Longrightarrow> z \<in> past d y \<Longrightarrow> z \<in> past d x"
  by (auto simp: past_def intro: rtrancl_trans)

lemma past_mono: "y \<in> past d x \<Longrightarrow> past d y \<subseteq> past d x"
  by (auto intro: past_trans)

lemma past_parent: "p \<in> set (par d h) \<Longrightarrow> p \<in> past d h"
  by (auto simp: past_def parent_rel_def)

lemma past_step: "x \<in> past d h \<Longrightarrow> p \<in> set (par d x) \<Longrightarrow> p \<in> past d h"
  by (rule past_trans [OF _ past_parent])

lemma past_unfold: "past d h = insert h (\<Union>p \<in> set (par d h). past d p)"
proof
  show "past d h \<subseteq> insert h (\<Union>p \<in> set (par d h). past d p)"
    by (auto simp: past_def parent_rel_def elim: converse_rtranclE)
  show "insert h (\<Union>p \<in> set (par d h). past d p) \<subseteq> past d h"
    using past_trans past_parent by fastforce
qed

text \<open>The position of a block in the insertion order decreases along parent edges.\<close>

definition pos :: "'a list \<Rightarrow> 'a \<Rightarrow> nat" where
  "pos xs x = length (takeWhile (\<lambda>y. y \<noteq> x) xs)"

lemma pos_append_mem: "x \<in> set xs \<Longrightarrow> pos (xs @ ys) x = pos xs x"
  by (simp add: pos_def takeWhile_append1)

lemma pos_append_notin: "x \<notin> set xs \<Longrightarrow> pos (xs @ ys) x = length xs + pos ys x"
  unfolding pos_def by (subst takeWhile_append2) auto

lemma pos_less: "x \<in> set xs \<Longrightarrow> pos xs x < length xs"
  unfolding pos_def by (induction xs) auto

lemma topo_pos:
  assumes "topo f {} xs" and "distinct xs" and "x \<in> set xs" and "p \<in> set (f x)"
  shows "p \<in> set xs \<and> pos xs p < pos xs x"
  using assms
proof (induction xs rule: rev_induct)
  case Nil
  then show ?case by simp
next
  case (snoc y xs)
  then have topo: "topo f {} xs" "set (f y) \<subseteq> set xs" and y: "y \<notin> set xs"
    by (auto simp: topo_append)
  show ?case
  proof (cases "x = y")
    case True
    then have "p \<in> set xs" using topo snoc.prems by auto
    with True y show ?thesis
      by (auto simp: pos_append_mem pos_append_notin pos_less trans_less_add1)
  next
    case False
    then have "x \<in> set xs" using snoc.prems by auto
    with snoc topo have "p \<in> set xs \<and> pos xs p < pos xs x" by auto
    with \<open>x \<in> set xs\<close> show ?thesis by (auto simp: pos_append_mem)
  qed
qed

lemma wf_par:
  assumes "wf_dag d" and "p \<in> set (par d h)"
  shows "contains d h" and "contains d p" and "pos (dag_order d) p < pos (dag_order d) h"
proof -
  show h: "contains d h" using assms(2) by (cases "contains d h") auto
  have "p \<in> set (dag_order d) \<and> pos (dag_order d) p < pos (dag_order d) h"
    using topo_pos [of "par d" "dag_order d" h p] assms h
    by (simp add: wf_dag_def contains_iff_mem)
  then show "contains d p" and "pos (dag_order d) p < pos (dag_order d) h"
    using assms(1) by (auto simp: wf_contains)
qed

lemma past_contains:
  assumes "wf_dag d" and "contains d h" and "x \<in> past d h"
  shows "contains d x"
proof -
  have "(h, x) \<in> (parent_rel d)\<^sup>*" using assms(3) by (simp add: past_def)
  then show ?thesis
    by (induction rule: rtrancl_induct)
       (use assms wf_par(2) in \<open>auto simp: parent_rel_def\<close>)
qed

lemma past_pos:
  assumes "wf_dag d" and "x \<in> past d h"
  shows "x = h \<or> pos (dag_order d) x < pos (dag_order d) h"
proof -
  have "(h, x) \<in> (parent_rel d)\<^sup>*" using assms(2) by (simp add: past_def)
  then show ?thesis
  proof (induction rule: rtrancl_induct)
    case base
    then show ?case by simp
  next
    case (step y z)
    then have "pos (dag_order d) z < pos (dag_order d) y"
      using wf_par(3) [OF assms(1)] by (simp add: parent_rel_def)
    with step.IH show ?case by auto
  qed
qed

lemma past_antisym:
  "wf_dag d \<Longrightarrow> x \<in> past d y \<Longrightarrow> y \<in> past d x \<Longrightarrow> x = y"
  using past_pos [of d x y] past_pos [of d y x] by auto

lemma past_finite:
  assumes "wf_dag d"
  shows "finite (past d h)"
proof (cases "contains d h")
  case True
  then have "past d h \<subseteq> set (dag_order d)"
    using assms past_contains by (auto simp: wf_contains)
  then show ?thesis by (rule finite_subset) simp
next
  case False
  then show ?thesis by (simp add: past_unfold [of d h])
qed

section \<open>The closure loop computes the past\<close>

lemma closure_absorb:
  assumes "c \<in> S" and "R `` S \<subseteq> S \<union> Q"
  shows "R\<^sup>* `` {c} \<subseteq> S \<union> R\<^sup>* `` Q"
proof
  fix x assume "x \<in> R\<^sup>* `` {c}"
  then have "(c, x) \<in> R\<^sup>*" by simp
  then show "x \<in> S \<union> R\<^sup>* `` Q"
    by (induction rule: rtrancl_induct)
       (use assms in \<open>auto intro: rtrancl_into_rtrancl\<close>)
qed

lemma past_bfs_eq:
  assumes "wf_dag d" and "\<forall>x \<in> set q. contains d x"
    and "parent_rel d `` seen \<subseteq> seen \<union> set q"
  shows "past_bfs d seen q = Ok (seen \<union> (parent_rel d)\<^sup>* `` set q)"
  using assms
proof (induction d seen q rule: past_bfs.induct)
  case (1 d seen)
  then show ?case by simp
next
  case (2 d seen current q)
  note IH1 = "2.IH"(1) and IH2 = "2.IH"(2) and prems = "2.prems"
  show ?case
  proof (cases "current \<in> seen")
    case True
    then have clo: "parent_rel d `` seen \<subseteq> seen \<union> set q" using prems(3) by auto
    have "(parent_rel d)\<^sup>* `` {current} \<subseteq> seen \<union> (parent_rel d)\<^sup>* `` set q"
      by (rule closure_absorb [OF True clo])
    moreover have "past_bfs d seen (current # q) = Ok (seen \<union> (parent_rel d)\<^sup>* `` set q)"
      using IH1 [OF True prems(1) _ clo] prems(2) True by simp
    ultimately show ?thesis by (auto simp del: past_bfs.simps)
  next
    case False
    have cur: "parents_of d current = Ok (par d current)"
      using prems(2) by (simp add: parents_of_contains)
    have q: "\<forall>x \<in> set (q @ par d current). contains d x"
      using prems(1,2) wf_par(2) by auto
    have clo: "parent_rel d `` insert current seen \<subseteq> insert current seen \<union> set (q @ par d current)"
      using prems(3) by (auto simp: parent_rel_def)
    have "past_bfs d seen (current # q)
        = Ok (insert current seen \<union> (parent_rel d)\<^sup>* `` set (q @ par d current))"
      using IH2 [OF False cur prems(1) q clo] False cur by simp
    moreover have "(parent_rel d)\<^sup>* `` {current}
        = insert current ((parent_rel d)\<^sup>* `` set (par d current))"
      using past_unfold [of d current] by (auto simp: past_def)
    ultimately show ?thesis by (auto simp del: past_bfs.simps)
  qed
qed

lemma past_closure_eq:
  assumes "wf_dag d"
  shows "past_closure d h = (if contains d h then Ok (past d h) else Err (MissingBlock h))"
  using assms past_bfs_eq [of d "[h]" "{}"] by (simp add: past_closure_def past_def)

section \<open>The anticone\<close>

lemma future_fold:
  assumes wf: "wf_dag d" and "set xs \<subseteq> set (dag_order d)"
  shows "fold_result (future_step d h) F xs
           = Ok (F \<union> {c \<in> set xs. c \<noteq> h \<and> h \<in> past d c})"
  using assms(2)
proof (induction xs arbitrary: F)
  case Nil
  then show ?case by simp
next
  case (Cons x xs)
  then have "contains d x" using wf by (simp add: wf_contains)
  then have "future_step d h F x = Ok (F \<union> (if x \<noteq> h \<and> h \<in> past d x then {x} else {}))"
    using wf by (simp add: future_step_def past_closure_eq)
  with Cons show ?case by auto
qed

definition incomparable :: "dag \<Rightarrow> hash \<Rightarrow> hash set" where
  "incomparable d h = {c. contains d c \<and> c \<notin> past d h \<and> h \<notin> past d c}"

lemma anticone_eq:
  assumes "wf_dag d"
  shows "anticone d h = (if contains d h then Ok (incomparable d h) else Err (MissingBlock h))"
  using assms future_fold [of d "dag_order d" h "{}"]
  by (auto simp: anticone_def past_closure_eq incomparable_def wf_contains)

end
