(* ===== verification/Ghostdag.thy ===== *)
theory Ghostdag
  imports Dag
begin

text \<open>
  The GHOSTDAG engine of \<^verbatim>\<open>core/crates/consensus/src/ghostdag.rs\<close>: colouring of a block given a
  DAG that holds its past, selected-parent and virtual-tip ranking, the total order of a tip's
  past, and the compact durable snapshots.

  The \<open>HashMap\<close> of colourings is a partial map, \<open>HashSet\<close> a set. A list obtained by collecting a
  \<open>HashSet\<close> and sorting it with a comparison that ends on the hash bytes does not depend on the
  iteration order, so it is the sorted list of the set under that key. The recursion of
  \<open>add_block_with_work\<close> into uncoloured parents takes fuel; \<^term>\<open>None\<close> means that the fuel ran out
  or that the code would panic, and \<open>add_block_total\<close> below shows that one more than the number of
  blocks of the DAG is always enough. The colouring is returned on the error path too, because
  ancestors coloured before the error stay coloured.
\<close>

section \<open>Data\<close>

record ghostdag_data =
  gd_selected_parent :: "hash option"
  gd_blue_score :: u64
  gd_blue_work :: u128
  gd_is_blue_in_tip_view :: bool

record ghostdag_snapshot =
  gs_selected_parent :: "hash option"
  gs_blue_score :: u64
  gs_blue_work :: u128
  gs_block_work :: u128
  gs_mergeset_blues :: "hash list"

record ordered_block =
  ob_hash :: hash
  ob_blue_score :: u64
  ob_is_blue :: bool

record block_coloring =
  bc_selected_parent :: "hash option"
  bc_blues :: "hash set"
  bc_mergeset_blues :: "hash list"
  bc_block_work :: u128
  bc_blue_score :: u64
  bc_blue_work :: u128

type_synonym coloring = "hash \<rightharpoonup> block_coloring"

record ghostdag =
  gh_k :: u32
  gh_coloring :: coloring

definition ghostdag_new :: "u32 \<Rightarrow> ghostdag" where
  "ghostdag_new k = \<lparr>gh_k = k, gh_coloring = Map.empty\<rparr>"

definition default_k :: u32 where
  "default_k = 18"

definition blue_score :: "ghostdag \<Rightarrow> hash \<Rightarrow> u64 option" where
  "blue_score g h = map_option bc_blue_score (gh_coloring g h)"

definition blue_work :: "ghostdag \<Rightarrow> hash \<Rightarrow> u128 option" where
  "blue_work g h = map_option bc_blue_work (gh_coloring g h)"

definition selected_parent :: "ghostdag \<Rightarrow> hash \<Rightarrow> hash option" where
  "selected_parent g h = Option.bind (gh_coloring g h) bc_selected_parent"

definition gh_remove :: "ghostdag \<Rightarrow> hash \<Rightarrow> ghostdag" where
  "gh_remove g h = g\<lparr>gh_coloring := (gh_coloring g)(h := None)\<rparr>"

definition snapshot :: "ghostdag \<Rightarrow> hash \<Rightarrow> ghostdag_snapshot option" where
  "snapshot g h = map_option (\<lambda>c.
     \<lparr>gs_selected_parent = bc_selected_parent c, gs_blue_score = bc_blue_score c,
      gs_blue_work = bc_blue_work c, gs_block_work = bc_block_work c,
      gs_mergeset_blues = sort (bc_mergeset_blues c)\<rparr>) (gh_coloring g h)"

definition is_blue_in_view :: "ghostdag \<Rightarrow> hash \<Rightarrow> hash \<Rightarrow> bool" where
  "is_blue_in_view g tip block =
     (case gh_coloring g tip of None \<Rightarrow> False | Some c \<Rightarrow> block \<in> bc_blues c)"

section \<open>Ranking\<close>

text \<open>
  \<open>rank_key\<close> compares blue work, then blue score, then hash bytes: the lexicographic order on the
  triple. \<open>max_by\<close> keeps the later of two equal elements.
\<close>

type_synonym rank = "u128 \<times> u64 \<times> hash"

definition rank_key :: "block_coloring \<Rightarrow> hash \<Rightarrow> rank" where
  "rank_key c h = (bc_blue_work c, bc_blue_score c, h)"

definition rank :: "coloring \<Rightarrow> hash \<Rightarrow> rank" where
  "rank col h = (case col h of None \<Rightarrow> (0, 0, h) | Some c \<Rightarrow> rank_key c h)"

fun max_by_key :: "('a \<Rightarrow> 'k::linorder) \<Rightarrow> 'a list \<Rightarrow> 'a option" where
  "max_by_key f [] = None"
| "max_by_key f (x # xs) = Some (fold (\<lambda>y m. if f y < f m then m else y) xs x)"

definition select_virtual_tip :: "ghostdag \<Rightarrow> hash list \<Rightarrow> hash option" where
  "select_virtual_tip g ts =
     max_by_key (rank (gh_coloring g)) (filter (\<lambda>h. gh_coloring g h \<noteq> None) ts)"

definition select_parent_among :: "ghostdag \<Rightarrow> hash list \<Rightarrow> hash option" where
  "select_parent_among g ps =
     max_by_key (rank (gh_coloring g)) (filter (\<lambda>h. gh_coloring g h \<noteq> None) ps)"

section \<open>Colouring a block\<close>

definition score_or_0 :: "coloring \<Rightarrow> hash \<Rightarrow> u64" where
  "score_or_0 col h = (case col h of None \<Rightarrow> 0 | Some c \<Rightarrow> bc_blue_score c)"

definition work_or_1 :: "coloring \<Rightarrow> hash \<Rightarrow> u128" where
  "work_or_1 col h = (case col h of None \<Rightarrow> 1 | Some c \<Rightarrow> bc_block_work c)"

definition merge_set :: "coloring \<Rightarrow> hash \<Rightarrow> hash \<Rightarrow> hash set \<Rightarrow> hash set \<Rightarrow> hash list" where
  "merge_set col block sp past_b past_sp =
     sort_key (\<lambda>h. (score_or_0 col h, h))
       (sorted_list_of_set {h \<in> past_b. h \<noteq> block \<and> h \<noteq> sp \<and> h \<notin> past_sp})"

definition merge_step ::
    "dag \<Rightarrow> u32 \<Rightarrow> coloring \<Rightarrow> hash set \<times> hash list \<times> u128 \<Rightarrow> hash
     \<Rightarrow> consensus_error + hash set \<times> hash list \<times> u128" where
  "merge_step d k col st candidate =
     (case st of (blues, mergeset_blues, mergeset_work) \<Rightarrow>
        bind_result (anticone d candidate) (\<lambda>ac.
          let blue_anticone = (of_nat (card (ac \<inter> blues)) :: u32)
          in Ok (if blue_anticone \<le> k
                 then (insert candidate blues, mergeset_blues @ [candidate],
                       saturating_add mergeset_work (work_or_1 col candidate))
                 else st)))"

text \<open>The part of \<open>add_block_with_work\<close> after the loop that colours the parents.\<close>

definition color_finish ::
    "dag \<Rightarrow> u32 \<Rightarrow> coloring \<Rightarrow> hash \<Rightarrow> u128 \<Rightarrow> hash list \<Rightarrow> (consensus_error + block_coloring) option" where
  "color_finish d k col block block_work parents =
     (if \<exists>p \<in> set parents. col p = None then None
      else case max_by_key (rank col) parents of
        None \<Rightarrow> None
      | Some sp \<Rightarrow> (case col sp of
          None \<Rightarrow> None
        | Some csp \<Rightarrow> Some (
            bind_result (past_closure d block) (\<lambda>past_b.
            bind_result (past_closure d sp) (\<lambda>past_sp.
            bind_result (fold_result (merge_step d k col) (insert sp (bc_blues csp), [], 0)
                           (merge_set col block sp past_b past_sp)) (\<lambda>(blues, mergeset_blues, mergeset_work).
              let blues' = insert block blues
              in Ok \<lparr>bc_selected_parent = Some sp, bc_blues = blues',
                     bc_mergeset_blues = sort mergeset_blues,
                     bc_block_work = block_work, bc_blue_score = of_nat (card blues'),
                     bc_blue_work = saturating_add (saturating_add (bc_blue_work csp) mergeset_work)
                                      block_work\<rparr>))))))"

definition genesis_coloring :: "hash \<Rightarrow> u128 \<Rightarrow> block_coloring" where
  "genesis_coloring block block_work =
     \<lparr>bc_selected_parent = None, bc_blues = {block}, bc_mergeset_blues = [],
      bc_block_work = block_work, bc_blue_score = 1, bc_blue_work = block_work\<rparr>"

definition data_of :: "block_coloring \<Rightarrow> hash \<Rightarrow> ghostdag_data" where
  "data_of c h =
     \<lparr>gd_selected_parent = bc_selected_parent c, gd_blue_score = bc_blue_score c,
      gd_blue_work = bc_blue_work c, gd_is_blue_in_tip_view = (h \<in> bc_blues c)\<rparr>"

text \<open>\<open>for parent in parents \{ if !coloring.contains_key(parent) \{ self.add_block(dag, *parent)?; \} \}\<close>\<close>

fun parents_loop ::
    "(coloring \<Rightarrow> hash \<Rightarrow> (coloring \<times> (consensus_error + ghostdag_data)) option)
     \<Rightarrow> coloring \<Rightarrow> hash list \<Rightarrow> (coloring \<times> (consensus_error + unit)) option" where
  "parents_loop add col [] = Some (col, Ok ())"
| "parents_loop add col (p # ps) =
     (if col p \<noteq> None then parents_loop add col ps
      else case add col p of
        None \<Rightarrow> None
      | Some (col', Inl e) \<Rightarrow> Some (col', Err e)
      | Some (col', Inr _) \<Rightarrow> parents_loop add col' ps)"

fun color_block ::
    "nat \<Rightarrow> dag \<Rightarrow> u32 \<Rightarrow> u128 \<Rightarrow> coloring \<Rightarrow> hash
     \<Rightarrow> (coloring \<times> (consensus_error + ghostdag_data)) option" where
  "color_block 0 d k w col block = None"
| "color_block (Suc n) d k w col block =
     (case col block of
        Some existing \<Rightarrow> Some (col, Ok (data_of existing block))
      | None \<Rightarrow>
          let block_work = max w 1
          in case parents_of d block of
               Inl e \<Rightarrow> Some (col, Err e)
             | Inr parents \<Rightarrow>
                 if parents = []
                 then let c = genesis_coloring block block_work
                      in Some (col(block \<mapsto> c), Ok (data_of c block))
                 else case parents_loop (color_block n d k 1) col parents of
                        None \<Rightarrow> None
                      | Some (col', Inl e) \<Rightarrow> Some (col', Err e)
                      | Some (col', Inr _) \<Rightarrow>
                          (case color_finish d k col' block block_work parents of
                             None \<Rightarrow> None
                           | Some (Inl e) \<Rightarrow> Some (col', Err e)
                           | Some (Inr c) \<Rightarrow> Some (col'(block \<mapsto> c), Ok (data_of c block))))"

definition add_block_with_work ::
    "ghostdag \<Rightarrow> dag \<Rightarrow> hash \<Rightarrow> u128 \<Rightarrow> (ghostdag \<times> (consensus_error + ghostdag_data)) option" where
  "add_block_with_work g d block w =
     map_option (\<lambda>(col, r). (g\<lparr>gh_coloring := col\<rparr>, r))
       (color_block (Suc (length (dag_order d))) d (gh_k g) w (gh_coloring g) block)"

definition add_block ::
    "ghostdag \<Rightarrow> dag \<Rightarrow> hash \<Rightarrow> (ghostdag \<times> (consensus_error + ghostdag_data)) option" where
  "add_block g d block = add_block_with_work g d block 1"

section \<open>Snapshots\<close>

definition import_snapshot :: "ghostdag \<Rightarrow> hash \<Rightarrow> ghostdag_snapshot \<Rightarrow> ghostdag \<times> ghostdag_data" where
  "import_snapshot g h snap =
     (let inherited = (case gs_selected_parent snap of
            None \<Rightarrow> {}
          | Some sp \<Rightarrow> (case gh_coloring g sp of None \<Rightarrow> {} | Some c \<Rightarrow> insert sp (bc_blues c)));
          blues = insert h (inherited \<union> set (gs_mergeset_blues snap))
      in (g\<lparr>gh_coloring := (gh_coloring g)(h \<mapsto>
              \<lparr>bc_selected_parent = gs_selected_parent snap, bc_blues = blues,
               bc_mergeset_blues = gs_mergeset_blues snap,
               bc_block_work = max (gs_block_work snap) 1,
               bc_blue_score = gs_blue_score snap, bc_blue_work = gs_blue_work snap\<rparr>)\<rparr>,
          \<lparr>gd_selected_parent = gs_selected_parent snap, gd_blue_score = gs_blue_score snap,
           gd_blue_work = gs_blue_work snap, gd_is_blue_in_tip_view = (h \<in> blues)\<rparr>))"

section \<open>Ordering the past of a tip\<close>

definition order_past_view :: "ghostdag \<Rightarrow> dag \<Rightarrow> hash \<Rightarrow> consensus_error + ordered_block list" where
  "order_past_view g d tip =
     bind_result (past_closure d tip) (\<lambda>past.
     bind_result (ok_or (gh_coloring g tip) (MissingBlock tip)) (\<lambda>c.
       Ok (sort_key (\<lambda>b. (\<not> ob_is_blue b, ob_blue_score b, ob_hash b))
             (map (\<lambda>h. \<lparr>ob_hash = h, ob_blue_score = score_or_0 (gh_coloring g) h,
                         ob_is_blue = (h \<in> bc_blues c)\<rparr>)
               (sorted_list_of_set past)))))"

definition blue_order :: "ghostdag \<Rightarrow> dag \<Rightarrow> hash \<Rightarrow> consensus_error + hash list" where
  "blue_order g d tip =
     bind_result (order_past_view g d tip) (\<lambda>bs. Ok (map ob_hash (filter ob_is_blue bs)))"

fun color_all :: "ghostdag \<Rightarrow> dag \<Rightarrow> hash list \<Rightarrow> (ghostdag \<times> (consensus_error + unit)) option" where
  "color_all g d [] = Some (g, Ok ())"
| "color_all g d (h # hs) =
     (case add_block g d h of
        None \<Rightarrow> None
      | Some (g', Inl e) \<Rightarrow> Some (g', Err e)
      | Some (g', Inr _) \<Rightarrow> color_all g' d hs)"

definition order_past ::
    "ghostdag \<Rightarrow> dag \<Rightarrow> hash \<Rightarrow> (ghostdag \<times> (consensus_error + ordered_block list)) option" where
  "order_past g d tip =
     (case color_all g d (dag_order d) of
        None \<Rightarrow> None
      | Some (g', Inl e) \<Rightarrow> Some (g', Err e)
      | Some (g', Inr _) \<Rightarrow> Some (g', order_past_view g' d tip))"

definition order_tip :: "hash \<Rightarrow> hash list \<Rightarrow> consensus_error + ordered_block list" where
  "order_tip tip parents =
     Ok (map (\<lambda>(i, p). \<lparr>ob_hash = p, ob_blue_score = of_nat i, ob_is_blue = True\<rparr>)
           (enumerate 0 parents)
         @ [\<lparr>ob_hash = tip, ob_blue_score = of_nat (length parents), ob_is_blue = True\<rparr>])"

section \<open>Selection by rank\<close>

text \<open>
  What selection by an injective key promises: a member of maximal key, determined by the set of
  candidates alone. The engine's \<^const>\<open>rank\<close> is such a key for every colouring.
\<close>

lemma max_fold:
  "fold (\<lambda>y m. if f y < f m then m else y) xs x \<in> insert x (set xs)
   \<and> (\<forall>y \<in> insert x (set xs). f y \<le> (f (fold (\<lambda>y m. if f y < f m then m else y) xs x) :: 'k::linorder))"
proof (induction xs arbitrary: x)
  case Nil
  then show ?case by simp
next
  case (Cons a xs)
  show ?case using Cons [of "if f a < f x then x else a"]
    by (auto split: if_splits)
qed

locale ranked =
  fixes key :: "'a \<Rightarrow> 'k::linorder"
  assumes key_inj: "key x = key y \<Longrightarrow> x = y"
begin

lemma best_exists:
  assumes "xs \<noteq> []"
  obtains m where "max_by_key key xs = Some m" and "m \<in> set xs" and "\<forall>y \<in> set xs. key y \<le> key m"
proof (cases xs)
  case (Cons x ys)
  with that max_fold [of key ys x] show ?thesis by simp
qed (use assms in simp)

lemma best_unique:
  assumes "m \<in> set xs" and "\<forall>y \<in> set xs. key y \<le> key m"
  shows "max_by_key key xs = Some m"
proof -
  have "xs \<noteq> []" using assms(1) by auto
  then obtain m' where m': "max_by_key key xs = Some m'" "m' \<in> set xs" "\<forall>y \<in> set xs. key y \<le> key m'"
    by (rule best_exists)
  with assms have "key m = key m'" by (auto intro: antisym)
  then show ?thesis using key_inj m' by blast
qed

lemma best_set:
  assumes "set xs = set ys"
  shows "max_by_key key xs = max_by_key key ys"
proof (cases "xs = []")
  case False
  then obtain m where m: "max_by_key key xs = Some m" "m \<in> set xs" "\<forall>y \<in> set xs. key y \<le> key m"
    by (rule best_exists)
  with assms best_unique [of m ys] show ?thesis by simp
qed (use assms in simp)

end

interpretation by_rank: ranked "rank col" for col
  by unfold_locales (auto simp: rank_def rank_key_def split: option.splits)

lemma max_by_key_cong:
  assumes "\<And>x. x \<in> set xs \<Longrightarrow> f x = g x"
  shows "max_by_key f xs = max_by_key g xs"
proof (cases xs)
  case (Cons x ys)
  have "set ys \<subseteq> set xs \<Longrightarrow> z \<in> set xs \<Longrightarrow>
      fold (\<lambda>y m. if f y < f m then m else y) ys z = fold (\<lambda>y m. if g y < g m then m else y) ys z" for ys z
    by (induction ys arbitrary: z) (auto simp: assms)
  then show ?thesis using Cons by auto
qed simp

section \<open>The merge loop\<close>

definition admit :: "dag \<Rightarrow> u32 \<Rightarrow> hash set \<Rightarrow> hash \<Rightarrow> bool" where
  "admit d k blues c \<longleftrightarrow> (of_nat (card (incomparable d c \<inter> blues)) :: u32) \<le> k"

fun admitted :: "(hash set \<Rightarrow> hash \<Rightarrow> bool) \<Rightarrow> hash set \<Rightarrow> hash list \<Rightarrow> hash list" where
  "admitted P blues [] = []"
| "admitted P blues (c # cs) =
     (if P blues c then c # admitted P (insert c blues) cs else admitted P blues cs)"

lemma admitted_subset: "set (admitted P blues cs) \<subseteq> set cs"
  by (induction P blues cs rule: admitted.induct) auto

lemma admitted_cong:
  assumes "blues \<subseteq> A" and "set cs \<subseteq> A"
    and "\<And>B c. B \<subseteq> A \<Longrightarrow> c \<in> A \<Longrightarrow> P B c = Q B c"
  shows "admitted P blues cs = admitted Q blues cs"
  using assms(1,2) by (induction cs arbitrary: blues) (auto simp: assms(3))

lemma merge_loop:
  assumes "wf_dag d" and "\<forall>c \<in> set cs. contains d c"
  shows "fold_result (merge_step d k col) (blues, ms, w) cs =
     (let new = admitted (admit d k) blues cs
      in Ok (blues \<union> set new, ms @ new, fold (\<lambda>c s. saturating_add s (work_or_1 col c)) new w))"
  using assms(2)
proof (induction cs arbitrary: blues ms w)
  case Nil
  then show ?case by simp
next
  case (Cons c cs)
  then show ?case
    by (simp add: merge_step_def anticone_eq [OF assms(1)] admit_def Let_def)
qed

text \<open>What colouring computes on a well-formed DAG, in terms of pasts and incomparability only.\<close>

definition new_blues :: "dag \<Rightarrow> u32 \<Rightarrow> coloring \<Rightarrow> hash \<Rightarrow> hash \<Rightarrow> hash set \<Rightarrow> hash list" where
  "new_blues d k col b sp blues_sp =
     admitted (admit d k) (insert sp blues_sp) (merge_set col b sp (past d b) (past d sp))"

definition color_spec :: "dag \<Rightarrow> u32 \<Rightarrow> coloring \<Rightarrow> hash \<Rightarrow> u128 \<Rightarrow> block_coloring" where
  "color_spec d k col b w =
     (if par d b = [] then genesis_coloring b w
      else let sp = the (max_by_key (rank col) (par d b)); csp = the (col sp);
               new = new_blues d k col b sp (bc_blues csp);
               blues = insert b (insert sp (bc_blues csp) \<union> set new)
           in \<lparr>bc_selected_parent = Some sp, bc_blues = blues, bc_mergeset_blues = sort new,
               bc_block_work = w, bc_blue_score = of_nat (card blues),
               bc_blue_work = saturating_add (saturating_add (bc_blue_work csp)
                 (fold (\<lambda>c s. saturating_add s (work_or_1 col c)) new 0)) w\<rparr>)"

lemma bc_block_work_color_spec [simp]: "bc_block_work (color_spec d k col b w) = w"
  by (simp add: color_spec_def genesis_coloring_def Let_def)

lemma set_merge_set:
  "finite past_b \<Longrightarrow> set (merge_set col b sp past_b past_sp) = {h \<in> past_b. h \<noteq> b \<and> h \<noteq> sp \<and> h \<notin> past_sp}"
  by (simp add: merge_set_def)

lemma color_finish_eq:
  assumes wf: "wf_dag d" and b: "contains d b" and ne: "par d b \<noteq> []"
    and col: "\<forall>p \<in> set (par d b). col p \<noteq> None"
  shows "color_finish d k col b w (par d b) = Some (Ok (color_spec d k col b w))"
proof -
  obtain sp where sp: "max_by_key (rank col) (par d b) = Some sp" "sp \<in> set (par d b)"
    using by_rank.best_exists [OF ne] by metis
  then obtain csp where csp: "col sp = Some csp" using col by auto
  have "contains d sp" using wf_par(2) [OF wf sp(2)] .
  moreover have "\<forall>c \<in> set (merge_set col b sp (past d b) (past d sp)). contains d c"
    using past_contains [OF wf b] by (simp add: set_merge_set past_finite [OF wf])
  ultimately show ?thesis
    using ne col sp csp b
    by (auto simp: color_finish_def color_spec_def past_closure_eq [OF wf] merge_loop [OF wf]
        new_blues_def Let_def)
qed

section \<open>Colouring depends on the past alone\<close>

definition same_past :: "dag \<Rightarrow> dag \<Rightarrow> hash \<Rightarrow> bool" where
  "same_past d d' b \<longleftrightarrow> contains d' b \<and> (\<forall>x \<in> past d b. par d x = par d' x)"

lemma past_same_rel:
  assumes "\<forall>y \<in> past d x. par d y = par d' y"
  shows "past d' x = past d x"
proof -
  have "(x, y) \<in> (parent_rel d)\<^sup>* \<Longrightarrow> (x, y) \<in> (parent_rel d')\<^sup>*" for y
  proof (induction rule: rtrancl_induct)
    case (step y z)
    then have "y \<in> past d x" by (simp add: past_def)
    with step assms have "(y, z) \<in> parent_rel d'" by (simp add: parent_rel_def)
    with step.IH show ?case by simp
  qed simp
  moreover have "(x, y) \<in> (parent_rel d')\<^sup>* \<Longrightarrow> (x, y) \<in> (parent_rel d)\<^sup>*" for y
  proof (induction rule: rtrancl_induct)
    case (step y z)
    then have "y \<in> past d x" by (simp add: past_def)
    with step assms have "(y, z) \<in> parent_rel d" by (simp add: parent_rel_def)
    with step.IH show ?case by simp
  qed simp
  ultimately show ?thesis by (auto simp: past_def)
qed

lemma same_past_past:
  assumes "same_past d d' b" and "x \<in> past d b"
  shows "past d' x = past d x"
  using assms past_mono [OF assms(2)] by (intro past_same_rel) (auto simp: same_past_def)

lemma same_past_down:
  assumes "wf_dag d'" and "same_past d d' b" and "x \<in> past d b"
  shows "same_past d d' x"
proof -
  have "x \<in> past d' b" using assms same_past_past [OF assms(2), of b] by simp
  then have "contains d' x"
    using past_contains [OF assms(1)] assms(2) unfolding same_past_def by blast
  then show ?thesis using assms past_mono [OF assms(3)] by (auto simp: same_past_def)
qed

lemma same_past_incomparable:
  assumes "wf_dag d" and "wf_dag d'" and "contains d b" and "same_past d d' b" and "c \<in> past d b"
  shows "incomparable d c \<inter> past d b = incomparable d' c \<inter> past d b"
proof -
  have "past d' x = past d x" if "x \<in> past d b" for x
    using same_past_past [OF assms(4) that] .
  moreover have "contains d x \<and> contains d' x" if "x \<in> past d b" for x
    using past_contains [OF assms(1,3) that] same_past_down [OF assms(2,4) that]
    by (simp add: same_past_def)
  ultimately show ?thesis using assms(5) by (auto simp: incomparable_def)
qed

lemma color_spec_cong:
  assumes wf: "wf_dag d" "wf_dag d'" and b: "contains d b" and same: "same_past d d' b"
    and col: "\<And>x. x \<in> past d b \<Longrightarrow> x \<noteq> b \<Longrightarrow> col x = col' x"
    and blues: "\<And>p c. p \<in> set (par d b) \<Longrightarrow> col p = Some c \<Longrightarrow> bc_blues c \<subseteq> past d p"
    and parents: "\<forall>p \<in> set (par d b). col p \<noteq> None"
  shows "color_spec d k col b w = color_spec d' k col' b w"
proof (cases "par d b = []")
  case True
  then show ?thesis using same by (simp add: color_spec_def same_past_def)
next
  case False
  have par: "par d' b = par d b" using same by (simp add: same_past_def)
  have up: "p \<in> past d b" "p \<noteq> b" "past d' p = past d p" if "p \<in> set (par d b)" for p
    using that past_parent wf_par(3) [OF wf(1) that] same_past_past [OF same] by auto
  obtain sp where sp: "max_by_key (rank col) (par d b) = Some sp" "sp \<in> set (par d b)"
    using by_rank.best_exists [OF False] by metis
  have "max_by_key (rank col') (par d b) = max_by_key (rank col) (par d b)"
    using up col by (intro max_by_key_cong) (simp add: rank_def)
  then have sp': "max_by_key (rank col') (par d b) = Some sp" using sp by simp
  obtain csp where csp: "col sp = Some csp" using parents sp by auto
  have csp': "col' sp = Some csp" using csp col up [OF sp(2)] by simp
  have past: "past d' b = past d b" "past d' sp = past d sp"
    using same_past_past [OF same] up sp by auto
  have fin: "finite (past d b)" by (rule past_finite [OF wf(1)])
  have ms: "merge_set col' b sp (past d' b) (past d' sp) = merge_set col b sp (past d b) (past d sp)"
    unfolding merge_set_def past
    by (rule sort_key_cong_set) (use col fin in \<open>auto simp: score_or_0_def\<close>)
  have adm: "admit d k B c = admit d' k B c" if "B \<subseteq> past d b" "c \<in> past d b" for B c
  proof -
    have "incomparable d c \<inter> B = incomparable d' c \<inter> B"
      using same_past_incomparable [OF wf b same that(2)] that(1) by auto
    then show ?thesis by (simp add: admit_def)
  qed
  have "insert sp (bc_blues csp) \<subseteq> past d b"
    using blues [OF sp(2) csp] up [OF sp(2)] past_mono [OF up(1) [OF sp(2)]] by auto
  then have new: "new_blues d' k col' b sp (bc_blues csp) = new_blues d k col b sp (bc_blues csp)"
    unfolding new_blues_def ms
    by (intro admitted_cong [symmetric, where A = "past d b"]) (use adm fin in \<open>auto simp: set_merge_set\<close>)
  have "fold (\<lambda>c s. saturating_add s (work_or_1 col c)) (new_blues d k col b sp (bc_blues csp)) 0
      = fold (\<lambda>c s. saturating_add s (work_or_1 col' c)) (new_blues d k col b sp (bc_blues csp)) 0"
  proof (rule fold_cong [OF refl refl])
    fix c assume "c \<in> set (new_blues d k col b sp (bc_blues csp))"
    then have "c \<in> past d b" "c \<noteq> b"
      using admitted_subset fin unfolding new_blues_def by (force simp: set_merge_set)+
    then show "(\<lambda>s. saturating_add s (work_or_1 col c)) = (\<lambda>s. saturating_add s (work_or_1 col' c))"
      using col by (simp add: work_or_1_def)
  qed
  then show ?thesis by (simp add: color_spec_def Let_def False par sp(1) sp' csp csp' new)
qed

section \<open>The colouring invariant\<close>

definition coloring_inv :: "dag \<Rightarrow> u32 \<Rightarrow> coloring \<Rightarrow> bool" where
  "coloring_inv d k col \<longleftrightarrow>
     (\<forall>b c. col b = Some c \<longrightarrow>
        contains d b \<and> (\<forall>p \<in> set (par d b). col p \<noteq> None)
        \<and> 1 \<le> bc_block_work c \<and> c = color_spec d k col b (bc_block_work c))"

lemma coloring_invD:
  assumes "coloring_inv d k col" and "col b = Some c"
  shows "contains d b" and "\<forall>p \<in> set (par d b). col p \<noteq> None" and "1 \<le> bc_block_work c"
    and "c = color_spec d k col b (bc_block_work c)"
  using assms by (auto simp: coloring_inv_def)

lemma coloring_closed:
  assumes "coloring_inv d k col" and "col b \<noteq> None" and "x \<in> past d b"
  shows "col x \<noteq> None"
proof -
  have "(b, x) \<in> (parent_rel d)\<^sup>*" using assms(3) by (simp add: past_def)
  then show ?thesis
    by (induction rule: rtrancl_induct)
       (use assms(1,2) in \<open>auto simp: coloring_inv_def parent_rel_def\<close>)
qed

lemma color_spec_blues:
  assumes "wf_dag d" and "\<forall>p \<in> set (par d b). \<exists>c. col p = Some c \<and> bc_blues c \<subseteq> past d p"
  shows "bc_blues (color_spec d k col b w) \<subseteq> past d b"
proof (cases "par d b = []")
  case True
  then show ?thesis by (simp add: color_spec_def genesis_coloring_def)
next
  case False
  obtain sp where sp: "max_by_key (rank col) (par d b) = Some sp" "sp \<in> set (par d b)"
    using by_rank.best_exists [OF False] by metis
  then obtain csp where csp: "col sp = Some csp" "bc_blues csp \<subseteq> past d sp" using assms(2) by auto
  have "set (new_blues d k col b sp (bc_blues csp)) \<subseteq> past d b"
    using admitted_subset past_finite [OF assms(1)] unfolding new_blues_def
    by (force simp: set_merge_set)
  moreover have "past d sp \<subseteq> past d b" using past_mono [OF past_parent [OF sp(2)]] .
  moreover have "sp \<in> past d b" using past_parent [OF sp(2)] .
  ultimately show ?thesis using False sp csp by (auto simp: color_spec_def Let_def)
qed

lemma blues_past:
  assumes "wf_dag d" and "coloring_inv d k col"
  shows "col b = Some c \<Longrightarrow> bc_blues c \<subseteq> past d b"
proof (induction "pos (dag_order d) b" arbitrary: b c rule: less_induct)
  case less
  have "\<exists>c. col p = Some c \<and> bc_blues c \<subseteq> past d p" if "p \<in> set (par d b)" for p
    using less.hyps [OF wf_par(3) [OF assms(1) that]] coloring_invD(2) [OF assms(2) less.prems] that
    by auto
  then have "bc_blues (color_spec d k col b (bc_block_work c)) \<subseteq> past d b"
    by (intro color_spec_blues [OF assms(1)]) blast
  then show ?case using coloring_invD(4) [OF assms(2) less.prems] by simp
qed

text \<open>
  One transfer lemma gives every preservation result: the invariant moves to another DAG and
  colouring that agree with the first on the pasts of the coloured blocks.
\<close>

lemma coloring_inv_transfer:
  assumes wf: "wf_dag d" "wf_dag d'" and inv: "coloring_inv d k col"
    and sub: "\<And>b c. col' b = Some c \<Longrightarrow> col b = Some c \<or> fresh b"
    and old: "\<And>b c. col' b = Some c \<Longrightarrow> \<not> fresh b \<Longrightarrow>
                same_past d d' b \<and> (\<forall>x \<in> past d b. col' x = col x)"
    and new: "\<And>b c. col' b = Some c \<Longrightarrow> fresh b \<Longrightarrow>
                contains d' b \<and> (\<forall>p \<in> set (par d' b). col' p \<noteq> None) \<and> 1 \<le> bc_block_work c
                \<and> c = color_spec d' k col' b (bc_block_work c)"
  shows "coloring_inv d' k col'"
  unfolding coloring_inv_def
proof (intro allI impI)
  fix b c assume c: "col' b = Some c"
  show "contains d' b \<and> (\<forall>p \<in> set (par d' b). col' p \<noteq> None)
        \<and> 1 \<le> bc_block_work c \<and> c = color_spec d' k col' b (bc_block_work c)"
  proof (cases "fresh b")
    case False
    with sub [OF c] have cb: "col b = Some c" by simp
    from old [OF c False] have same: "same_past d d' b" and agree: "\<forall>x \<in> past d b. col' x = col x"
      by simp_all
    note D = coloring_invD [OF inv cb]
    have par: "par d' b = par d b" using same by (simp add: same_past_def)
    have "color_spec d k col b (bc_block_work c) = color_spec d' k col' b (bc_block_work c)"
      by (rule color_spec_cong [OF wf D(1) same]) (use agree D(2) blues_past [OF wf(1) inv] in auto)
    moreover have "\<forall>p \<in> set (par d' b). col' p \<noteq> None"
      using D(2) agree past_parent by (auto simp: par)
    ultimately show ?thesis using D same by (simp add: same_past_def)
  qed (use new [OF c] in simp)
qed

lemma coloring_inv_upd:
  assumes wf: "wf_dag d" and inv: "coloring_inv d k col" and b: "contains d b" and fresh: "col b = None"
    and parents: "\<forall>p \<in> set (par d b). col p \<noteq> None" and w: "1 \<le> w"
  shows "coloring_inv d k (col(b \<mapsto> color_spec d k col b w))"
proof (rule coloring_inv_transfer [OF wf wf inv, where fresh = "\<lambda>x. x = b"])
  let ?col = "col(b \<mapsto> color_spec d k col b w)"
  have "color_spec d k col b w = color_spec d k ?col b w"
    by (rule color_spec_cong [OF wf wf b])
       (use b parents blues_past [OF wf inv] in \<open>auto simp: same_past_def\<close>)
  moreover have "b \<notin> set (par d b)" using wf_par(3) [OF wf, of b b] by auto
  ultimately show "contains d x \<and> (\<forall>p \<in> set (par d x). ?col p \<noteq> None) \<and> 1 \<le> bc_block_work c
      \<and> c = color_spec d k ?col x (bc_block_work c)" if "?col x = Some c" "x = b" for x c
    using that b parents w by auto
  show "same_past d d x \<and> (\<forall>y \<in> past d x. ?col y = col y)" if "?col x = Some c" "x \<noteq> b" for x c
  proof -
    have x: "col x = Some c" using that by simp
    then have "b \<notin> past d x" using coloring_closed [OF inv, of x b] fresh by auto
    then show ?thesis using coloring_invD(1) [OF inv x] by (auto simp: same_past_def)
  qed
qed (auto split: if_splits)

lemma same_past_insert:
  assumes wf: "wf_dag d" and ins: "dag_insert d h ps = Ok d'" and b: "contains d b"
  shows "same_past d d' b"
proof (cases "contains d h")
  case True
  then show ?thesis using ins b by (simp add: dag_insert_def same_past_def)
next
  case False
  then have d': "d' = \<lparr>dag_order = dag_order d @ [h], dag_parents = AList.update h ps (dag_parents d)\<rparr>"
    using ins by (auto simp: dag_insert_def split: option.splits)
  have "x \<noteq> h" if "x \<in> past d b" for x
    using past_contains [OF wf b that] False by auto
  then have "\<forall>x \<in> past d b. par d x = par d' x" by (simp add: d' par_insert)
  moreover have "contains d' b" using b by (auto simp: d' contains_def update_conv')
  ultimately show ?thesis by (simp add: same_past_def)
qed

lemma coloring_inv_insert:
  assumes "wf_dag d" and "coloring_inv d k col" and "dag_insert d h ps = Ok d'"
  shows "coloring_inv d' k col"
proof (rule coloring_inv_transfer [OF assms(1) _ assms(2), where fresh = "\<lambda>x. False"])
  show "wf_dag d'" using wf_dag_insert assms by blast
qed (use coloring_invD(1) [OF assms(2)] same_past_insert [OF assms(1,3)] in auto)

lemma coloring_inv_rollback:
  assumes wf: "wf_dag d" and inv: "coloring_inv d k col" and rm: "remove_tip d h = (True, d')"
  shows "coloring_inv d' k (col(h := None))"
proof (rule coloring_inv_transfer [OF wf _ inv, where fresh = "\<lambda>x. False"])
  show "wf_dag d'" using wf_dag_remove_tip [OF wf, of h] rm by simp
  have free: "\<not> (\<exists>ps \<in> set (map snd (dag_parents d)). h \<in> set ps)"
    and d': "d' = \<lparr>dag_order = filter (\<lambda>x. x \<noteq> h) (dag_order d),
                  dag_parents = AList.delete h (dag_parents d)\<rparr>"
    using rm by (auto simp: remove_tip_def split: if_splits)
  have not_par: "h \<notin> set (par d x)" for x
    by (rule unreferenced_par [OF free])
  have not_past: "h \<notin> past d b" if "b \<noteq> h" for b
  proof
    assume "h \<in> past d b"
    then have "(b, h) \<in> (parent_rel d)\<^sup>*" by (simp add: past_def)
    then show False
      by (cases rule: rtranclE) (use that not_par in \<open>auto simp: parent_rel_def\<close>)
  qed
  show "same_past d d' b \<and> (\<forall>x \<in> past d b. (col(h := None)) x = col x)"
    if "(col(h := None)) b = Some c" for b c
  proof -
    have b: "b \<noteq> h" "col b = Some c" using that by (auto split: if_splits)
    have "\<forall>x \<in> past d b. x \<noteq> h" using not_past [OF b(1)] by auto
    then show ?thesis
      using coloring_invD(1) [OF inv b(2)] b(1)
      by (auto simp: same_past_def d' par_delete contains_def delete_conv')
  qed
qed (auto split: if_splits)

section \<open>Totality of the recursion\<close>

definition colored :: "dag \<Rightarrow> u32 \<Rightarrow> coloring \<Rightarrow> hash set \<Rightarrow> coloring \<Rightarrow> bool" where
  "colored d k col A col' \<longleftrightarrow>
     coloring_inv d k col' \<and> col \<subseteq>\<^sub>m col' \<and> A \<subseteq> dom col' \<and> dom col' \<subseteq> dom col \<union> (\<Union>a \<in> A. past d a)"

lemma coloredD:
  assumes "colored d k col A col'"
  shows "coloring_inv d k col'" and "col \<subseteq>\<^sub>m col'" and "A \<subseteq> dom col'"
    and "dom col' \<subseteq> dom col \<union> (\<Union>a \<in> A. past d a)"
  using assms by (simp_all add: colored_def)

lemma parents_loop_total:
  assumes "coloring_inv d k col"
    and "\<And>col p. p \<in> set ps \<Longrightarrow> coloring_inv d k col \<Longrightarrow>
           \<exists>col' r. add col p = Some (col', Ok r) \<and> colored d k col {p} col'"
  shows "\<exists>col'. parents_loop add col ps = Some (col', Ok ()) \<and> colored d k col (set ps) col'"
  using assms
proof (induction ps arbitrary: col)
  case Nil
  then show ?case by (simp add: colored_def)
next
  case (Cons p ps)
  have rest: "\<exists>col' r. add cl q = Some (col', Ok r) \<and> colored d k cl {q} col'"
    if "q \<in> set ps" "coloring_inv d k cl" for cl q
    using Cons.prems(2) that by simp
  show ?case
  proof (cases "col p")
    case (Some c)
    from Cons.IH [OF Cons.prems(1) rest] obtain col' where
      col': "parents_loop add col ps = Some (col', Ok ())" "colored d k col (set ps) col'" by blast
    have "col' p = Some c" using coloredD(2) [OF col'(2)] Some by (metis domI map_le_def)
    then have "p \<in> dom col'" by auto
    with coloredD [OF col'(2)] have "colored d k col (set (p # ps)) col'"
      by (simp add: colored_def) blast
    then show ?thesis using col'(1) Some by simp
  next
    case None
    have "p \<in> set (p # ps)" by simp
    from Cons.prems(2) [OF this Cons.prems(1)]
    obtain col1 r where col1: "add col p = Some (col1, Ok r)" "colored d k col {p} col1" by blast
    from Cons.IH [OF coloredD(1) [OF col1(2)] rest] obtain col' where
      col': "parents_loop add col1 ps = Some (col', Ok ())" "colored d k col1 (set ps) col'" by blast
    note c1 = coloredD [OF col1(2)] and c' = coloredD [OF col'(2)]
    have "p \<in> dom col'" using c1(3) map_le_implies_dom_le [OF c'(2)] by blast
    then have "set (p # ps) \<subseteq> dom col'" using c'(3) by simp
    moreover have "dom col' \<subseteq> (dom col \<union> past d p) \<union> (\<Union>a \<in> set ps. past d a)"
      by (rule subset_trans [OF c'(4) Un_mono]) (use c1(4) in simp_all)
    then have "dom col' \<subseteq> dom col \<union> (\<Union>a \<in> set (p # ps). past d a)"
      by (simp only: set_simps UN_insert Un_assoc)
    ultimately have "colored d k col (set (p # ps)) col'"
      using c'(1) map_le_trans [OF c1(2) c'(2)] by (simp add: colored_def)
    then show ?thesis using None col1(1) col'(1) by simp
  qed
qed

lemma color_block_total:
  assumes wf: "wf_dag d"
  shows "coloring_inv d k col \<Longrightarrow> contains d b \<Longrightarrow> pos (dag_order d) b < n \<Longrightarrow>
    \<exists>col' c. color_block n d k w col b = Some (col', Ok (data_of c b)) \<and> col' b = Some c
      \<and> colored d k col {b} col' \<and> bc_block_work c = (case col b of None \<Rightarrow> max w 1 | Some c \<Rightarrow> bc_block_work c)"
proof (induction n arbitrary: col b w)
  case (Suc n)
  show ?case
  proof (cases "col b")
    case (Some c)
    then show ?thesis using Suc.prems by (auto simp: colored_def)
  next
    case None
    have pb: "parents_of d b = Ok (par d b)" using Suc.prems by (simp add: parents_of_contains)
    have w: "1 \<le> max w 1" by simp
    show ?thesis
    proof (cases "par d b = []")
      case True
      have inv: "coloring_inv d k (col(b \<mapsto> color_spec d k col b (max w 1)))"
        by (rule coloring_inv_upd [OF wf Suc.prems(1,2) None _ w]) (simp add: True)
      have "color_spec d k col b (max w 1) = genesis_coloring b (max w 1)"
        by (simp add: color_spec_def True)
      then show ?thesis using inv None pb True
        by (auto simp: colored_def Let_def map_le_def genesis_coloring_def)
    next
      case False
      have "\<exists>col' r. color_block n d k 1 cl p = Some (col', Ok r) \<and> colored d k cl {p} col'"
        if "p \<in> set (par d b)" "coloring_inv d k cl" for p cl
      proof -
        have "pos (dag_order d) p < n" using wf_par(3) [OF wf that(1)] Suc.prems(3) by simp
        from Suc.IH [OF that(2) wf_par(2) [OF wf that(1)] this] show ?thesis by blast
      qed
      from parents_loop_total [OF Suc.prems(1) this]
      obtain col1 where col1: "parents_loop (color_block n d k 1) col (par d b) = Some (col1, Ok ())"
          "colored d k col (set (par d b)) col1"
        by blast
      have ups: "\<forall>p \<in> set (par d b). col1 p \<noteq> None" using coloredD(3) [OF col1(2)] by auto
      have "b \<notin> (\<Union>p \<in> set (par d b). past d p)"
        using past_pos [OF wf] wf_par(3) [OF wf] by (metis UN_E less_asym less_irrefl)
      then have nb: "col1 b = None" using coloredD(4) [OF col1(2)] None by auto
      let ?c = "color_spec d k col1 b (max w 1)"
      have "coloring_inv d k (col1(b \<mapsto> ?c))"
        by (rule coloring_inv_upd [OF wf coloredD(1) [OF col1(2)] Suc.prems(2) nb ups w])
      moreover have "col \<subseteq>\<^sub>m col1(b \<mapsto> ?c)"
        using coloredD(2) [OF col1(2)] None by (auto simp: map_le_def)
      moreover have "dom (col1(b \<mapsto> ?c)) \<subseteq> dom col \<union> past d b"
        using coloredD(4) [OF col1(2)] past_unfold [of d b] by auto
      ultimately have "colored d k col {b} (col1(b \<mapsto> ?c))" by (simp add: colored_def)
      moreover have "color_block (Suc n) d k w col b = Some (col1(b \<mapsto> ?c), Ok (data_of ?c b))"
        using None pb False col1(1) color_finish_eq [OF wf Suc.prems(2) False ups]
        by (simp add: Let_def)
      ultimately show ?thesis using None by (intro exI conjI) auto
    qed
  qed
qed simp

section \<open>Reachable engine states\<close>

text \<open>
  How the node drives the DAG and the engine: blocks are inserted, coloured, and a block whose
  admission fails is taken out of both.
\<close>

inductive reachable :: "u32 \<Rightarrow> dag \<Rightarrow> ghostdag \<Rightarrow> bool" for k where
  start: "reachable k dag_new (ghostdag_new k)"
| insert: "reachable k d g \<Longrightarrow> dag_insert d h ps = Ok d' \<Longrightarrow> reachable k d' g"
| color: "reachable k d g \<Longrightarrow> add_block_with_work g d b w = Some (g', r) \<Longrightarrow> reachable k d g'"
| rollback: "reachable k d g \<Longrightarrow> remove_tip d h = (True, d') \<Longrightarrow> reachable k d' (gh_remove g h)"

lemma add_block_missing:
  assumes "coloring_inv d (gh_k g) (gh_coloring g)" and "\<not> contains d b"
  shows "add_block_with_work g d b w = Some (g, Err (MissingBlock b))"
proof -
  have "gh_coloring g b = None"
    using assms coloring_invD(1) by (cases "gh_coloring g b") auto
  then show ?thesis using assms(2)
    by (simp add: add_block_with_work_def parents_of_missing Let_def)
qed

lemma add_block_result:
  assumes "wf_dag d" and "coloring_inv d (gh_k g) (gh_coloring g)" and "contains d b"
  obtains g' c where "add_block_with_work g d b w = Some (g', Ok (data_of c b))"
    and "gh_k g' = gh_k g" and "gh_coloring g' b = Some c"
    and "colored d (gh_k g) (gh_coloring g) {b} (gh_coloring g')"
    and "bc_block_work c = (case gh_coloring g b of None \<Rightarrow> max w 1 | Some c \<Rightarrow> bc_block_work c)"
proof -
  have "pos (dag_order d) b < Suc (length (dag_order d))"
    using pos_less [of b "dag_order d"] assms by (simp add: wf_contains less_SucI)
  from color_block_total [OF assms(1,2,3) this, of w] obtain col' c where
      "color_block (Suc (length (dag_order d))) d (gh_k g) w (gh_coloring g) b = Some (col', Ok (data_of c b))"
    and c: "col' b = Some c" "colored d (gh_k g) (gh_coloring g) {b} col'"
      "bc_block_work c = (case gh_coloring g b of None \<Rightarrow> max w 1 | Some c \<Rightarrow> bc_block_work c)"
    by blast
  then have "add_block_with_work g d b w = Some (g\<lparr>gh_coloring := col'\<rparr>, Ok (data_of c b))"
    by (simp add: add_block_with_work_def del: color_block.simps)
  from that [OF this] c show ?thesis by simp
qed

lemma reachable_inv:
  "reachable k d g \<Longrightarrow> wf_dag d \<and> gh_k g = k \<and> coloring_inv d k (gh_coloring g)"
proof (induction rule: reachable.induct)
  case start
  then show ?case by (simp add: wf_dag_new ghostdag_new_def coloring_inv_def)
next
  case (insert d g h ps d')
  then show ?case using wf_dag_insert coloring_inv_insert by blast
next
  case (color d g b w g' r)
  show ?case
  proof (cases "contains d b")
    case True
    have inv: "wf_dag d" "coloring_inv d (gh_k g) (gh_coloring g)" using color.IH by simp_all
    obtain g1 c where "add_block_with_work g d b w = Some (g1, Ok (data_of c b))" "gh_k g1 = gh_k g"
        "colored d (gh_k g) (gh_coloring g) {b} (gh_coloring g1)"
      by (rule add_block_result [OF inv True, of w])
    then show ?thesis using color by (auto dest: coloredD(1))
  next
    case False
    then show ?thesis using color add_block_missing [of d g b w] by auto
  qed
next
  case (rollback d g h d')
  then show ?case
    using wf_dag_remove_tip [of d h] coloring_inv_rollback [of d k "gh_coloring g" h d']
    by (simp add: gh_remove_def fun_upd_def)
qed

lemma color_spec_parents:
  assumes wf: "wf_dag d" and inv: "coloring_inv d k col" and c: "col b = Some c" and ne: "par d b \<noteq> []"
  obtains sp csp where "bc_selected_parent c = Some sp" and "sp \<in> set (par d b)"
    and "\<forall>p \<in> set (par d b). rank col p \<le> rank col sp" and "col sp = Some csp"
    and "bc_blues c = insert b (insert sp (bc_blues csp) \<union> set (bc_mergeset_blues c))"
    and "bc_blue_score c = of_nat (card (bc_blues c))"
    and "set (bc_mergeset_blues c) \<subseteq> past d b - past d sp - {b}"
    and "bc_blue_work c = saturating_add (saturating_add (bc_blue_work csp)
           (fold (\<lambda>c s. saturating_add s (work_or_1 col c)) (new_blues d k col b sp (bc_blues csp)) 0))
           (bc_block_work c)"
proof -
  obtain sp where sp: "max_by_key (rank col) (par d b) = Some sp" "sp \<in> set (par d b)"
      "\<forall>p \<in> set (par d b). rank col p \<le> rank col sp"
    using by_rank.best_exists [OF ne] by metis
  obtain csp where csp: "col sp = Some csp"
    using coloring_invD(2) [OF inv c] sp(2) by auto
  define w where "w = bc_block_work c"
  have eq: "c = color_spec d k col b w" unfolding w_def by (rule coloring_invD(4) [OF inv c])
  have new: "bc_mergeset_blues c = sort (new_blues d k col b sp (bc_blues csp))"
    by (simp add: eq color_spec_def ne sp csp Let_def)
  have ms: "set (bc_mergeset_blues c) \<subseteq> past d b - past d sp - {b}"
    using admitted_subset past_finite [OF wf] unfolding new new_blues_def
    by (force simp: set_merge_set)
  show ?thesis
  proof (rule that [OF _ sp(2,3) csp _ _ ms])
    show "bc_selected_parent c = Some sp" by (simp add: eq color_spec_def ne sp(1) Let_def)
    show "bc_blues c = insert b (insert sp (bc_blues csp) \<union> set (bc_mergeset_blues c))"
      by (simp add: new) (simp add: eq color_spec_def ne sp(1) csp Let_def)
    show "bc_blue_score c = of_nat (card (bc_blues c))"
      by (simp add: eq color_spec_def ne sp(1) csp Let_def)
    show "bc_blue_work c = saturating_add (saturating_add (bc_blue_work csp)
         (fold (\<lambda>c s. saturating_add s (work_or_1 col c)) (new_blues d k col b sp (bc_blues csp)) 0))
         (bc_block_work c)"
      by (simp add: eq color_spec_def ne sp(1) csp Let_def)
  qed
qed

lemma saturating_add_ge: "a \<le> saturating_add a (b::'a::len word)"
proof -
  have "unat a < 2 ^ LENGTH('a)" by (rule unsigned_less)
  then have "unat a \<le> 2 ^ LENGTH('a) - 1" by linarith
  then show ?thesis by (simp add: word_le_nat_alt unat_saturating_add)
qed

lemma blues_self:
  assumes "wf_dag d" and "coloring_inv d k col" and "col b = Some c"
  shows "b \<in> bc_blues c" and "finite (bc_blues c)"
proof -
  have "c = color_spec d k col b (bc_block_work c)" by (rule coloring_invD(4) [OF assms(2,3)])
  then have "bc_blues c = bc_blues (color_spec d k col b (bc_block_work c))" by simp
  then show "b \<in> bc_blues c" by (simp add: color_spec_def genesis_coloring_def Let_def)
  show "finite (bc_blues c)"
    using blues_past [OF assms] past_finite [OF assms(1)] by (rule finite_subset)
qed

lemma coloring_determined:
  assumes wf: "wf_dag d" "wf_dag d'" and inv: "coloring_inv d k col" "coloring_inv d' k col'"
    and same: "same_past d d' b" and c: "col b = Some c" "col' b = Some c'"
    and work: "\<And>x e e'. x \<in> past d b \<Longrightarrow> col x = Some e \<Longrightarrow> col' x = Some e'
                 \<Longrightarrow> bc_block_work e = bc_block_work e'"
  shows "c = c'"
  using same c work
proof (induction "pos (dag_order d) b" arbitrary: b c c' rule: less_induct)
  case less
  have past': "past d' b = past d b" using same_past_past [OF less.prems(1)] by simp
  have below: "col x = col' x" if x: "x \<in> past d b" "x \<noteq> b" for x
  proof -
    obtain e e' where e: "col x = Some e" "col' x = Some e'"
      using coloring_closed [OF inv(1), of b x] coloring_closed [OF inv(2), of b x] less.prems x past'
      by auto
    have "pos (dag_order d) x < pos (dag_order d) b" using past_pos [OF wf(1) x(1)] x(2) by simp
    from less.hyps [OF this same_past_down [OF wf(2) less.prems(1) x(1)] e] have "e = e'"
      using less.prems(4) past_trans [OF x(1)] by blast
    then show ?thesis using e by simp
  qed
  let ?w = "bc_block_work c"
  have w: "?w = bc_block_work c'" by (rule less.prems(4) [OF past_refl less.prems(2,3)])
  have "color_spec d k col b ?w = color_spec d' k col' b ?w"
    by (rule color_spec_cong [OF wf coloring_invD(1) [OF inv(1) less.prems(2)] less.prems(1)])
       (use below blues_past [OF wf(1) inv(1)] coloring_invD(2) [OF inv(1) less.prems(2)] in auto)
  then show ?case
    using coloring_invD(4) [OF inv(1) less.prems(2)] coloring_invD(4) [OF inv(2) less.prems(3)] w
    by simp
qed

lemma order_past_view_eq:
  assumes "wf_dag d" and "contains d tip" and "gh_coloring g tip = Some c"
  shows "order_past_view g d tip =
    Ok (sort_key (\<lambda>b. (\<not> ob_is_blue b, ob_blue_score b, ob_hash b))
             (map (\<lambda>h. \<lparr>ob_hash = h, ob_blue_score = score_or_0 (gh_coloring g) h,
                         ob_is_blue = (h \<in> bc_blues c)\<rparr>)
               (sorted_list_of_set (past d tip))))"
  using assms by (simp add: order_past_view_def past_closure_eq)

section \<open>Properties of the engine\<close>

text \<open>Feeding blocks with their parents and work, in arrival order, into an empty engine.\<close>

fun grow :: "dag \<times> ghostdag \<Rightarrow> (hash \<times> hash list \<times> u128) list \<Rightarrow> (dag \<times> ghostdag) option" where
  "grow s [] = Some s"
| "grow (d, g) ((h, ps, w) # bs) =
     (case dag_insert d h ps of
        Inl _ \<Rightarrow> None
      | Inr d' \<Rightarrow> (case add_block_with_work g d' h w of
          Some (g', Inr _) \<Rightarrow> grow (d', g') bs
        | _ \<Rightarrow> None))"

lemma grow_reachable_from:
  "grow s bs = Some (d', g') \<Longrightarrow> reachable k (fst s) (snd s) \<Longrightarrow> reachable k d' g'"
proof (induction s bs rule: grow.induct)
  case (2 d g h ps w bs)
  from 2(2) obtain d1 where d1: "dag_insert d h ps = Ok d1" by (auto split: sum.splits)
  with 2(2) obtain g1 r where g1: "add_block_with_work g d1 h w = Some (g1, Ok r)"
      and rest: "grow (d1, g1) bs = Some (d', g')"
    by (auto split: option.splits sum.splits)
  have "reachable k d g" using 2(3) by simp
  from reachable.color [OF reachable.insert [OF this d1] g1]
  show ?case using 2(1) [OF d1 g1 refl refl rest] by simp
qed simp

lemma grow_reachable:
  "grow (dag_new, ghostdag_new k) bs = Some (d, g) \<Longrightarrow> reachable k d g"
  by (erule grow_reachable_from) (simp add: reachable.start)

definition line_dag :: dag where
  "line_dag = \<lparr>dag_order = [1, 2, 3], dag_parents = [(1, []), (2, [1]), (3, [1, 2])]\<rparr>"

lemma line_dag_reachable: "reachable k line_dag (ghostdag_new k)"
proof -
  let ?d1 = "\<lparr>dag_order = [1], dag_parents = [(1, [])]\<rparr>"
  let ?d2 = "\<lparr>dag_order = [1, 2], dag_parents = [(1, []), (2, [1])]\<rparr>"
  have "reachable k ?d1 (ghostdag_new k)"
    by (rule reachable.insert [OF reachable.start, where h = 1 and ps = "[]"])
       (simp add: dag_insert_def dag_new_def contains_def)
  then have "reachable k ?d2 (ghostdag_new k)"
    by (rule reachable.insert [where h = 2 and ps = "[1]"]) (simp add: dag_insert_def contains_def)
  then show ?thesis
    by (rule reachable.insert [where h = 3 and ps = "[1, 2]"]) (simp add: dag_insert_def contains_def line_dag_def)
qed

text \<open>
  Property C2. Colouring is total: in every reachable state, colouring a block of the DAG returns
  a result (the recursion into uncoloured parents ends and no lookup panics), the block is then
  coloured and blue in its own view, colourings that existed stay as they were and no block
  outside the past of the argument gets one.
\<close>

theorem add_block_total:
  assumes "reachable k d g" and "contains d b"
  shows "\<exists>g' c. add_block_with_work g d b w = Some (g', Ok (data_of c b))
           \<and> gh_coloring g' b = Some c \<and> b \<in> bc_blues c
           \<and> gh_coloring g \<subseteq>\<^sub>m gh_coloring g'
           \<and> dom (gh_coloring g') \<subseteq> dom (gh_coloring g) \<union> past d b"
proof -
  note inv = reachable_inv [OF assms(1)]
  obtain g' c where r: "add_block_with_work g d b w = Some (g', Ok (data_of c b))"
    "gh_coloring g' b = Some c" "colored d (gh_k g) (gh_coloring g) {b} (gh_coloring g')"
    by (rule add_block_result [of d g b w]) (use inv assms(2) in simp_all)
  have "b \<in> bc_blues c"
    using blues_self(1) [OF _ coloredD(1) [OF r(3)] r(2)] inv by simp
  then show ?thesis using r coloredD [OF r(3)] by auto
qed

theorem add_block_total_witness:
  "reachable 1 line_dag (ghostdag_new 1) \<and> contains line_dag 3
   \<and> (\<exists>g' c. add_block_with_work (ghostdag_new 1) line_dag 3 7 = Some (g', Ok (data_of c 3))
        \<and> gh_coloring g' 3 = Some c \<and> 3 \<in> bc_blues c
        \<and> gh_coloring (ghostdag_new 1) \<subseteq>\<^sub>m gh_coloring g'
        \<and> dom (gh_coloring g') \<subseteq> dom (gh_coloring (ghostdag_new 1)) \<union> past line_dag 3)"
proof -
  have c: "contains line_dag 3" by (simp add: contains_def line_dag_def)
  show ?thesis using add_block_total [OF line_dag_reachable c] line_dag_reachable c by blast
qed

lemma line_colored:
  obtains g c where "reachable 1 line_dag g" and "gh_coloring g 3 = Some c"
    and "bc_block_work c = max w 1"
proof -
  have inv: "wf_dag line_dag" "coloring_inv line_dag (gh_k (ghostdag_new 1)) (gh_coloring (ghostdag_new 1))"
    and b: "contains line_dag 3"
    using reachable_inv [OF line_dag_reachable, of 1] by (auto simp: contains_def line_dag_def)
  obtain g' c where "add_block_with_work (ghostdag_new 1) line_dag 3 w = Some (g', Ok (data_of c 3))"
    "gh_coloring g' 3 = Some c"
    "bc_block_work c = (case gh_coloring (ghostdag_new 1) 3 of None \<Rightarrow> max w 1 | Some c \<Rightarrow> bc_block_work c)"
    by (rule add_block_result [OF inv b])
  then show ?thesis
    using that [OF reachable.color [OF line_dag_reachable]] by (simp add: ghostdag_new_def)
qed

lemma par_line_dag: "par line_dag 3 = [1, 2]"
  by (simp add: par_def line_dag_def)

text \<open>
  Property C3. What a colouring is: the selected parent is the parent of highest rank (blue work,
  then blue score, then hash); the blue set is the selected parent's blue set with the selected
  parent, the accepted merge-set blues and the block itself, all from the block's past; the blue
  score is its size and exceeds the selected parent's; blue work does not fall along the selected
  chain.
\<close>

theorem coloring_structure:
  assumes "reachable k d g" and "gh_coloring g b = Some c" and "par d b \<noteq> []"
  shows "\<exists>sp csp. bc_selected_parent c = Some sp \<and> sp \<in> set (par d b)
     \<and> (\<forall>p \<in> set (par d b). rank (gh_coloring g) p \<le> rank (gh_coloring g) sp)
     \<and> gh_coloring g sp = Some csp
     \<and> bc_blues c = insert b (insert sp (bc_blues csp) \<union> set (bc_mergeset_blues c))
     \<and> set (bc_mergeset_blues c) \<subseteq> past d b - past d sp - {b}
     \<and> bc_blues c \<subseteq> past d b
     \<and> bc_blue_score c = of_nat (card (bc_blues c))
     \<and> card (bc_blues csp) < card (bc_blues c)
     \<and> bc_blue_work csp \<le> bc_blue_work c"
proof -
  note inv = reachable_inv [OF assms(1)]
  then have wf: "wf_dag d" and I: "coloring_inv d k (gh_coloring g)" by simp_all
  obtain sp csp where sp: "bc_selected_parent c = Some sp" "sp \<in> set (par d b)"
      "\<forall>p \<in> set (par d b). rank (gh_coloring g) p \<le> rank (gh_coloring g) sp"
      "gh_coloring g sp = Some csp"
    and f: "bc_blues c = insert b (insert sp (bc_blues csp) \<union> set (bc_mergeset_blues c))"
      "bc_blue_score c = of_nat (card (bc_blues c))"
      "set (bc_mergeset_blues c) \<subseteq> past d b - past d sp - {b}"
      "bc_blue_work c = saturating_add (saturating_add (bc_blue_work csp)
         (fold (\<lambda>c s. saturating_add s (work_or_1 (gh_coloring g) c))
            (new_blues d k (gh_coloring g) b sp (bc_blues csp)) 0)) (bc_block_work c)"
    by (rule color_spec_parents [OF wf I assms(2,3)])
  have "b \<notin> past d sp" using past_pos [OF wf, of b sp] wf_par(3) [OF wf sp(2)] by auto
  then have "bc_blues csp \<subset> bc_blues c"
    using blues_past [OF wf I sp(4)] f(1) by blast
  then have "card (bc_blues csp) < card (bc_blues c)"
    using blues_self(2) [OF wf I assms(2)] by (rule psubset_card_mono [rotated])
  moreover have "bc_blue_work csp \<le> bc_blue_work c"
    unfolding f(4) using saturating_add_ge by (rule order_trans) (rule saturating_add_ge)
  ultimately show ?thesis using sp f blues_past [OF wf I assms(2)] by blast
qed

theorem coloring_structure_witness:
  "\<exists>g c sp csp. reachable 1 line_dag g \<and> gh_coloring g 3 = Some c \<and> par line_dag 3 = [1, 2]
     \<and> bc_selected_parent c = Some sp \<and> sp \<in> {1, 2} \<and> gh_coloring g sp = Some csp
     \<and> card (bc_blues csp) < card (bc_blues c)"
proof -
  obtain g c where g: "reachable 1 line_dag g" "gh_coloring g 3 = Some c" by (rule line_colored)
  from coloring_structure [OF g] show ?thesis using g by (fastforce simp: par_line_dag)
qed

text \<open>
  Property C1. The colouring of a block, and the total order of its past, depend only on that
  past: two engines that hold the same past of \<open>b\<close> (same parents, same work per block), whatever
  the order in which the blocks arrived and whatever else their DAGs contain, compute the same
  colouring and the same order.
\<close>

theorem coloring_arrival_independent:
  assumes "reachable k d g" and "reachable k d' g'"
    and "gh_coloring g b = Some c" and "gh_coloring g' b = Some c'"
    and "\<forall>x \<in> past d b. par d x = par d' x"
    and "\<forall>x \<in> past d b. map_option bc_block_work (gh_coloring g x)
                          = map_option bc_block_work (gh_coloring g' x)"
  shows "c = c' \<and> order_past_view g d b = order_past_view g' d' b"
proof -
  have wf: "wf_dag d" "wf_dag d'"
    and inv: "coloring_inv d k (gh_coloring g)" "coloring_inv d' k (gh_coloring g')"
    using reachable_inv assms(1,2) by blast+
  have b: "contains d b" "contains d' b"
    using coloring_invD(1) [OF inv(1) assms(3)] coloring_invD(1) [OF inv(2) assms(4)] by auto
  have same: "same_past d d' b" using b assms(5) by (simp add: same_past_def)
  have past: "past d' b = past d b" using same_past_past [OF same] by simp
  have agree: "gh_coloring g x = gh_coloring g' x" if x: "x \<in> past d b" for x
  proof -
    obtain e e' where e: "gh_coloring g x = Some e" "gh_coloring g' x = Some e'"
      using coloring_closed [OF inv(1), of b x] coloring_closed [OF inv(2), of b x] assms(3,4) x past
      by auto
    have "e = e'"
    proof (rule coloring_determined [OF wf inv same_past_down [OF wf(2) same x] e])
      fix y f f' assume "y \<in> past d x" and f: "gh_coloring g y = Some f" "gh_coloring g' y = Some f'"
      then have "y \<in> past d b" using past_trans [OF x] by simp
      then have "map_option bc_block_work (gh_coloring g y) = map_option bc_block_work (gh_coloring g' y)"
        using assms(6) by blast
      then show "bc_block_work f = bc_block_work f'" using f by simp
    qed
    then show ?thesis using e by simp
  qed
  have c: "c' = c" using agree [OF past_refl] assms(3,4) by simp
  have "map (\<lambda>h. \<lparr>ob_hash = h, ob_blue_score = score_or_0 (gh_coloring g) h, ob_is_blue = (h \<in> bc_blues c)\<rparr>)
          (sorted_list_of_set (past d b))
      = map (\<lambda>h. \<lparr>ob_hash = h, ob_blue_score = score_or_0 (gh_coloring g') h, ob_is_blue = (h \<in> bc_blues c)\<rparr>)
          (sorted_list_of_set (past d b))"
    using agree past_finite [OF wf(1)] by (simp add: score_or_0_def)
  then show ?thesis
    unfolding order_past_view_eq [OF wf(1) b(1) assms(3)] order_past_view_eq [OF wf(2) b(2) assms(4)] past c
    by (simp only: refl simp_thms)
qed

definition diamond :: "(hash \<times> hash list \<times> u128) list" where
  "diamond = [(1, [], 1), (2, [1], 3), (3, [1], 4), (4, [2, 3], 5)]"

definition diamond' :: "(hash \<times> hash list \<times> u128) list" where
  "diamond' = [(1, [], 1), (3, [1], 4), (8, [3], 6), (2, [1], 3), (4, [2, 3], 5)]"

theorem coloring_arrival_independent_witness:
  "\<exists>d g d' g'. grow (dag_new, ghostdag_new 1) diamond = Some (d, g)
     \<and> grow (dag_new, ghostdag_new 1) diamond' = Some (d', g')
     \<and> gh_coloring g 4 = gh_coloring g' 4 \<and> order_past_view g d 4 = order_past_view g' d' 4"
proof -
  have "case (grow (dag_new, ghostdag_new 1) diamond, grow (dag_new, ghostdag_new 1) diamond') of
      (Some (d, g), Some (d', g')) \<Rightarrow> past_closure d 4 = Ok (set [1, 2, 3, 4])
        \<and> gh_coloring g 4 \<noteq> None \<and> gh_coloring g' 4 \<noteq> None
        \<and> list_all (\<lambda>x. par d x = par d' x \<and> map_option bc_block_work (gh_coloring g x)
                          = map_option bc_block_work (gh_coloring g' x)) [1, 2, 3, 4]
    | _ \<Rightarrow> False"
    by code_simp
  then obtain d g d' g' where
      gr: "grow (dag_new, ghostdag_new 1) diamond = Some (d, g)"
          "grow (dag_new, ghostdag_new 1) diamond' = Some (d', g')"
    and pc: "past_closure d 4 = Ok (set [1, 2, 3, 4])"
    and col: "gh_coloring g 4 \<noteq> None" "gh_coloring g' 4 \<noteq> None"
    and ag: "\<forall>x \<in> set [1, 2, 3, 4]. par d x = par d' x \<and> map_option bc_block_work (gh_coloring g x)
               = map_option bc_block_work (gh_coloring g' x)"
    by (auto simp del: grow.simps split: option.splits)
  obtain c c' where c: "gh_coloring g 4 = Some c" "gh_coloring g' 4 = Some c'" using col by auto
  have r: "reachable 1 d g" "reachable 1 d' g'" using gr grow_reachable by blast+
  have "past d 4 = set [1, 2, 3, 4]"
    using pc reachable_inv [OF r(1)] by (simp add: past_closure_eq split: if_splits)
  with ag coloring_arrival_independent [OF r c] show ?thesis using gr c by auto
qed

text \<open>
  Property C4. The total order of a tip's past lists every block of the past exactly once, blues
  before reds, each group by ascending blue score with ties broken by hash, and marks a block
  blue exactly when the tip's view has it blue.
\<close>

theorem order_past_view_total_order:
  assumes "reachable k d g" and "gh_coloring g tip = Some c"
  shows "\<exists>bs. order_past_view g d tip = Ok bs
     \<and> distinct (map ob_hash bs) \<and> set (map ob_hash bs) = past d tip
     \<and> sorted_wrt (\<lambda>a b. (\<not> ob_is_blue a, ob_blue_score a, ob_hash a)
                          < (\<not> ob_is_blue b, ob_blue_score b, ob_hash b)) bs
     \<and> (\<forall>b \<in> set bs. (ob_is_blue b \<longleftrightarrow> is_blue_in_view g tip (ob_hash b))
                   \<and> blue_score g (ob_hash b) = Some (ob_blue_score b))"
proof -
  have wf: "wf_dag d" and inv: "coloring_inv d k (gh_coloring g)" using reachable_inv [OF assms(1)] by auto
  have tip: "contains d tip" using coloring_invD(1) [OF inv assms(2)] .
  let ?mk = "\<lambda>h. \<lparr>ob_hash = h, ob_blue_score = score_or_0 (gh_coloring g) h, ob_is_blue = (h \<in> bc_blues c)\<rparr>"
  let ?key = "\<lambda>b. (\<not> ob_is_blue b, ob_blue_score b, ob_hash b)"
  let ?bs = "sort_key ?key (map ?mk (sorted_list_of_set (past d tip)))"
  have fin: "finite (past d tip)" by (rule past_finite [OF wf])
  have dist: "distinct (map ob_hash ?bs)"
    using fin by (simp add: distinct_map inj_on_def)
  have set: "set (map ob_hash ?bs) = past d tip" using fin by (simp add: image_image)
  have "sorted_wrt (\<lambda>a b. ?key a < ?key b) ?bs"
    by (rule sort_key_strict) (simp add: distinct_map inj_on_def)
  moreover have "blue_score g h = Some (score_or_0 (gh_coloring g) h)" if "h \<in> past d tip" for h
    using coloring_closed [OF inv _ that] assms(2) by (auto simp: blue_score_def score_or_0_def)
  ultimately show ?thesis
    using order_past_view_eq [OF wf tip assms(2)] dist set fin assms(2)
    by (auto simp: is_blue_in_view_def)
qed

lemma diamond_colored:
  obtains d g c where "reachable 1 d g" and "gh_coloring g 4 = Some c" and "past_closure d 4 = Ok {1, 2, 3, 4}"
    and "tips d = [4]"
proof -
  have "case grow (dag_new, ghostdag_new 1) diamond of
      Some (d, g) \<Rightarrow> gh_coloring g 4 \<noteq> None \<and> past_closure d 4 = Ok {1, 2, 3, 4} \<and> tips d = [4] | None \<Rightarrow> False"
    by code_simp
  then obtain d g where "grow (dag_new, ghostdag_new 1) diamond = Some (d, g)" "gh_coloring g 4 \<noteq> None"
      "past_closure d 4 = Ok {1, 2, 3, 4}" "tips d = [4]"
    by (auto simp del: grow.simps split: option.splits)
  then show ?thesis using that grow_reachable by blast
qed

theorem order_past_view_total_order_witness:
  "\<exists>d g c bs. reachable 1 d g \<and> gh_coloring g 4 = Some c \<and> order_past_view g d 4 = Ok bs
     \<and> set (map ob_hash bs) = {1, 2, 3, 4} \<and> distinct (map ob_hash bs)"
proof -
  obtain d g c where r: "reachable 1 d g" "gh_coloring g 4 = Some c" and pc: "past_closure d 4 = Ok {1, 2, 3, 4}"
    by (rule diamond_colored)
  have p: "past d 4 = {1, 2, 3, 4}"
    using pc reachable_inv [OF r(1)] by (simp add: past_closure_eq split: if_splits)
  from order_past_view_total_order [OF r] obtain bs where "order_past_view g d 4 = Ok bs"
      "distinct (map ob_hash bs)" "set (map ob_hash bs) = past d 4"
    by (elim exE conjE)
  with r p show ?thesis by (intro exI [of _ d] exI [of _ g] exI [of _ c] exI [of _ bs]) simp
qed

text \<open>
  The virtual tip is the coloured tip of highest rank, whatever the order and
  multiplicity in which the tips are listed.
\<close>

theorem virtual_tip_is_maximum:
  "select_virtual_tip g ts = Some t \<longleftrightarrow>
     t \<in> set ts \<and> gh_coloring g t \<noteq> None
     \<and> (\<forall>u \<in> set ts. gh_coloring g u \<noteq> None \<longrightarrow> rank (gh_coloring g) u \<le> rank (gh_coloring g) t)"
  (is "?sel \<longleftrightarrow> ?max")
proof
  let ?ts = "filter (\<lambda>h. gh_coloring g h \<noteq> None) ts"
  assume sel: ?sel
  then have ne: "?ts \<noteq> []" by (auto simp: select_virtual_tip_def)
  obtain m where m: "max_by_key (rank (gh_coloring g)) ?ts = Some m" "m \<in> set ?ts"
      "\<forall>y \<in> set ?ts. rank (gh_coloring g) y \<le> rank (gh_coloring g) m"
    by (rule by_rank.best_exists [OF ne])
  then have "t = m" using sel by (simp add: select_virtual_tip_def)
  then show ?max using m(2,3) by simp
next
  assume ?max
  then show ?sel unfolding select_virtual_tip_def by (intro by_rank.best_unique) auto
qed

theorem virtual_tip_is_maximum_witness:
  "\<exists>d g. reachable 1 d g \<and> tips d = [4] \<and> select_virtual_tip g (tips d) = Some 4"
proof -
  obtain d g c where "reachable 1 d g" "gh_coloring g 4 = Some c" "tips d = [4]" by (rule diamond_colored)
  then show ?thesis using virtual_tip_is_maximum [of g "tips d" 4]
    by (intro exI [of _ d] exI [of _ g]) simp
qed

text \<open>
  Durable snapshots lose nothing: dropping a block's colouring and importing its
  snapshot, with the selected parent still coloured, gives back the same engine state.
\<close>

theorem snapshot_round_trip:
  assumes "reachable k d g" and "snapshot g b = Some s"
  shows "fst (import_snapshot (gh_remove g b) b s) = g"
proof -
  have wf: "wf_dag d" and inv: "coloring_inv d k (gh_coloring g)" using reachable_inv [OF assms(1)] by auto
  obtain c where c: "gh_coloring g b = Some c" and s: "s =
     \<lparr>gs_selected_parent = bc_selected_parent c, gs_blue_score = bc_blue_score c,
      gs_blue_work = bc_blue_work c, gs_block_work = bc_block_work c,
      gs_mergeset_blues = sort (bc_mergeset_blues c)\<rparr>"
    using assms(2) by (auto simp: snapshot_def)
  have eq: "c = color_spec d k (gh_coloring g) b (bc_block_work c)" by (rule coloring_invD(4) [OF inv c])
  have ms: "sort (bc_mergeset_blues c) = bc_mergeset_blues c"
    by (subst (1 2) eq) (simp add: color_spec_def genesis_coloring_def Let_def sorted_sort_id)
  have w: "max (bc_block_work c) 1 = bc_block_work c" using coloring_invD(3) [OF inv c] by (simp add: max_absorb1)
  have blues: "bc_blues c = insert b ((case bc_selected_parent c of
            None \<Rightarrow> {}
          | Some sp \<Rightarrow> (case gh_coloring (gh_remove g b) sp of None \<Rightarrow> {} | Some c \<Rightarrow> insert sp (bc_blues c)))
        \<union> set (bc_mergeset_blues c))"
  proof (cases "par d b = []")
    case True
    then have "c = genesis_coloring b (bc_block_work c)" using eq by (simp add: color_spec_def)
    then have "bc_selected_parent c = None" "bc_blues c = {b}" "bc_mergeset_blues c = []"
      by (metis block_coloring.select_convs genesis_coloring_def)+
    then show ?thesis by simp
  next
    case False
    obtain sp csp where sp: "bc_selected_parent c = Some sp" "sp \<in> set (par d b)" "gh_coloring g sp = Some csp"
      "bc_blues c = insert b (insert sp (bc_blues csp) \<union> set (bc_mergeset_blues c))"
      by (rule color_spec_parents [OF wf inv c False])
    have "sp \<noteq> b" using wf_par(3) [OF wf sp(2)] by auto
    then show ?thesis using sp by (simp add: gh_remove_def)
  qed
  let ?c = "\<lparr>bc_selected_parent = bc_selected_parent c, bc_blues = bc_blues c,
      bc_mergeset_blues = bc_mergeset_blues c, bc_block_work = bc_block_work c,
      bc_blue_score = bc_blue_score c, bc_blue_work = bc_blue_work c\<rparr>"
  have "fst (import_snapshot (gh_remove g b) b s)
      = (gh_remove g b)\<lparr>gh_coloring := (gh_coloring (gh_remove g b))(b \<mapsto> ?c)\<rparr>"
    by (simp add: import_snapshot_def s Let_def ms w blues [symmetric])
  also have "?c = c" by simp
  also have "(gh_remove g b)\<lparr>gh_coloring := (gh_coloring (gh_remove g b))(b \<mapsto> c)\<rparr> = g"
    using c by (simp add: gh_remove_def fun_upd_idem)
  finally show ?thesis .
qed

theorem snapshot_round_trip_witness:
  "\<exists>d g s. reachable 1 d g \<and> snapshot g 4 = Some s \<and> fst (import_snapshot (gh_remove g 4) 4 s) = g"
proof -
  obtain d g c where r: "reachable 1 d g" "gh_coloring g 4 = Some c" by (rule diamond_colored)
  then obtain s where "snapshot g 4 = Some s" by (auto simp: snapshot_def)
  with snapshot_round_trip [OF r(1)] r show ?thesis by blast
qed

text \<open>
  On every DAG the node can build, the breadth-first loop of \<open>past_closure\<close> ends and
  returns exactly the blocks reachable along parent edges, \<open>anticone\<close> exactly the blocks of the DAG
  incomparable with its argument, and both report a missing block; reachability is a partial order.
\<close>

theorem past_and_anticone_exact:
  assumes "reachable k d g"
  shows "past_closure d h = (if contains d h then Ok ((parent_rel d)\<^sup>* `` {h}) else Err (MissingBlock h))
    \<and> anticone d h = (if contains d h
                      then Ok {c. contains d c \<and> c \<notin> past d h \<and> h \<notin> past d c}
                      else Err (MissingBlock h))
    \<and> (x \<in> past d y \<and> y \<in> past d x \<longleftrightarrow> x = y)"
  using reachable_inv [OF assms] past_antisym [of d x y]
  by (auto simp: past_closure_eq anticone_eq past_def incomparable_def)

theorem past_and_anticone_exact_witness:
  "reachable 1 line_dag (ghostdag_new 1)
   \<and> past_closure line_dag 3 = Ok ((parent_rel line_dag)\<^sup>* `` {3}) \<and> 2 \<notin> past line_dag 1"
proof -
  have c: "contains line_dag 3" "contains line_dag 1" by (simp_all add: contains_def line_dag_def)
  note at3 = past_and_anticone_exact [OF line_dag_reachable, where h = 3, THEN conjunct1]
    and at1 = past_and_anticone_exact [OF line_dag_reachable, where h = 1, THEN conjunct1]
  have "past_closure line_dag 3 = Ok ((parent_rel line_dag)\<^sup>* `` {3})"
    using at3 c by (simp only: if_True)
  moreover have "past_closure line_dag 1 = Ok {1}" by code_simp
  then have "past line_dag 1 = {1}" using at1 c by (simp add: past_def)
  ultimately show ?thesis using line_dag_reachable [of 1] by simp
qed

text \<open>
  Property C5. The order in which blues are applied is not a topological order. With \<open>k = 1\<close>, block
  7 merges the heavy block 6 and block 8; both are blue in its view, but 8 has as high a blue score
  as its child 7, and ties fall to the hash, so block 7 is applied before its own parent 8.
\<close>

definition inversion :: "(hash \<times> hash list \<times> u128) list" where
  "inversion = [(1, [], 1), (2, [1], 1), (3, [2], 1), (4, [3], 1), (5, [1], 1), (6, [5], 9),
                (8, [4, 5], 1), (7, [6, 8], 1)]"


text \<open>
  Property C8. The blue set of a block need not be a \<open>k\<close>-cluster: a candidate is admitted when its
  own anticone holds at most \<open>k\<close> blues, but the anticone of the blues it joins is not re-examined.
  With \<open>k = 1\<close>, both 3 and 4 join the blues of block 5, and block 2, blue too, then has two blues
  in its anticone.
\<close>

definition wide_merge :: "(hash \<times> hash list \<times> u128) list" where
  "wide_merge = [(1, [], 1), (2, [1], 9), (3, [1], 1), (4, [3], 1), (5, [2, 4], 1)]"

theorem blue_set_not_k_cluster:
  "map_option (\<lambda>(d, g). (map_option bc_blues (gh_coloring g 5), anticone d 2))
     (grow (dag_new, ghostdag_new 1) wide_merge)
   = Some (Some {1, 2, 3, 4, 5}, Ok {3, 4})"
  by code_simp

end
