(* ===== verification/Daa.thy ===== *)
theory Daa
  imports Agora_Types
begin

text \<open>
  Difficulty retargeting (\<^verbatim>\<open>core/crates/consensus/src/daa.rs\<close>), the emission schedule
  (\<^verbatim>\<open>emission.rs\<close>) and the structural limits (\<^verbatim>\<open>limits.rs\<close>).

  A Rust \<open>clamp\<close> panics when its bounds are crossed and an integer division panics on zero; those
  panics are \<^const>\<open>None\<close>. The two retarget loops are the same loop with the roles of numerator
  and denominator exchanged; its bound is \<open>max_bits\<close>, so it is a recursion on the steps left. The
  signed intermediate value \<open>parent.level as i64 + delta\<close> lies within \<open>2\<^sup>3\<^sup>3\<close> of zero, so it is an
  \<^typ>\<open>int\<close>.
\<close>

section \<open>Configuration and samples\<close>

record daa_config =
  target_block_time_ms :: u64
  window_size :: u64
  max_adjustment_bits :: u32
  min_level :: u32
  max_level :: u32

definition default_daa :: daa_config where
  "default_daa = \<lparr>target_block_time_ms = 1000, window_size = 90, max_adjustment_bits = 1,
                  min_level = 1, max_level = 128\<rparr>"

type_synonym difficulty = u32

definition default_difficulty :: difficulty where
  "default_difficulty = 8"

definition clamp :: "'a::linorder \<Rightarrow> 'a \<Rightarrow> 'a \<Rightarrow> 'a option" where
  "clamp x lo hi = (if hi < lo then None else Some (if x < lo then lo else if hi < x then hi else x))"

definition difficulty_clamp :: "daa_config \<Rightarrow> difficulty \<Rightarrow> difficulty option" where
  "difficulty_clamp config level = clamp level (min_level config) (max_level config)"

record daa_sample =
  timestamp_ms :: u64
  sample_blue_work :: u128
  sample_block_work :: u128

definition work_from_bits :: "u32 \<Rightarrow> u128" where
  "work_from_bits bits =
     (if bits = 0 then 1 else if 128 \<le> bits then - 1 else push_bit (unat bits) 1)"

definition median_time_past :: "u64 list \<Rightarrow> u64" where
  "median_time_past timestamps_newest_first =
     (let n = min (length timestamps_newest_first) 11
      in if n = 0 then 0 else sort (take n timestamps_newest_first) ! (n div 2))"

section \<open>Retargeting\<close>

definition window_step :: "u128 \<times> u64 \<Rightarrow> daa_sample \<times> daa_sample \<Rightarrow> u128 \<times> u64" where
  "window_step acc w =
     (case acc of (total_work, elapsed_ms) \<Rightarrow> case w of (older, newer) \<Rightarrow>
        (saturating_add total_work
           (max (max (sample_block_work newer)
                     (saturating_sub (sample_blue_work newer) (sample_blue_work older))) 1),
         saturating_add elapsed_ms
           (max (saturating_sub (timestamp_ms newer) (timestamp_ms older)) 1)))"

definition window_totals :: "daa_sample list \<Rightarrow> u128 \<times> u64" where
  "window_totals samples = foldl window_step (0, 0) (zip samples (tl samples))"

fun doublings :: "nat \<Rightarrow> u128 \<Rightarrow> u128 \<Rightarrow> nat" where
  "doublings 0 bound thr = 0"
| "doublings (Suc n) bound thr =
     (let next_thr = saturating_mul thr 2
      in if next_thr \<le> bound
         then (if next_thr = - 1 then 1 else Suc (doublings n bound next_thr))
         else 0)"

definition retarget_delta :: "nat \<Rightarrow> u128 \<Rightarrow> u128 \<Rightarrow> int" where
  "retarget_delta max_bits num den =
     (if den \<le> num then int (doublings max_bits num den)
      else - int (doublings max_bits den num))"

definition next_difficulty_weighted ::
    "daa_config \<Rightarrow> difficulty \<Rightarrow> daa_sample list \<Rightarrow> difficulty option" where
  "next_difficulty_weighted config parent_bits samples =
     (case difficulty_clamp config parent_bits of
        None \<Rightarrow> None
      | Some parent \<Rightarrow>
          if length samples < 2 then Some parent
          else case window_totals samples of (total_work, elapsed_ms) \<Rightarrow>
            if total_work = 0 \<or> elapsed_ms = 0 then Some parent
            else
              let parent_work = max (work_from_bits parent) 1;
                  target = (ucast (max (target_block_time_ms config) 1) :: u128);
                  elapsed = (ucast elapsed_ms :: u128);
                  num = saturating_mul total_work target;
                  den = saturating_mul parent_work elapsed;
                  max_bits = max (max_adjustment_bits config) 1
              in map_option of_int
                   (clamp (uint parent + retarget_delta (unat max_bits) num den)
                      (uint (min_level config)) (uint (max_level config))))"

definition uniform_samples :: "u128 \<Rightarrow> u64 list \<Rightarrow> daa_sample list" where
  "uniform_samples w ts =
     map (\<lambda>(i, t). \<lparr>timestamp_ms = t,
                    sample_blue_work = saturating_mul w (saturating_add (of_nat i) 1),
                    sample_block_work = w\<rparr>) (enumerate 0 ts)"

definition next_difficulty :: "daa_config \<Rightarrow> difficulty \<Rightarrow> u64 list \<Rightarrow> difficulty option" where
  "next_difficulty config current window_timestamps_ms =
     (case difficulty_clamp config current of
        None \<Rightarrow> None
      | Some c \<Rightarrow> next_difficulty_weighted config current
                    (uniform_samples (work_from_bits c) window_timestamps_ms))"

section \<open>Emission\<close>

record emission_schedule =
  initial_reward :: u64
  halving_interval :: u64

definition default_emission :: emission_schedule where
  "default_emission = \<lparr>initial_reward = 5000000000, halving_interval = 210000\<rparr>"

definition reward_at_blue_score :: "emission_schedule \<Rightarrow> u64 \<Rightarrow> u64 option" where
  "reward_at_blue_score e score =
     (if halving_interval e = 0 then None
      else let halvings = score div halving_interval e
           in if 64 \<le> halvings then Some 0
              else Some (drop_bit (unat halvings) (initial_reward e)))"

section \<open>Limits\<close>

record consensus_limits =
  max_block_parents :: nat
  max_block_transactions :: nat
  max_tx_inputs :: nat
  max_tx_outputs :: nat
  max_tx_bytes :: nat
  max_data_commitments :: nat
  max_block_bytes :: nat
  max_timestamp_ahead_ms :: u64
  coinbase_maturity :: u64
  max_parent_blue_score_lag :: u64

definition default_limits :: consensus_limits where
  "default_limits =
     \<lparr>max_block_parents = 16, max_block_transactions = 129, max_tx_inputs = 64, max_tx_outputs = 64,
      max_tx_bytes = 100000, max_data_commitments = 64, max_block_bytes = 1000000,
      max_timestamp_ahead_ms = 60000, coinbase_maturity = 100, max_parent_blue_score_lag = 4096\<rparr>"

section \<open>Work and the retarget loop\<close>

lemma clamp_Some:
  "clamp x lo hi = Some y \<longleftrightarrow> lo \<le> hi \<and> y = max lo (min hi x)"
  by (auto simp: clamp_def max_def min_def)

lemma clamp_near:
  fixes p :: int
  shows "lo \<le> p \<Longrightarrow> p \<le> hi \<Longrightarrow> \<bar>d\<bar> \<le> n \<Longrightarrow> \<bar>max lo (min hi (p + d)) - p\<bar> \<le> n"
  by (auto simp: max_def min_def abs_if split: if_splits)

lemma difficulty_clamp_ok:
  assumes "min_level c \<le> max_level c"
  obtains p where "difficulty_clamp c pb = Some p" and "min_level c \<le> p" and "p \<le> max_level c"
proof
  show "difficulty_clamp c pb = Some (max (min_level c) (min (max_level c) pb))"
    using assms by (simp add: difficulty_clamp_def clamp_Some)
qed (use assms in simp_all)

lemma unat_work_from_bits:
  "unat (work_from_bits bits) = min (2 ^ unat bits) (2 ^ 128 - 1)"
proof -
  have small: "unat (push_bit (unat bits) (1::u128)) = 2 ^ unat bits" if "unat bits < 128"
  proof -
    have "(2::nat) ^ unat bits < 2 ^ 128" using that by (intro power_strict_increasing) auto
    then show ?thesis using that
      by (simp add: unsigned_push_bit_eq [where w = "1 :: u128"] take_bit_nat_eq_self del: push_bit_of_1)
  qed
  consider "bits = 0" | "bits \<noteq> 0" "unat bits < 128" | "128 \<le> unat bits" by linarith
  then show ?thesis
  proof cases
    case 1
    then show ?thesis by (simp add: work_from_bits_def)
  next
    case 2
    then have "\<not> 128 \<le> bits" by (simp add: word_le_nat_alt)
    moreover have "(2::nat) ^ unat bits \<le> 2 ^ 127" using 2 by (intro power_increasing) auto
    ultimately show ?thesis using 2 small by (simp add: work_from_bits_def)
  next
    case 3
    then have "128 \<le> bits" "bits \<noteq> 0" by (auto simp: word_le_nat_alt)
    moreover have "(2::nat) ^ 128 \<le> 2 ^ unat bits" using 3 by (intro power_increasing) auto
    ultimately show ?thesis
      by (simp add: work_from_bits_def unsigned_minus_1_eq_mask mask_eq_exp_minus_1)
  qed
qed

lemma work_from_bits_pos [simp]: "work_from_bits bits \<noteq> 0"
  using unat_work_from_bits [of bits] by (auto simp: unat_eq_0 [symmetric] simp del: unat_eq_0)

lemma doublings_le: "doublings n bound thr \<le> n"
  by (induction n bound thr rule: doublings.induct) (auto simp: Let_def)

text \<open>The loop finds the number of exact doublings that fit, unless the bound itself saturated.\<close>

lemma doublings_exact:
  assumes "unat bound < 2 ^ 128 - 1"
  shows "(0 < doublings n bound thr \<longrightarrow> unat thr * 2 ^ doublings n bound thr \<le> unat bound)
       \<and> (doublings n bound thr < n \<longrightarrow> unat bound < unat thr * 2 ^ Suc (doublings n bound thr))"
  using assms
proof (induction n bound thr rule: doublings.induct)
  case (1 bound thr)
  then show ?case by simp
next
  case (2 n bound thr)
  let ?nx = "saturating_mul thr 2"
  show ?case
  proof (cases "?nx \<le> bound")
    case False
    then have "unat bound < 2 * unat thr"
      using 2 by (simp add: word_le_nat_alt unat_saturating_mul)
    then show ?thesis using False by (simp add: Let_def)
  next
    case True
    then have le: "unat ?nx \<le> unat bound" by (simp add: word_le_nat_alt)
    have "unat (- 1 :: u128) = 2 ^ 128 - 1"
      by (simp add: unsigned_minus_1_eq_mask mask_eq_exp_minus_1)
    then have nx: "?nx \<noteq> - 1" using 2(2) le by auto
    have nx2: "unat ?nx = 2 * unat thr"
      using 2(2) le by (auto simp: unat_saturating_mul min_def split: if_splits)
    let ?m = "doublings n bound ?nx"
    have m: "doublings (Suc n) bound thr = Suc ?m" using True nx by (simp add: Let_def)
    have IH: "(0 < ?m \<longrightarrow> unat ?nx * 2 ^ ?m \<le> unat bound) \<and> (?m < n \<longrightarrow> unat bound < unat ?nx * 2 ^ Suc ?m)"
      using 2(1) [OF refl True nx 2(2)] .
    have "unat ?nx * 2 ^ ?m \<le> unat bound"
      using IH True by (cases "?m = 0") (simp_all add: word_le_nat_alt)
    then show ?thesis unfolding m using IH by (simp add: nx2 mult.assoc mult.left_commute)
  qed
qed

lemma saturating_add_nonzero: "b \<noteq> 0 \<Longrightarrow> saturating_add a (b::'a::len word) \<noteq> 0"
proof -
  assume "b \<noteq> 0"
  then have "0 < unat b" by (simp add: unat_gt_0)
  moreover have "(1::nat) < 2 ^ LENGTH('a)" by (rule one_less_power) simp_all
  ultimately have "0 < unat (saturating_add a b)" unfolding unat_saturating_add by linarith
  then show ?thesis by auto
qed

lemma max_1_nonzero: "max x (1::'a::len word) \<noteq> 0"
  by (auto simp: max_def)

lemma max_1_id: "x \<noteq> 0 \<Longrightarrow> max x (1::'a::len word) = x"
  by (simp add: max_absorb1 word_le_nat_alt Suc_le_eq unat_gt_0)

lemma window_totals_nonzero:
  assumes "2 \<le> length samples"
  shows "fst (window_totals samples) \<noteq> 0 \<and> snd (window_totals samples) \<noteq> 0"
proof -
  have "zip samples (tl samples) \<noteq> []" using assms by (cases samples) auto
  then obtain ws w where ws: "zip samples (tl samples) = ws @ [w]" by (metis append_butlast_last_id)
  show ?thesis
    unfolding window_totals_def ws
    by (simp add: window_step_def saturating_add_nonzero max_1_nonzero split: prod.split)
qed

lemma uint_of_clamped:
  assumes "uint (lo::u32) \<le> x" and "x \<le> uint (hi::u32)"
  shows "uint (of_int x :: u32) = x"
proof -
  have "0 \<le> x" using assms(1) uint_ge_0 [of lo] by linarith
  moreover have "x < 2 ^ 32" using assms(2) unsigned_less [of hi, where ?'a = int] by simp
  ultimately show ?thesis by (simp add: uint_word_of_int)
qed

text \<open>One retarget, unfolded once for every property below.\<close>

lemma next_difficulty_step:
  assumes le: "min_level c \<le> max_level c" and len: "2 \<le> length samples"
    and wt: "window_totals samples = (W, E)"
  obtains p lvl where "difficulty_clamp c pb = Some p"
    and "next_difficulty_weighted c pb samples = Some lvl"
    and "uint lvl = max (uint (min_level c)) (min (uint (max_level c))
           (uint p + retarget_delta (unat (max (max_adjustment_bits c) 1))
              (saturating_mul W (ucast (max (target_block_time_ms c) 1)))
              (saturating_mul (work_from_bits p) (ucast E))))"
    and "min_level c \<le> p" and "p \<le> max_level c"
proof -
  obtain p where p: "difficulty_clamp c pb = Some p" "min_level c \<le> p" "p \<le> max_level c"
    by (rule difficulty_clamp_ok [OF le])
  have nz: "W \<noteq> 0" "E \<noteq> 0" using window_totals_nonzero [OF len] wt by auto
  have w1: "max (work_from_bits p) 1 = work_from_bits p"
    by (rule max_1_id) simp
  define x where "x = uint p + retarget_delta (unat (max (max_adjustment_bits c) 1))
      (saturating_mul W (ucast (max (target_block_time_ms c) 1)))
      (saturating_mul (work_from_bits p) (ucast E))"
  define y where "y = max (uint (min_level c)) (min (uint (max_level c)) x)"
  have bounds: "uint (min_level c) \<le> uint (max_level c)" using le by (simp add: word_le_def)
  have cl: "clamp x (uint (min_level c)) (uint (max_level c)) = Some y"
    using bounds by (simp add: clamp_Some y_def)
  have "next_difficulty_weighted c pb samples = Some (of_int y)"
    using p(1) len nz cl
    by (simp add: next_difficulty_weighted_def wt Let_def w1 x_def [symmetric])
  moreover have "uint (of_int y :: u32) = y"
    by (rule uint_of_clamped [of "min_level c" _ "max_level c"]) (use bounds in \<open>auto simp: y_def\<close>)
  ultimately show ?thesis using that p unfolding y_def x_def by blast
qed

section \<open>Properties of retargeting and emission\<close>

text \<open>
  Property C6. With consistent bounds a retarget always returns a level; it lies within the
  configured bounds and differs from the clamped parent level by at most the configured number of
  bits (at least one).
\<close>

theorem retarget_bounded:
  assumes "min_level c \<le> max_level c"
  shows "\<exists>p lvl. difficulty_clamp c pb = Some p \<and> next_difficulty_weighted c pb samples = Some lvl
     \<and> min_level c \<le> lvl \<and> lvl \<le> max_level c
     \<and> \<bar>uint lvl - uint p\<bar> \<le> int (unat (max (max_adjustment_bits c) 1))"
proof (cases "2 \<le> length samples")
  case False
  obtain p where p: "difficulty_clamp c pb = Some p" "min_level c \<le> p" "p \<le> max_level c"
    by (rule difficulty_clamp_ok [OF assms])
  then show ?thesis using False by (auto simp: next_difficulty_weighted_def)
next
  case True
  obtain W E where wt: "window_totals samples = (W, E)" by (cases "window_totals samples")
  obtain p lvl where r: "difficulty_clamp c pb = Some p" "next_difficulty_weighted c pb samples = Some lvl"
      "uint lvl = max (uint (min_level c)) (min (uint (max_level c))
           (uint p + retarget_delta (unat (max (max_adjustment_bits c) 1))
              (saturating_mul W (ucast (max (target_block_time_ms c) 1)))
              (saturating_mul (work_from_bits p) (ucast E))))"
      "min_level c \<le> p" "p \<le> max_level c"
    by (rule next_difficulty_step [OF assms True wt])
  have "\<bar>retarget_delta n num den\<bar> \<le> int n" for n num den
    using doublings_le by (simp add: retarget_delta_def)
  then have "\<bar>uint lvl - uint p\<bar> \<le> int (unat (max (max_adjustment_bits c) 1))"
    using r(4,5) unfolding r(3) word_le_def by (intro clamp_near)
  moreover have "min_level c \<le> lvl \<and> lvl \<le> max_level c"
    using r(3) assms by (simp add: word_le_def)
  ultimately show ?thesis using r by blast
qed

theorem retarget_bounded_witness:
  "\<exists>p lvl. difficulty_clamp default_daa 10 = Some p
     \<and> next_difficulty_weighted default_daa 10 [] = Some lvl \<and> lvl \<le> 128"
  using retarget_bounded [of default_daa 10 "[]"] by (auto simp: default_daa_def)

text \<open>
  Property C7. When the two products fit 128 bits, the retarget is exact: with \<open>N\<close> the window's
  work times the target spacing and \<open>D\<close> the parent's work times the elapsed time, the level moves
  up (down) by the largest number of doublings of \<open>D\<close> (\<open>N\<close>) that fit under \<open>N\<close> (\<open>D\<close>), up to
  the configured maximum, clamped to the bounds.
\<close>

theorem retarget_exact:
  assumes "min_level c \<le> max_level c" and "2 \<le> length samples"
    and "window_totals samples = (W, E)" and "difficulty_clamp c pb = Some p"
    and "N = unat W * unat (max (target_block_time_ms c) 1)" and "D = unat (work_from_bits p) * unat E"
    and "N < 2 ^ 128 - 1" and "D < 2 ^ 128 - 1" and "B = unat (max (max_adjustment_bits c) 1)"
  shows "\<exists>j lvl. j \<le> B \<and> next_difficulty_weighted c pb samples = Some lvl
     \<and> (D \<le> N \<longrightarrow> D * 2 ^ j \<le> N \<and> (j < B \<longrightarrow> N < D * 2 ^ Suc j)
          \<and> uint lvl = max (uint (min_level c)) (min (uint (max_level c)) (uint p + int j)))
     \<and> (N < D \<longrightarrow> N * 2 ^ j \<le> D \<and> (j < B \<longrightarrow> D < N * 2 ^ Suc j)
          \<and> uint lvl = max (uint (min_level c)) (min (uint (max_level c)) (uint p - int j)))"
proof -
  obtain p' lvl where r: "difficulty_clamp c pb = Some p'" "next_difficulty_weighted c pb samples = Some lvl"
      "uint lvl = max (uint (min_level c)) (min (uint (max_level c))
           (uint p' + retarget_delta (unat (max (max_adjustment_bits c) 1))
              (saturating_mul W (ucast (max (target_block_time_ms c) 1)))
              (saturating_mul (work_from_bits p') (ucast E))))"
    by (rule next_difficulty_step [OF assms(1,2,3)])
  have p: "p' = p" using r(1) assms(4) by simp
  define num where "num = saturating_mul W (ucast (max (target_block_time_ms c) 1) :: u128)"
  define den where "den = saturating_mul (work_from_bits p) (ucast E :: u128)"
  have lvl: "uint lvl = max (uint (min_level c)) (min (uint (max_level c)) (uint p + retarget_delta B num den))"
    unfolding num_def den_def assms(9) by (rule r(3) [unfolded p])
  have num: "unat num = N"
    using assms(5,7) by (simp add: num_def unat_saturating_mul unat_ucast_up)
  have den: "unat den = D"
    using assms(6,8) by (simp add: den_def unat_saturating_mul unat_ucast_up)
  show ?thesis
  proof (cases "D \<le> N")
    case True
    define j where "j = doublings B num den"
    have delta: "retarget_delta B num den = int j"
      using True num den by (simp add: retarget_delta_def word_le_nat_alt j_def)
    have "D * 2 ^ j \<le> N \<and> (j < B \<longrightarrow> N < D * 2 ^ Suc j)"
      using doublings_exact [of num B den] assms(7) True unfolding num den j_def [symmetric]
      by (cases "j = 0") simp_all
    moreover have "j \<le> B" unfolding j_def by (rule doublings_le)
    ultimately show ?thesis using r(2) True lvl [unfolded delta] by (meson not_less)
  next
    case False
    define j where "j = doublings B den num"
    have delta: "retarget_delta B num den = - int j"
      using False num den by (simp add: retarget_delta_def word_le_nat_alt j_def)
    have "N * 2 ^ j \<le> D \<and> (j < B \<longrightarrow> D < N * 2 ^ Suc j)"
      using doublings_exact [of den B num] assms(8) False unfolding num den j_def [symmetric]
      by (cases "j = 0") simp_all
    moreover have "j \<le> B" unfolding j_def by (rule doublings_le)
    moreover have "uint lvl = max (uint (min_level c)) (min (uint (max_level c)) (uint p - int j))"
      using lvl [unfolded delta] by simp
    ultimately show ?thesis using r(2) False by blast
  qed
qed

definition fast_window :: "daa_sample list" where
  "fast_window = [\<lparr>timestamp_ms = 0, sample_blue_work = 2048, sample_block_work = 2048\<rparr>,
                  \<lparr>timestamp_ms = 200, sample_blue_work = 4096, sample_block_work = 2048\<rparr>]"

theorem retarget_exact_witness:
  "\<exists>j lvl. j \<le> 1 \<and> next_difficulty_weighted default_daa 10 fast_window = Some lvl
     \<and> 204800 * 2 ^ j \<le> (2048000 :: nat) \<and> (j < 1 \<longrightarrow> 2048000 < (204800 :: nat) * 2 ^ Suc j)
     \<and> uint lvl = max 1 (min 128 (10 + int j))"
proof -
  have wt: "window_totals fast_window = (2048, 200)" by code_simp
  have w: "unat (work_from_bits 10) = 1024" by (simp add: unat_work_from_bits)
  have cl: "difficulty_clamp default_daa 10 = Some 10" by code_simp
  show ?thesis
    using retarget_exact [of default_daa fast_window 2048 200 10 10 2048000 204800 1] wt cl w
    by (simp add: default_daa_def fast_window_def)
qed

lemma sorted_prefix_count:
  assumes "sorted ys" and "i < length ys"
  shows "Suc i \<le> length (filter (\<lambda>t. t \<le> ys ! i) ys)"
    and "length ys - i \<le> length (filter (\<lambda>t. ys ! i \<le> t) ys)"
proof -
  have "filter (\<lambda>t. t \<le> ys ! i) (take (Suc i) ys) = take (Suc i) ys"
    using assms by (auto simp: filter_id_conv set_conv_nth sorted_nth_mono)
  then have "Suc i = length (filter (\<lambda>t. t \<le> ys ! i) (take (Suc i) ys))" using assms by simp
  also have "\<dots> \<le> length (filter (\<lambda>t. t \<le> ys ! i) ys)"
    by (metis append_take_drop_id filter_append le_add1 length_append)
  finally show "Suc i \<le> length (filter (\<lambda>t. t \<le> ys ! i) ys)" .
  have "filter (\<lambda>t. ys ! i \<le> t) (drop i ys) = drop i ys"
    using assms by (auto simp: filter_id_conv set_conv_nth sorted_nth_mono)
  then have "length ys - i = length (filter (\<lambda>t. ys ! i \<le> t) (drop i ys))" using assms by simp
  also have "\<dots> \<le> length (filter (\<lambda>t. ys ! i \<le> t) ys)"
    by (metis append_take_drop_id filter_append le_add2 length_append)
  finally show "length ys - i \<le> length (filter (\<lambda>t. ys ! i \<le> t) ys)" .
qed

lemma length_filter_sort: "length (filter P (sort xs)) = length (filter P xs)"
  by (simp add: filter_sort)

text \<open>
  Median time past is a median of the newest (at most eleven) timestamps: more than
  half of them are at most it and at least half are at least it.
\<close>

theorem median_time_past_is_median:
  assumes "n = min (length ts) 11" and "0 < n"
  shows "median_time_past ts \<in> set (take n ts)
     \<and> n < 2 * length (filter (\<lambda>t. t \<le> median_time_past ts) (take n ts))
     \<and> n \<le> 2 * length (filter (\<lambda>t. median_time_past ts \<le> t) (take n ts))"
proof -
  let ?ys = "sort (take n ts)"
  have len: "length ?ys = n" using assms by simp
  have i: "n div 2 < length ?ys" unfolding len using assms(2) by simp
  have m: "median_time_past ts = ?ys ! (n div 2)"
    using assms(2) unfolding median_time_past_def assms(1) [symmetric] by (simp add: Let_def)
  have "median_time_past ts \<in> set ?ys" unfolding m using i by (rule nth_mem)
  moreover note cnt = sorted_prefix_count [OF sorted_sort i, folded m, unfolded length_filter_sort len]
  moreover have "n < 2 * Suc (n div 2)" by presburger
  moreover have "n \<le> 2 * (n - n div 2)" by presburger
  ultimately show ?thesis unfolding set_sort by (intro conjI) (assumption | linarith)+
qed

theorem median_time_past_is_median_witness:
  "median_time_past [50, 10, 30, 20, 40] \<in> set [50, 10, 30, 20, 40]
   \<and> 5 < 2 * length (filter (\<lambda>t. t \<le> median_time_past [50, 10, 30, 20, 40]) [50, 10, 30, 20, 40])"
  using median_time_past_is_median [of 5 "[50, 10, 30, 20, 40]"] by simp

lemma sum_halvings: "(\<Sum>h<n. a div 2 ^ h) \<le> 2 * (a::nat)"
proof (induction n arbitrary: a)
  case (Suc n)
  have "(\<Sum>h<Suc n. a div 2 ^ h) = a + (\<Sum>h<n. (a div 2) div 2 ^ h)"
    by (simp only: sum.lessThan_Suc_shift div_mult2_eq [symmetric] power_Suc [symmetric]) simp
  also have "\<dots> \<le> a + 2 * (a div 2)" using Suc by simp
  finally show ?case by linarith
qed simp

definition reward_nat :: "emission_schedule \<Rightarrow> nat \<Rightarrow> nat" where
  "reward_nat e s = (case reward_at_blue_score e (of_nat s) of None \<Rightarrow> 0 | Some r \<Rightarrow> unat r)"

lemma reward_nat_eq:
  assumes "0 < halving_interval e" and "s < 2 ^ 64"
  shows "reward_nat e s \<le> unat (initial_reward e) div 2 ^ (s div unat (halving_interval e))"
proof -
  have s: "unat (of_nat s :: u64) = s" using assms(2) by (simp add: unat_of_nat)
  then have "unat ((of_nat s :: u64) div halving_interval e) = s div unat (halving_interval e)"
    by (simp add: unat_div_distrib)
  moreover have "unat (drop_bit k (initial_reward e)) = unat (initial_reward e) div 2 ^ k" for k
    by (simp only: unat_drop_bit_eq) (simp add: drop_bit_eq_div)
  ultimately show ?thesis using assms(1)
    by (auto simp: reward_nat_def reward_at_blue_score_def Let_def)
qed

lemma sum_blocks:
  "(\<Sum>s<n * k. f (s div k)) = (k::nat) * (\<Sum>h<n. (f h :: nat))" if "0 < k"
proof (induction n)
  case (Suc n)
  have "(\<Sum>s = n * k..<n * k + k. f (s div k)) = (\<Sum>s = n * k..<n * k + k. f n)"
  proof (rule sum.cong)
    fix s assume "s \<in> {n * k..<n * k + k}"
    then have "s div k = n" using that by (intro div_nat_eqI) (auto simp: algebra_simps)
    then show "f (s div k) = f n" by simp
  qed simp
  moreover have "(\<Sum>s<Suc n * k. f (s div k)) = (\<Sum>s<n * k. f (s div k)) + (\<Sum>s = n * k..<n * k + k. f (s div k))"
    by (metis add.commute atLeast0LessThan le_add1 mult_Suc sum.atLeastLessThan_concat zero_le)
  ultimately show ?case using Suc by (simp add: algebra_simps)
qed simp

text \<open>
  Emission is bounded: over any number of blue scores the rewards add up to at most
  twice the initial reward times the halving interval; with the default schedule that is
  21 million whole coins.
\<close>

theorem total_emission_bounded:
  assumes "0 < halving_interval e" and "m \<le> 2 ^ 64"
  shows "(\<Sum>s<m. reward_nat e s) \<le> 2 * unat (initial_reward e) * unat (halving_interval e)"
proof -
  let ?k = "unat (halving_interval e)" and ?a = "unat (initial_reward e)"
  have k: "0 < ?k" using assms(1) by (simp add: unat_gt_0 word_neq_0_conv [symmetric])
  have "(\<Sum>s<m. reward_nat e s) \<le> (\<Sum>s<m. ?a div 2 ^ (s div ?k))"
    using assms by (intro sum_mono reward_nat_eq) auto
  also have "\<dots> \<le> (\<Sum>s<m * ?k. ?a div 2 ^ (s div ?k))"
    using k by (intro sum_mono2) auto
  also have "\<dots> = ?k * (\<Sum>h<m. ?a div 2 ^ h)" by (rule sum_blocks [OF k])
  also have "\<dots> \<le> ?k * (2 * ?a)" by (rule mult_le_mono2) (rule sum_halvings)
  finally show ?thesis by (simp add: algebra_simps)
qed

theorem total_emission_bounded_witness:
  "(\<Sum>s<10 ^ 18. reward_nat default_emission s) \<le> 21 * 10 ^ 6 * 10 ^ 8"
  using total_emission_bounded [of default_emission "10 ^ 18"] by (simp add: default_emission_def)

end
