(* ===== verification/Finality.thy ===== *)
theory Finality
  imports Dag
begin

text \<open>
  The pure part of the dual proof-of-stake finality gadget: the quorum predicate
  (\<^verbatim>\<open>consensus/src/quorum.rs\<close>), the checkpoint life cycle (\<^verbatim>\<open>consensus/src/finality.rs\<close>) and the
  equivocation evidence with its penalties (\<^verbatim>\<open>consensus/src/evidence.rs\<close>).

  The identity of a checkpoint, \<open>checkpoint_id\<close>, is a SHA-256 of a Borsh encoding, and so is the note
  hash of an evidence object: both are parameters.
\<close>

section \<open>Quorum and life cycle\<close>

definition has_two_thirds_quorum :: "u64 \<Rightarrow> u64 \<Rightarrow> bool" where
  "has_two_thirds_quorum signed_stake active_stake =
     (if active_stake = 0 then False
      else saturating_mul (ucast active_stake :: u128) 2 \<le> saturating_mul (ucast signed_stake) 3)"

record finality_pow_policy =
  min_pow_depth :: u64

definition default_pow_policy :: finality_pow_policy where
  "default_pow_policy = \<lparr>min_pow_depth = 1\<rparr>"

definition pow_work_met :: "u64 \<Rightarrow> finality_pow_policy \<Rightarrow> bool" where
  "pow_work_met depth_or_work policy \<longleftrightarrow> min_pow_depth policy \<le> depth_or_work"

definition evaluate_checkpoint_state :: "bool \<Rightarrow> u64 \<Rightarrow> u64 \<Rightarrow> u64 \<Rightarrow> u64 \<Rightarrow> checkpoint_state" where
  "evaluate_checkpoint_state pow_met ovl_signed ovl_active drc_signed drc_active =
     (if \<not> pow_met then Proposed
      else case (has_two_thirds_quorum ovl_signed ovl_active, has_two_thirds_quorum drc_signed drc_active) of
             (True, True) \<Rightarrow> Finalized
           | (False, True) \<Rightarrow> AwaitingOvlQuorum
           | (True, False) \<Rightarrow> AwaitingDrcQuorum
           | (False, False) \<Rightarrow> PoWAccepted)"

definition refresh_certificate :: "finality_certificate \<Rightarrow> finality_certificate" where
  "refresh_certificate cert =
     cert\<lparr>fc_state := evaluate_checkpoint_state (fc_pow_work_met cert)
            (fc_ovl_signed_stake cert) (fc_ovl_active_stake cert)
            (fc_drc_signed_stake cert) (fc_drc_active_stake cert)\<rparr>"

definition note_pow_progress :: "finality_certificate \<Rightarrow> u64 \<Rightarrow> finality_pow_policy \<Rightarrow> finality_certificate" where
  "note_pow_progress cert depth_or_work policy =
     refresh_certificate (cert\<lparr>fc_pow_work_met := pow_work_met depth_or_work policy\<rparr>)"

definition note_signed_stake ::
    "finality_certificate \<Rightarrow> checkpoint_body \<Rightarrow> bool \<Rightarrow> u64 \<Rightarrow> u64 \<Rightarrow> consensus_error + finality_certificate" where
  "note_signed_stake cert body is_ovl signed_stake active_stake =
     (if fc_body cert \<noteq> body then Err (InvalidBlock ''attestation body mismatch'')
      else Ok (refresh_certificate
        (if is_ovl
         then cert\<lparr>fc_ovl_signed_stake := signed_stake, fc_ovl_active_stake := active_stake\<rparr>
         else cert\<lparr>fc_drc_signed_stake := signed_stake, fc_drc_active_stake := active_stake\<rparr>)))"

definition assert_reorg_allowed :: "u64 option \<Rightarrow> u64 \<Rightarrow> consensus_error + unit" where
  "assert_reorg_allowed finalized_blue_score target_blue_score =
     (case finalized_blue_score of
        Some finalized \<Rightarrow>
          if target_blue_score \<le> finalized then Err (InvalidBlock ''reorg beyond finality'') else Ok ()
      | None \<Rightarrow> Ok ())"

section \<open>Evidence and penalties\<close>

datatype evidence_kind =
    DoubleCheckpointSignature
  | ConflictingCheckpointSignature
  | InvalidStateAttestation
  | ExtendedDowntime
  | KeyCompromiseReport

record slash_policy =
  equivocation_slash_bps :: u16
  invalid_state_slash_bps :: u16
  downtime_slash_bps :: u16
  jail_epochs_on_invalid_state :: u64

definition default_slash_policy :: slash_policy where
  "default_slash_policy =
     \<lparr>equivocation_slash_bps = 500, invalid_state_slash_bps = 100, downtime_slash_bps = 0,
      jail_epochs_on_invalid_state = 1\<rparr>"

definition slash_amount :: "u64 \<Rightarrow> u16 \<Rightarrow> u64" where
  "slash_amount bonded bps = ucast (((ucast bonded :: u128) * ucast bps) div 10000)"

fun penalty_for :: "slash_policy \<Rightarrow> evidence_kind \<Rightarrow> u64 \<Rightarrow> u64 \<times> bool \<times> u64" where
  "penalty_for pol DoubleCheckpointSignature bonded = (slash_amount bonded (equivocation_slash_bps pol), True, 0)"
| "penalty_for pol ConflictingCheckpointSignature bonded = (slash_amount bonded (equivocation_slash_bps pol), True, 0)"
| "penalty_for pol InvalidStateAttestation bonded =
     (slash_amount bonded (invalid_state_slash_bps pol), False, jail_epochs_on_invalid_state pol)"
| "penalty_for pol ExtendedDowntime bonded = (slash_amount bonded (downtime_slash_bps pol), False, 1)"
| "penalty_for pol KeyCompromiseReport bonded = (0, False, 1)"

record validator_evidence =
  ve_kind :: evidence_kind
  ve_set :: native_asset_id
  ve_validator :: address
  ve_epoch :: u64
  ve_attestation_a :: "checkpoint_attestation option"
  ve_attestation_b :: "checkpoint_attestation option"
  ve_note_hash :: hash

definition detect_double_checkpoint ::
    "(checkpoint_body \<Rightarrow> hash) \<Rightarrow> (hash \<times> hash \<Rightarrow> hash)
     \<Rightarrow> checkpoint_attestation \<Rightarrow> checkpoint_attestation \<Rightarrow> validator_evidence option" where
  "detect_double_checkpoint checkpoint_id hash_pair a b =
     (if ca_validator a \<noteq> ca_validator b \<or> ca_set a \<noteq> ca_set b then None
      else if cb_validator_epoch (ca_body a) \<noteq> cb_validator_epoch (ca_body b) then None
      else if checkpoint_id (ca_body a) = checkpoint_id (ca_body b) then None
      else Some \<lparr>ve_kind = DoubleCheckpointSignature, ve_set = ca_set a, ve_validator = ca_validator a,
                 ve_epoch = cb_validator_epoch (ca_body a),
                 ve_attestation_a = Some a, ve_attestation_b = Some b,
                 ve_note_hash = hash_pair (checkpoint_id (ca_body a), checkpoint_id (ca_body b))\<rparr>)"

section \<open>Lemmas\<close>

lemma quorum_iff:
  "has_two_thirds_quorum s a \<longleftrightarrow> 0 < unat a \<and> 2 * unat a \<le> 3 * unat s"
proof -
  have "unat (saturating_mul (ucast a :: u128) 2) = 2 * unat a"
    using unat_lt_u64 [of a] by (simp add: unat_saturating_mul unat_ucast_up min_def)
  moreover have "unat (saturating_mul (ucast s :: u128) 3) = 3 * unat s"
    using unat_lt_u64 [of s] by (simp add: unat_saturating_mul unat_ucast_up min_def)
  ultimately show ?thesis
    by (simp add: has_two_thirds_quorum_def word_le_nat_alt unat_gt_0)
qed

lemma unat_slash_amount:
  assumes "bps \<le> 10000"
  shows "unat (slash_amount bonded bps) = unat bonded * unat bps div 10000"
proof -
  have b: "unat bps \<le> 10000" using assms by (simp add: word_le_nat_alt)
  have le: "unat bonded * unat bps \<le> unat bonded * 10000" using b by (rule mult_le_mono2)
  also have "\<dots> < 2 ^ 64 * 10000" using unat_lt_u64 [of bonded] by simp
  finally have fits: "unat bonded * unat bps < 2 ^ 128" by simp
  have "unat ((ucast bonded :: u128) * ucast bps) = unat bonded * unat bps"
    using fits by (simp add: unat_word_ariths unat_ucast_up)
  then have d: "unat (((ucast bonded :: u128) * ucast bps) div 10000) = unat bonded * unat bps div 10000"
    by (simp add: unat_div_distrib)
  have "unat bonded * unat bps div 10000 \<le> unat bonded" using le by (simp add: div_le_mono [of _ "unat bonded * 10000" 10000, simplified])
  then have "unat bonded * unat bps div 10000 < 2 ^ 64" using unat_lt_u64 [of bonded] by simp
  then show ?thesis by (simp add: slash_amount_def unsigned_ucast_eq d take_bit_nat_eq_self)
qed

lemma slash_amount_le: "bps \<le> 10000 \<Longrightarrow> slash_amount bonded bps \<le> bonded"
proof -
  assume "bps \<le> 10000"
  then have "unat bonded * unat bps \<le> unat bonded * 10000" by (simp add: word_le_nat_alt)
  then have "unat bonded * unat bps div 10000 \<le> unat bonded * 10000 div 10000" by (rule div_le_mono)
  then show ?thesis using \<open>bps \<le> 10000\<close> by (simp add: word_le_nat_alt unat_slash_amount)
qed

text \<open>
  Voters with weights: two sets that each hold two thirds of the total share at least one third.
\<close>

locale weighted_voters =
  fixes voters :: "'v set" and weight :: "'v \<Rightarrow> nat"
  assumes finite_voters: "finite voters"
begin

lemma quorum_intersection:
  assumes "A \<subseteq> voters" and "B \<subseteq> voters"
    and "2 * sum weight voters \<le> 3 * sum weight A" and "2 * sum weight voters \<le> 3 * sum weight B"
  shows "sum weight voters \<le> 3 * sum weight (A \<inter> B)"
proof -
  have fin: "finite A" "finite B" using assms finite_voters finite_subset by blast+
  have "sum weight (A \<union> B) + sum weight (A \<inter> B) = sum weight A + sum weight B"
    using fin by (rule sum.union_inter)
  moreover have "sum weight (A \<union> B) \<le> sum weight voters"
    using assms finite_voters by (intro sum_mono2) auto
  ultimately show ?thesis using assms by linarith
qed

end

section \<open>Properties of the gadget\<close>

text \<open>
  Property C8. A checkpoint state is \<open>Finalized\<close> exactly when the proof-of-work threshold is met
  and both validator sets are non-empty with at least two thirds of their stake signed, computed
  without overflow for all 64-bit totals.
\<close>

theorem finalized_iff_pow_and_both_quorums:
  "is_finalized (evaluate_checkpoint_state pow os oa ds da) \<longleftrightarrow>
     pow \<and> 0 < unat oa \<and> 2 * unat oa \<le> 3 * unat os \<and> 0 < unat da \<and> 2 * unat da \<le> 3 * unat ds"
  by (auto simp: is_finalized_def evaluate_checkpoint_state_def quorum_iff split: bool.splits)

end
