(* ===== verification/Ledger_Types.thy ===== *)
theory Ledger_Types
  imports Finality
begin

text \<open>
  The vocabulary of the state machine (\<^verbatim>\<open>core/crates/state-machine\<close> with the operation types of
  \<^verbatim>\<open>core/crates/types\<close>): errors, the cryptographic environment, authorisation envelopes, the records
  kept in the ledger and their validators.

  \<^item> Errors are values of \<open>state_error\<close>. Numbers interpolated into messages are left out, and the
    error enums of the type crate appear through their message text. A Rust panic (\<open>expect\<close> on a
    missing value, a length mismatch in \<open>copy_from_slice\<close>) is the additional value \<open>Panic\<close>.
  \<^item> Borsh, SHA-256 and secp256k1 are third-party code: a \<open>crypto_env\<close> carries the byte encoding of
    a tuple, its hash, signature verification and address derivation as functions. A tuple handed
    to Borsh is a list of \<open>borsh_val\<close>s, so that what a signature covers stays visible.
\<close>

section \<open>Errors and environment\<close>

datatype state_error =
    Storage string
  | UnknownZone
  | MissingUtxo string
  | DoubleSpend string
  | InvalidTx string
  | Coinbase string
  | ImmatureCoinbase string
  | SupplyCapExceeded
  | BurnedSupplyExceedsIssued
  | BlockLimit string
  | DuplicateOutpoint string
  | Panic string

type_synonym 'a res = "state_error + 'a"

definition map_err :: "('e \<Rightarrow> 'f) \<Rightarrow> 'e + 'a \<Rightarrow> 'f + 'a" where
  "map_err f r = (case r of Inl e \<Rightarrow> Inl (f e) | Inr x \<Rightarrow> Inr x)"

lemma map_err_simps [simp, result_simps]:
  "map_err f (Inl e) = Inl (f e)"
  "map_err f (Inr x) = Inr x"
  by (simp_all add: map_err_def)

lemma map_err_Ok [simp]: "map_err f r = Inr x \<longleftrightarrow> r = Inr x"
  by (cases r) simp_all

datatype borsh_val =
    BStr string
  | BBytes bytes
  | BHash hash
  | BAddr address
  | BU8 u8
  | BU16 u16
  | BU32 u32
  | BU64 u64
  | BTag string
  | BSeq drc_account_sequence_selector
  | BList "borsh_val list"

record crypto_env =
  borsh_to_vec :: "borsh_val list \<Rightarrow> bytes"
  hash_borsh :: "borsh_val list \<Rightarrow> hash"
  secp_verify :: "bytes \<Rightarrow> bytes \<Rightarrow> bytes \<Rightarrow> bool"
  address_from_pubkey :: "bytes \<Rightarrow> address"

record tx_auth_context =
  chain_id :: string
  genesis :: hash

section \<open>Multisign envelopes and signer lists\<close>

record drc_multisign_entry =
  me_signer :: address
  me_public_key :: bytes
  me_signature :: bytes

record drc_multisign_auth =
  ma_version :: u32
  ma_signing_for :: address
  ma_signatures :: "drc_multisign_entry list"

fun validate_participants :: "address option \<Rightarrow> drc_multisign_entry list \<Rightarrow> string + unit" where
  "validate_participants prev [] = Ok ()"
| "validate_participants prev (e # es) =
     (if me_signer e = 0 then Err ''multisign signer must be non-zero''
      else if length (me_public_key e) \<noteq> 33 \<or> length (me_signature e) \<noteq> 64
      then Err ''multisign participant keys must be 33-byte pubkey and 64-byte signature''
      else if (case prev of Some p \<Rightarrow> me_signer e \<le> p | None \<Rightarrow> False)
      then Err ''multisign signatures must be strictly sorted by signer without duplicates''
      else validate_participants (Some (me_signer e)) es)"

definition validate_multisign_structure :: "drc_multisign_auth \<Rightarrow> string + unit" where
  "validate_multisign_structure a =
     (if ma_version a \<noteq> 1 then Err ''unsupported DRC multisign version''
      else if ma_signing_for a = 0 then Err ''multisign signing_for must be non-zero''
      else if ma_signatures a = [] then Err ''multisign bundle must include at least one signature''
      else if 32 < length (ma_signatures a) then Err ''too many multisign signatures''
      else validate_participants None (ma_signatures a))"

definition participant_signing_bytes_bound ::
    "crypto_env \<Rightarrow> address \<Rightarrow> bytes \<Rightarrow> string \<Rightarrow> hash \<Rightarrow> bytes" where
  "participant_signing_bytes_bound env signing_for op_bytes chain gen =
     borsh_to_vec env [BStr ''agora-trident-drc-multisign-participant-v1'', BStr chain, BHash gen,
                       BU32 1, BAddr signing_for, BBytes op_bytes]"

definition validate_exclusive_authorization ::
    "bytes \<Rightarrow> bytes \<Rightarrow> drc_multisign_auth option \<Rightarrow> string + unit" where
  "validate_exclusive_authorization public_key signature multisign =
     (let single = (public_key \<noteq> [] \<or> signature \<noteq> []); multi = (multisign \<noteq> None)
      in if single \<and> multi
         then Err ''operation cannot combine single-signature and multisign authorization''
         else if \<not> single \<and> \<not> multi then Err ''operation missing authorization''
         else Ok ())"

record drc_signer_list_entry =
  sl_signer :: address
  sl_weight :: u16

record drc_account_signer_list =
  asl_version :: u32
  asl_owner :: address
  asl_quorum :: u32
  asl_entries :: "drc_signer_list_entry list"

fun validate_entries ::
    "address \<Rightarrow> address option \<Rightarrow> u64 \<Rightarrow> drc_signer_list_entry list \<Rightarrow> string + u64" where
  "validate_entries owner prev tot [] = Ok tot"
| "validate_entries owner prev tot (e # es) =
     (if sl_signer e = 0 then Err ''signer-list signer must be non-zero''
      else if sl_signer e = owner then Err ''owner cannot appear on its own signer list''
      else if sl_weight e = 0 then Err ''signer weight must be non-zero''
      else if (case prev of Some p \<Rightarrow> sl_signer e \<le> p | None \<Rightarrow> False)
      then Err ''signer-list entries must be strictly sorted by signer without duplicates''
      else bind_result (ok_or (checked_add tot (ucast (sl_weight e))) ''signer-list weight sum overflow'')
             (\<lambda>tot'. validate_entries owner (Some (sl_signer e)) tot' es))"

definition validate_signer_list_payload ::
    "address \<Rightarrow> drc_signer_list_entry list \<Rightarrow> u32 \<Rightarrow> string + unit" where
  "validate_signer_list_payload owner entries quorum =
     (if entries = [] then Err ''signer list must not be empty''
      else if 32 < length entries then Err ''too many signer-list entries''
      else if quorum = 0 then Err ''signer-list quorum must be non-zero''
      else bind_result (validate_entries owner None 0 entries) (\<lambda>tot.
             if tot < ucast quorum then Err ''signer-list quorum exceeds total weight'' else Ok ()))"

definition canonical_sorted_entries :: "drc_signer_list_entry list \<Rightarrow> drc_signer_list_entry list" where
  "canonical_sorted_entries entries = sort_key sl_signer entries"

definition validate_account_signer_list :: "drc_account_signer_list \<Rightarrow> string + unit" where
  "validate_account_signer_list l =
     (if asl_version l \<noteq> 1 then Err ''unsupported DRC signer-list state version''
      else bind_result (validate_signer_list_payload (asl_owner l) (asl_entries l) (asl_quorum l)) (\<lambda>_.
             if canonical_sorted_entries (asl_entries l) \<noteq> asl_entries l
             then Err ''persisted signer-list entries are not in canonical order'' else Ok ()))"

section \<open>Regular keys, account policies and deposit preauthorisations\<close>

record drc_account_regular_key =
  ark_version :: u32
  ark_owner :: address
  ark_regular_key :: address

definition new_regular_key :: "address \<Rightarrow> address \<Rightarrow> drc_account_regular_key" where
  "new_regular_key owner rk = \<lparr>ark_version = 1, ark_owner = owner, ark_regular_key = rk\<rparr>"

definition validate_regular_key :: "drc_account_regular_key \<Rightarrow> string + unit" where
  "validate_regular_key r =
     (if ark_version r \<noteq> 1 then Err ''unsupported DRC regular-key state version''
      else if ark_owner r = 0 \<or> ark_regular_key r = 0 then Err ''DRC regular key must be non-zero''
      else if ark_owner r = ark_regular_key r
      then Err ''master key cannot be installed as its own regular key''
      else Ok ())"

record drc_account_policy =
  ap_version :: u32
  ap_require_destination_tag :: bool
  ap_deposit_auth_required :: bool
  ap_master_key_disabled :: bool

definition default_account_policy :: drc_account_policy where
  "default_account_policy =
     \<lparr>ap_version = 1, ap_require_destination_tag = False, ap_deposit_auth_required = False,
      ap_master_key_disabled = False\<rparr>"

definition validate_account_policy :: "drc_account_policy \<Rightarrow> string + unit" where
  "validate_account_policy p =
     (if ap_version p = 1 \<and> (ap_deposit_auth_required p \<or> ap_master_key_disabled p)
      then Err ''DRC account-policy v1 state cannot carry extended fields''
      else if ap_version p = 2 \<and> ap_master_key_disabled p
      then Err ''DRC account-policy v2 state cannot carry master-key disable''
      else if ap_version p = 1 \<or> ap_version p = 2 \<or> ap_version p = 3 then Ok ()
      else Err ''unsupported DRC account-policy state version'')"

definition canonical_state_version :: "drc_account_policy \<Rightarrow> u32" where
  "canonical_state_version p =
     (if ap_master_key_disabled p then 3 else if ap_deposit_auth_required p then 2 else 1)"

record drc_deposit_preauth =
  dp_version :: u32
  dp_owner :: address
  dp_authorized_source :: address

definition new_deposit_preauth :: "address \<Rightarrow> address \<Rightarrow> drc_deposit_preauth" where
  "new_deposit_preauth owner src = \<lparr>dp_version = 1, dp_owner = owner, dp_authorized_source = src\<rparr>"

definition validate_deposit_preauth :: "drc_deposit_preauth \<Rightarrow> string + unit" where
  "validate_deposit_preauth r =
     (if dp_version r \<noteq> 1 then Err ''unsupported DRC deposit-preauthorization state version''
      else if dp_owner r = 0 then Err ''DRC deposit-preauthorization owner must be non-zero''
      else if dp_authorized_source r = 0 then Err ''DRC deposit-preauthorization source must be non-zero''
      else if dp_owner r = dp_authorized_source r then Err ''DRC accounts cannot preauthorize themselves''
      else Ok ())"

section \<open>Accounts and tickets\<close>

record account_state =
  balance :: u64
  nonce :: u64

definition default_account :: account_state where
  "default_account = \<lparr>balance = 0, nonce = 0\<rparr>"

definition max_outstanding_tickets :: nat where
  "max_outstanding_tickets = 32"

record drc_account_tickets =
  dt_version :: u32
  dt_owner :: address
  dt_sequences :: "u64 list"

fun strictly_increasing :: "'a::linorder list \<Rightarrow> bool" where
  "strictly_increasing (x # y # zs) \<longleftrightarrow> \<not> y \<le> x \<and> strictly_increasing (y # zs)"
| "strictly_increasing _ \<longleftrightarrow> True"

definition validate_account_tickets :: "drc_account_tickets \<Rightarrow> string + unit" where
  "validate_account_tickets t =
     (if dt_version t \<noteq> 1 then Err ''unsupported DRC ticket state version''
      else if dt_owner t = 0 then Err ''zero DRC ticket owner''
      else if max_outstanding_tickets < length (dt_sequences t)
      then Err ''DRC outstanding ticket cap exceeded''
      else if \<not> strictly_increasing (dt_sequences t) then Err ''unsorted DRC ticket sequences in state''
      else Ok ())"

section \<open>Validators\<close>

datatype validator_status = Bonded | Unbonding | Jailed | Tombstoned

record validator_record =
  vr_operator :: address
  vr_consensus_pubkey :: bytes
  vr_withdrawal :: address
  vr_self_bond :: u64
  vr_delegated :: u64
  vr_commission_bps :: u16
  vr_status :: validator_status
  vr_jailed_until_epoch :: u64
  vr_metadata_hash :: hash

definition voting_power :: "validator_record \<Rightarrow> u64" where
  "voting_power v = (if vr_status v = Bonded then saturating_add (vr_self_bond v) (vr_delegated v) else 0)"

record delegation_record =
  dr_delegator :: address
  dr_validator :: address
  dr_amount :: u64

record unbonding_entry =
  ue_owner :: address
  ue_amount :: u64
  ue_release_epoch :: u64

record validator_set_snapshot =
  vs_epoch :: u64
  vs_asset :: native_asset_id
  vs_validators :: "(address \<times> u64) list"
  vs_total_active_stake :: u64

definition power_of :: "validator_set_snapshot \<Rightarrow> address \<Rightarrow> u64" where
  "power_of snap op = (case map_of (vs_validators snap) op of Some p \<Rightarrow> p | None \<Rightarrow> 0)"

section \<open>Escrows\<close>

datatype drc_escrow_outcome = Finished | Cancelled

record drc_escrow_live =
  el_version :: u32
  el_escrow_id :: hash
  el_owner :: address
  el_recipient :: address
  el_amount :: amount
  el_destination_tag :: "u32 option"
  el_source_tag :: "u32 option"
  el_invoice_id :: hash
  el_finish_after :: "u64 option"
  el_cancel_after :: "u64 option"
  el_create_blue_score :: u64

record drc_escrow_receipt =
  er_version :: u32
  er_escrow_id :: hash
  er_outcome :: drc_escrow_outcome
  er_owner :: address
  er_recipient :: address
  er_amount :: amount
  er_destination_tag :: "u32 option"
  er_source_tag :: "u32 option"
  er_invoice_id :: hash
  er_settlement_blue_score :: u64
  er_settlement_tx_id :: hash

record drc_escrow_owner_index =
  oi_version :: u32
  oi_owner :: address
  oi_live_ids :: "hash list"

definition max_blue_score_bound :: u64 where
  "max_blue_score_bound = - 2"

definition validate_escrow_time_bounds :: "u64 option \<Rightarrow> u64 option \<Rightarrow> string + unit" where
  "validate_escrow_time_bounds fin can =
     (if fin = None \<and> can = None then Err ''escrow requires at least one blue-score time bound''
      else if (case fin of Some b \<Rightarrow> max_blue_score_bound < b | None \<Rightarrow> False)
            \<or> (case can of Some b \<Rightarrow> max_blue_score_bound < b | None \<Rightarrow> False)
      then Err ''escrow blue-score bound overflow''
      else (case (fin, can) of
              (Some f, Some c) \<Rightarrow>
                if c \<le> f then Err ''finish_after must be strictly less than cancel_after'' else Ok ()
            | _ \<Rightarrow> Ok ()))"

definition validate_escrow_live :: "drc_escrow_live \<Rightarrow> string + unit" where
  "validate_escrow_live l =
     (if el_version l \<noteq> 1 then Err ''unsupported DRC escrow state version''
      else if el_escrow_id l = 0 then Err ''zero address or escrow id''
      else validate_escrow_time_bounds (el_finish_after l) (el_cancel_after l))"

definition validate_escrow_receipt :: "drc_escrow_receipt \<Rightarrow> string + unit" where
  "validate_escrow_receipt r =
     (if er_version r \<noteq> 1 then Err ''unsupported DRC escrow receipt version'' else Ok ())"

section \<open>Finality records\<close>

record attestation_index =
  ai_ovl_signers :: "address list"
  ai_drc_signers :: "address list"

definition default_attestation_index :: attestation_index where
  "default_attestation_index = \<lparr>ai_ovl_signers = [], ai_drc_signers = []\<rparr>"

end
