(* ===== verification/Ledger_Store.thy ===== *)
theory Ledger_Store
  imports Ledger_Types
begin

text \<open>
  The \<^verbatim>\<open>Meta\<close> column of the state store as the ledger modules of \<^verbatim>\<open>core/crates/state-machine\<close> use it.

  The code keys the column by byte strings built from a literal prefix and fixed-width fields, and
  stores Borsh encodings. Here a key is a value of \<open>meta_key\<close> with one constructor per key-building
  function, and a stored value is a \<open>meta_val\<close> with one constructor per encoded type; bytes that do
  not decode as the type a reader expects are values of another constructor (\<open>VRaw\<close> for bytes that
  decode as nothing). The theory \<open>Meta_Keys\<close> gives the byte string of every key and shows that distinct
  keys never share one, so that the typed store and the byte store have the same collisions.

  A store is an association list with distinct keys, a \<open>WriteBatch\<close> a list of puts and deletes
  applied in order.
\<close>

section \<open>Keys and values\<close>

datatype meta_key =
    KAccount native_asset_id address
  | KTickets address
  | KRegularKey address
  | KSignerList address
  | KPolicy address
  | KPreauth address address
  | KIssued native_asset_id
  | KIssuedLegacy
  | KBurned native_asset_id
  | KMaxSupply native_asset_id
  | KMaxSupplyLegacy
  | KSchema
  | KLedgerIndexMarker
  | KValidator native_asset_id address
  | KDelegation native_asset_id address address
  | KUnbonding native_asset_id address
  | KEpoch native_asset_id
  | KSnapshot native_asset_id u64
  | KRewardPool native_asset_id
  | KReserve native_asset_id
  | KEscrowLive hash
  | KEscrowOwner address
  | KEscrowSettled hash
  | KEscrowReceipt hash
  | KCertificate hash
  | KAttIndex hash
  | KLastAtt native_asset_id address u64
  | KFinalizedTip

datatype meta_val =
    VAccount account_state
  | VTickets drc_account_tickets
  | VRegularKey drc_account_regular_key
  | VSignerList drc_account_signer_list
  | VPolicy drc_account_policy
  | VPreauth drc_deposit_preauth
  | VU64 u64
  | VU32 u32
  | VMarker
  | VValidator validator_record
  | VDelegation delegation_record
  | VUnbonding unbonding_entry
  | VSnapshot validator_set_snapshot
  | VEscrowLive drc_escrow_live
  | VEscrowOwner drc_escrow_owner_index
  | VHash hash
  | VEscrowReceipt drc_escrow_receipt
  | VCertificate finality_certificate
  | VAttIndex attestation_index
  | VAttestation checkpoint_attestation
  | VRaw bytes

section \<open>Stores and batches\<close>

type_synonym state_store = "(meta_key \<times> meta_val) list"

datatype write_op = Put meta_key meta_val | Delete meta_key

type_synonym write_batch = "write_op list"

definition get_cf :: "state_store \<Rightarrow> meta_key \<Rightarrow> meta_val option" where
  "get_cf s k = map_of s k"

fun apply_op :: "write_op \<Rightarrow> state_store \<Rightarrow> state_store" where
  "apply_op (Put k v) s = AList.update k v s"
| "apply_op (Delete k) s = AList.delete k s"

definition apply_batch :: "write_batch \<Rightarrow> state_store \<Rightarrow> state_store" where
  "apply_batch b s = fold apply_op b s"

definition wf_store :: "state_store \<Rightarrow> bool" where
  "wf_store s \<longleftrightarrow> distinct (map fst s)"

fun op_key :: "write_op \<Rightarrow> meta_key" where
  "op_key (Put k v) = k"
| "op_key (Delete k) = k"

lemma apply_batch_simps [simp]:
  "apply_batch [] s = s"
  "apply_batch (w # b) s = apply_batch b (apply_op w s)"
  "apply_batch (b @ b') s = apply_batch b' (apply_batch b s)"
  by (simp_all add: apply_batch_def)

lemma get_cf_apply_op [simp]:
  "get_cf (apply_op (Put k v) s) k' = (if k' = k then Some v else get_cf s k')"
  "get_cf (apply_op (Delete k) s) k' = (if k' = k then None else get_cf s k')"
  "get_cf (AList.update k v s) k' = (if k' = k then Some v else get_cf s k')"
  "get_cf (AList.delete k s) k' = (if k' = k then None else get_cf s k')"
  by (auto simp: get_cf_def update_conv' delete_conv')

lemma get_cf_frame:
  "k \<notin> op_key ` set b \<Longrightarrow> get_cf (apply_batch b s) k = get_cf s k"
proof (induction b arbitrary: s)
  case (Cons w b)
  then show ?case by (cases w) auto
qed simp

lemma wf_store_empty [simp]: "wf_store []"
  by (simp add: wf_store_def)

lemma wf_store_apply_batch [simp]: "wf_store s \<Longrightarrow> wf_store (apply_batch b s)"
proof (induction b arbitrary: s)
  case (Cons w b)
  have "wf_store (apply_op w s)"
    using Cons.prems by (cases w) (auto simp: wf_store_def distinct_update distinct_delete)
  then show ?case using Cons.IH by simp
qed simp

end
