(* ===== verification/Drc_Keys.thy ===== *)
theory Drc_Keys
  imports Ledger_Store
begin

text \<open>
  Who may act for a DRC account (\<^verbatim>\<open>state-machine/src/drc_account_auth.rs\<close>,
  \<^verbatim>\<open>drc_master_key_recovery.rs\<close>, the loaders of \<^verbatim>\<open>drc_policy.rs\<close>, \<^verbatim>\<open>drc_regular_key.rs\<close> and
  \<^verbatim>\<open>drc_signer_list.rs\<close>, and the checks of \<^verbatim>\<open>crypto/src/drc_operation.rs\<close> and \<^verbatim>\<open>drc_multisign.rs\<close>).

  An operation envelope carries either a single signature or a multisign bundle. \<open>authorised\<close> is
  the specification of what the checks promise: the master key unless disabled, the installed
  regular key, or distinct listed signers whose weights reach the quorum, each over the bytes of
  this very operation. \<open>verify_multisign_or_single_sound\<close> shows that the code accepts nothing else.
\<close>

section \<open>Reading stored records\<close>

fun as_account :: "meta_val \<Rightarrow> account_state option" where
  "as_account (VAccount x) = Some x"
| "as_account _ = None"

fun as_tickets :: "meta_val \<Rightarrow> drc_account_tickets option" where
  "as_tickets (VTickets x) = Some x"
| "as_tickets _ = None"

fun as_regular_key :: "meta_val \<Rightarrow> drc_account_regular_key option" where
  "as_regular_key (VRegularKey x) = Some x"
| "as_regular_key _ = None"

fun as_signer_list :: "meta_val \<Rightarrow> drc_account_signer_list option" where
  "as_signer_list (VSignerList x) = Some x"
| "as_signer_list _ = None"

fun as_policy :: "meta_val \<Rightarrow> drc_account_policy option" where
  "as_policy (VPolicy x) = Some x"
| "as_policy _ = None"

fun as_preauth :: "meta_val \<Rightarrow> drc_deposit_preauth option" where
  "as_preauth (VPreauth x) = Some x"
| "as_preauth _ = None"

fun as_u64 :: "meta_val \<Rightarrow> u64 option" where
  "as_u64 (VU64 x) = Some x"
| "as_u64 _ = None"

fun as_u32 :: "meta_val \<Rightarrow> u32 option" where
  "as_u32 (VU32 x) = Some x"
| "as_u32 _ = None"

definition decode_as :: "(meta_val \<Rightarrow> 'a option) \<Rightarrow> meta_val \<Rightarrow> 'a res" where
  "decode_as f v = ok_or (f v) (Storage ''undecodable record'')"

lemma decode_as_Ok [simp]: "decode_as f v = Inr x \<longleftrightarrow> f v = Some x"
  by (simp add: decode_as_def)

lemma as_simps [simp]:
  "as_account v = Some a \<longleftrightarrow> v = VAccount a"
  "as_tickets v = Some t \<longleftrightarrow> v = VTickets t"
  "as_regular_key v = Some r \<longleftrightarrow> v = VRegularKey r"
  "as_signer_list v = Some l \<longleftrightarrow> v = VSignerList l"
  "as_policy v = Some p \<longleftrightarrow> v = VPolicy p"
  "as_preauth v = Some d \<longleftrightarrow> v = VPreauth d"
  "as_u64 v = Some n \<longleftrightarrow> v = VU64 n"
  "as_u32 v = Some m \<longleftrightarrow> v = VU32 m"
  by (cases v; simp)+

section \<open>Key records\<close>

definition load_drc_account_policy :: "state_store \<Rightarrow> address \<Rightarrow> drc_account_policy res" where
  "load_drc_account_policy s account =
     (case get_cf s (KPolicy account) of
        None \<Rightarrow> Ok default_account_policy
      | Some v \<Rightarrow> bind_result (decode_as as_policy v) (\<lambda>policy.
                    bind_result (map_err Storage (validate_account_policy policy)) (\<lambda>_. Ok policy)))"

definition load_drc_account_regular_key :: "state_store \<Rightarrow> address \<Rightarrow> address option res" where
  "load_drc_account_regular_key s owner =
     (case get_cf s (KRegularKey owner) of
        None \<Rightarrow> Ok None
      | Some v \<Rightarrow> bind_result (decode_as as_regular_key v) (\<lambda>record.
                    bind_result (map_err Storage (validate_regular_key record)) (\<lambda>_.
                      if ark_owner record \<noteq> owner
                      then Err (Storage ''DRC regular-key record does not match index key'')
                      else Ok (Some (ark_regular_key record)))))"

definition load_drc_account_signer_list ::
    "state_store \<Rightarrow> address \<Rightarrow> drc_account_signer_list option res" where
  "load_drc_account_signer_list s owner =
     (case get_cf s (KSignerList owner) of
        None \<Rightarrow> Ok None
      | Some v \<Rightarrow> bind_result (decode_as as_signer_list v) (\<lambda>record.
                    bind_result (map_err Storage (validate_account_signer_list record)) (\<lambda>_.
                      if asl_owner record \<noteq> owner
                      then Err (Storage ''DRC signer-list record does not match index key'')
                      else Ok (Some record))))"

definition drc_master_key_disabled :: "state_store \<Rightarrow> address \<Rightarrow> bool res" where
  "drc_master_key_disabled s owner =
     bind_result (load_drc_account_policy s owner) (\<lambda>p. Ok (ap_master_key_disabled p))"

definition has_usable_regular_key :: "state_store \<Rightarrow> address \<Rightarrow> bool res" where
  "has_usable_regular_key s owner =
     bind_result (load_drc_account_regular_key s owner) (\<lambda>r. Ok (r \<noteq> None))"

definition has_usable_signer_list :: "state_store \<Rightarrow> address \<Rightarrow> bool res" where
  "has_usable_signer_list s owner =
     bind_result (load_drc_account_signer_list s owner) (\<lambda>l. Ok (l \<noteq> None))"

definition has_alternate_recovery :: "state_store \<Rightarrow> address \<Rightarrow> bool res" where
  "has_alternate_recovery s owner =
     bind_result (has_usable_regular_key s owner) (\<lambda>r.
       if r then Ok True else has_usable_signer_list s owner)"

definition ensure_alternate_recovery ::
    "address option \<Rightarrow> drc_account_signer_list option \<Rightarrow> unit res" where
  "ensure_alternate_recovery regular_key signer_list =
     (if regular_key \<noteq> None \<or> signer_list \<noteq> None then Ok ()
      else Err (InvalidTx ''DRC master-key disable requires a live regular key or signer list''))"

definition assert_drc_recovery_invariant :: "state_store \<Rightarrow> address \<Rightarrow> unit res" where
  "assert_drc_recovery_invariant s owner =
     bind_result (drc_master_key_disabled s owner) (\<lambda>d.
       if \<not> d then Ok ()
       else bind_result (has_alternate_recovery s owner) (\<lambda>r.
         if \<not> r
         then Err (InvalidTx ''DRC master-key disable invariant violated: no alternate recovery'')
         else Ok ()))"

section \<open>Signatures\<close>

definition invalid_transaction_auth :: string where
  "invalid_transaction_auth = ''transaction auth material missing or malformed''"

definition verify_bound_secp256k1 :: "crypto_env \<Rightarrow> bytes \<Rightarrow> bytes \<Rightarrow> bytes \<Rightarrow> string + address" where
  "verify_bound_secp256k1 env public_key signature signing_bytes =
     (if length public_key \<noteq> 33 \<or> length signature \<noteq> 64 then Err invalid_transaction_auth
      else if \<not> secp_verify env public_key signing_bytes signature then Err ''secp256k1 error''
      else Ok (address_from_pubkey env public_key))"

fun multisign_weight_loop ::
    "crypto_env \<Rightarrow> bytes \<Rightarrow> drc_signer_list_entry list \<Rightarrow> u32 \<Rightarrow> u64
     \<Rightarrow> drc_multisign_entry list \<Rightarrow> string + unit" where
  "multisign_weight_loop env participant_bytes entries quorum weight [] = Err invalid_transaction_auth"
| "multisign_weight_loop env participant_bytes entries quorum weight (e # es) =
     (case List.find (\<lambda>x. sl_signer x = me_signer e) entries of
        None \<Rightarrow> Err invalid_transaction_auth
      | Some listed \<Rightarrow>
          bind_result (verify_bound_secp256k1 env (me_public_key e) (me_signature e) participant_bytes)
            (\<lambda>derived.
              if derived \<noteq> me_signer e then Err invalid_transaction_auth
              else bind_result (ok_or (checked_add weight (ucast (sl_weight listed))) invalid_transaction_auth)
                (\<lambda>weight'. if ucast quorum \<le> weight' then Ok ()
                           else multisign_weight_loop env participant_bytes entries quorum weight' es)))"

definition verify_drc_multisign_against_list ::
    "crypto_env \<Rightarrow> drc_multisign_auth \<Rightarrow> address \<Rightarrow> bytes \<Rightarrow> string \<Rightarrow> hash
     \<Rightarrow> drc_signer_list_entry list \<Rightarrow> u32 \<Rightarrow> string + unit" where
  "verify_drc_multisign_against_list env a signing_for op_bytes chain gen entries quorum =
     bind_result (map_err (\<lambda>_. invalid_transaction_auth) (validate_multisign_structure a)) (\<lambda>_.
       if ma_signing_for a \<noteq> signing_for then Err invalid_transaction_auth
       else multisign_weight_loop env (participant_signing_bytes_bound env signing_for op_bytes chain gen)
              entries quorum 0 (ma_signatures a))"

definition validate_drc_operation_authorization_fields ::
    "bytes \<Rightarrow> bytes \<Rightarrow> drc_multisign_auth option \<Rightarrow> string + unit" where
  "validate_drc_operation_authorization_fields public_key signature multisign =
     map_err (\<lambda>_. invalid_transaction_auth)
       (validate_exclusive_authorization public_key signature multisign)"

section \<open>Authorisation\<close>

definition authorize_drc_account_operator :: "state_store \<Rightarrow> address \<Rightarrow> address \<Rightarrow> unit res" where
  "authorize_drc_account_operator s owner signer =
     (if signer = owner
      then bind_result (drc_master_key_disabled s owner) (\<lambda>d.
             if d then Err (InvalidTx ''DRC master key is disabled for this account'') else Ok ())
      else bind_result (load_drc_account_regular_key s owner) (\<lambda>r.
             case r of
               None \<Rightarrow> Err (InvalidTx ''DRC operation signer is not master or regular key'')
             | Some regular_key \<Rightarrow>
                 if signer = regular_key then Ok ()
                 else Err (InvalidTx ''DRC operation signer is not master or regular key'')))"

definition installs_own_signer ::
    "drc_signer_list_entry list \<Rightarrow> drc_signer_list_entry list \<Rightarrow> drc_multisign_entry \<Rightarrow> bool" where
  "installs_own_signer new_entries current e \<longleftrightarrow>
     list_ex (\<lambda>x. sl_signer x = me_signer e) new_entries
     \<and> \<not> list_ex (\<lambda>x. sl_signer x = me_signer e) current"

definition verify_multisign_or_single ::
    "crypto_env \<Rightarrow> state_store \<Rightarrow> address \<Rightarrow> bytes \<Rightarrow> bytes \<Rightarrow> drc_multisign_auth option
     \<Rightarrow> bytes \<Rightarrow> tx_auth_context \<Rightarrow> drc_signer_list_entry list option \<Rightarrow> unit res" where
  "verify_multisign_or_single env s owner public_key signature multisign op_bytes auth forbidden =
     bind_result (map_err InvalidTx (validate_exclusive_authorization public_key signature multisign)) (\<lambda>_.
       case multisign of
         Some bundle \<Rightarrow>
           bind_result (map_err InvalidTx (validate_multisign_structure bundle)) (\<lambda>_.
             if ma_signing_for bundle \<noteq> owner then Err (InvalidTx ''multisign signing_for mismatch'')
             else bind_result (load_drc_account_signer_list s owner) (\<lambda>installed.
               case installed of
                 None \<Rightarrow> Err (InvalidTx ''multisign requires an installed signer list'')
               | Some l \<Rightarrow>
                   if (case forbidden of
                         None \<Rightarrow> False
                       | Some new_entries \<Rightarrow>
                           list_ex (installs_own_signer new_entries (asl_entries l)) (ma_signatures bundle))
                   then Err (InvalidTx ''new signer list cannot authorize its own installation'')
                   else map_err InvalidTx
                          (verify_drc_multisign_against_list env bundle owner op_bytes
                             (chain_id auth) (genesis auth) (asl_entries l) (asl_quorum l))))
       | None \<Rightarrow>
           bind_result (map_err InvalidTx (verify_bound_secp256k1 env public_key signature op_bytes)) (\<lambda>signer.
             bind_result (if signer = owner then drc_master_key_disabled s owner else Ok False) (\<lambda>d.
               if d then Err (InvalidTx ''DRC master key is disabled for this account'')
               else authorize_drc_account_operator s owner signer)))"

section \<open>What the checks promise\<close>

definition stored :: "(meta_val \<Rightarrow> 'a option) \<Rightarrow> state_store \<Rightarrow> meta_key \<Rightarrow> 'a option" where
  "stored f s k = Option.bind (get_cf s k) f"

definition master_disabled :: "state_store \<Rightarrow> address \<Rightarrow> bool" where
  "master_disabled s a =
     (case stored as_policy s (KPolicy a) of Some p \<Rightarrow> ap_master_key_disabled p | None \<Rightarrow> False)"

definition regular_key_of :: "state_store \<Rightarrow> address \<Rightarrow> address option" where
  "regular_key_of s a = map_option ark_regular_key (stored as_regular_key s (KRegularKey a))"

definition signer_list_of :: "state_store \<Rightarrow> address \<Rightarrow> drc_account_signer_list option" where
  "signer_list_of s a = stored as_signer_list s (KSignerList a)"

definition listed_weight :: "drc_signer_list_entry list \<Rightarrow> address \<Rightarrow> nat" where
  "listed_weight entries a =
     (case List.find (\<lambda>x. sl_signer x = a) entries of Some e \<Rightarrow> unat (sl_weight e) | None \<Rightarrow> 0)"

definition valid_participant :: "crypto_env \<Rightarrow> bytes \<Rightarrow> drc_multisign_entry \<Rightarrow> bool" where
  "valid_participant env participant_bytes e \<longleftrightarrow>
     length (me_public_key e) = 33 \<and> length (me_signature e) = 64
     \<and> secp_verify env (me_public_key e) participant_bytes (me_signature e)
     \<and> address_from_pubkey env (me_public_key e) = me_signer e"

definition signed_weight ::
    "crypto_env \<Rightarrow> bytes \<Rightarrow> drc_signer_list_entry list \<Rightarrow> drc_multisign_entry list \<Rightarrow> nat" where
  "signed_weight env participant_bytes entries es =
     sum_list (map (\<lambda>e. listed_weight entries (me_signer e)) (filter (valid_participant env participant_bytes) es))"

definition authorised ::
    "crypto_env \<Rightarrow> state_store \<Rightarrow> address \<Rightarrow> bytes \<Rightarrow> bytes \<Rightarrow> drc_multisign_auth option
     \<Rightarrow> bytes \<Rightarrow> tx_auth_context \<Rightarrow> bool" where
  "authorised env s owner public_key signature multisign op_bytes auth =
     (case multisign of
        None \<Rightarrow>
          length public_key = 33 \<and> length signature = 64
          \<and> secp_verify env public_key op_bytes signature
          \<and> (address_from_pubkey env public_key = owner \<and> \<not> master_disabled s owner
             \<or> regular_key_of s owner = Some (address_from_pubkey env public_key))
      | Some b \<Rightarrow>
          public_key = [] \<and> signature = [] \<and> ma_signing_for b = owner
          \<and> distinct (map me_signer (ma_signatures b))
          \<and> (case signer_list_of s owner of
               None \<Rightarrow> False
             | Some l \<Rightarrow> 0 < asl_quorum l \<and>
                 unat (asl_quorum l) \<le> signed_weight env
                   (participant_signing_bytes_bound env owner op_bytes (chain_id auth) (genesis auth))
                   (asl_entries l) (ma_signatures b)))"

lemma load_policy_master:
  assumes "load_drc_account_policy s a = Ok p"
  shows "master_disabled s a \<longleftrightarrow> ap_master_key_disabled p"
  using assms
  by (auto simp: load_drc_account_policy_def master_disabled_def stored_def default_account_policy_def
      split: option.splits)

lemma drc_master_key_disabled_Ok:
  "drc_master_key_disabled s a = Ok d \<Longrightarrow> master_disabled s a \<longleftrightarrow> d"
  by (auto simp: drc_master_key_disabled_def load_policy_master)

lemma load_regular_key_of:
  assumes "load_drc_account_regular_key s a = Ok r"
  shows "regular_key_of s a = r"
  using assms
  by (auto simp: load_drc_account_regular_key_def regular_key_of_def stored_def
      split: option.splits if_splits)

lemma load_signer_list_of:
  assumes "load_drc_account_signer_list s a = Ok l"
  shows "signer_list_of s a = l" and "l = Some r \<Longrightarrow> validate_account_signer_list r = Ok ()"
  using assms
  by (auto simp: load_drc_account_signer_list_def signer_list_of_def stored_def
      split: option.splits if_splits)

lemma has_alternate_recovery_Ok:
  "has_alternate_recovery s a = Ok r \<Longrightarrow> r \<longleftrightarrow> regular_key_of s a \<noteq> None \<or> signer_list_of s a \<noteq> None"
  by (auto simp: has_alternate_recovery_def has_usable_regular_key_def has_usable_signer_list_def
      dest: load_regular_key_of load_signer_list_of(1) split: if_splits)

lemma verify_bound_Ok:
  "verify_bound_secp256k1 env pk sig msg = Ok a \<longleftrightarrow>
     length pk = 33 \<and> length sig = 64 \<and> secp_verify env pk msg sig \<and> address_from_pubkey env pk = a"
  by (auto simp: verify_bound_secp256k1_def)

lemma validate_participants_sorted:
  assumes "validate_participants prev es = Ok ()"
  shows "sorted_wrt (<) (map me_signer es) \<and> (\<forall>p e. prev = Some p \<longrightarrow> e \<in> set es \<longrightarrow> p < me_signer e)"
  using assms
proof (induction prev es rule: validate_participants.induct)
  case (1 prev)
  then show ?case by simp
next
  case (2 prev e es)
  then have "sorted_wrt (<) (map me_signer es)" and gt: "\<And>x. x \<in> set es \<Longrightarrow> me_signer e < me_signer x"
    by (auto split: if_splits)
  moreover have "p < me_signer e" if "prev = Some p" for p
    using "2.prems" that by (auto split: if_splits)
  ultimately show ?case by (auto dest: gt intro: less_trans)
qed

lemma validate_multisign_distinct:
  "validate_multisign_structure a = Ok () \<Longrightarrow> distinct (map me_signer (ma_signatures a))"
  by (auto simp: validate_multisign_structure_def strict_sorted_iff
      dest!: validate_participants_sorted split: if_splits)

lemma multisign_weight_loop_sound:
  assumes "multisign_weight_loop env pb entries quorum w es = Ok ()"
  shows "unat quorum \<le> unat w + signed_weight env pb entries es"
  using assms
proof (induction es arbitrary: w)
  case Nil
  then show ?case by simp
next
  case (Cons e es)
  from Cons.prems obtain listed w' where
    listed: "List.find (\<lambda>x. sl_signer x = me_signer e) entries = Some listed"
    and valid: "valid_participant env pb e"
    and w': "checked_add w (ucast (sl_weight listed)) = Some w'"
    and rest: "ucast quorum \<le> w' \<or> multisign_weight_loop env pb entries quorum w' es = Ok ()"
    by (auto simp: verify_bound_Ok valid_participant_def split: option.splits if_splits)
  have sum: "unat w' = unat w + unat (sl_weight listed)"
    using checked_add_Some [OF w'] by (simp add: unat_ucast_up)
  have step: "signed_weight env pb entries (e # es)
    = unat (sl_weight listed) + signed_weight env pb entries es"
    using valid listed by (simp add: signed_weight_def listed_weight_def)
  from rest show ?case
  proof
    assume "ucast quorum \<le> w'"
    then have "unat quorum \<le> unat w'" by (simp add: word_le_nat_alt unat_ucast_up)
    with sum step show ?thesis by simp
  next
    assume "multisign_weight_loop env pb entries quorum w' es = Ok ()"
    from Cons.IH [OF this] sum step show ?thesis by simp
  qed
qed

lemma signer_list_quorum_pos:
  "validate_account_signer_list l = Ok () \<Longrightarrow> 0 < asl_quorum l"
  by (auto simp: validate_account_signer_list_def validate_signer_list_payload_def word_gt_0
      split: if_splits)

lemma verify_multisign_or_single_sound:
  assumes "verify_multisign_or_single env s owner pk sig multisign op_bytes auth forbidden = Ok ()"
  shows "authorised env s owner pk sig multisign op_bytes auth"
proof (cases multisign)
  case None
  with assms obtain signer where sig: "verify_bound_secp256k1 env pk sig op_bytes = Ok signer"
    and op: "authorize_drc_account_operator s owner signer = Ok ()"
    by (auto simp: verify_multisign_or_single_def split: if_splits)
  from op have "signer = owner \<and> \<not> master_disabled s owner \<or> regular_key_of s owner = Some signer"
    by (auto simp: authorize_drc_account_operator_def dest: drc_master_key_disabled_Ok load_regular_key_of
        split: if_splits option.splits)
  with sig None show ?thesis by (auto simp: authorised_def verify_bound_Ok)
next
  case (Some b)
  with assms obtain l where
    excl: "validate_exclusive_authorization pk sig multisign = Ok ()"
    and str: "validate_multisign_structure b = Ok ()" and sfor: "ma_signing_for b = owner"
    and load: "load_drc_account_signer_list s owner = Ok (Some l)"
    and ver: "verify_drc_multisign_against_list env b owner op_bytes (chain_id auth) (genesis auth)
                (asl_entries l) (asl_quorum l) = Ok ()"
    by (cases forbidden) (auto simp: verify_multisign_or_single_def split: if_splits option.splits)
  have "pk = [] \<and> sig = []"
    using excl Some by (auto simp: validate_exclusive_authorization_def Let_def split: if_splits)
  moreover have "unat (asl_quorum l) \<le> signed_weight env
      (participant_signing_bytes_bound env owner op_bytes (chain_id auth) (genesis auth))
      (asl_entries l) (ma_signatures b)"
    using ver multisign_weight_loop_sound [of env _ "asl_entries l" "asl_quorum l" 0 "ma_signatures b"]
    by (auto simp: verify_drc_multisign_against_list_def split: if_splits)
  ultimately show ?thesis
    using Some sfor validate_multisign_distinct [OF str] load_signer_list_of [OF load]
    by (simp add: authorised_def signer_list_quorum_pos)
qed

end
