(* ===== verification/Drc_Envelopes.thy ===== *)
theory Drc_Envelopes
  imports Drc_Keys
begin

text \<open>
  The signed operation envelopes of \<^verbatim>\<open>core/crates/types\<close> (transfers, ticket creation, account
  policy, deposit preauthorisation, regular key, signer list, staking, escrow), what their
  signatures cover (\<open>signing_bytes_bound\<close>), their structural validation, and the per-operation
  checks of \<^verbatim>\<open>state-machine/src/drc_account_auth.rs\<close>.

  The fields every envelope has (version, nonce, keys, signature, multisign bundle) are the record
  \<open>envelope\<close>, those with a sequence selector the record \<open>seq_envelope\<close>; each operation extends one of
  them. \<open>signing_bytes_bound\<close> calls \<open>expect\<close> on the selector of a ticket-version envelope, so it
  returns a result whose error is \<open>Panic\<close>.
\<close>

section \<open>Envelopes\<close>

record envelope =
  tx_version :: u32
  tx_nonce :: u64
  tx_public_key :: bytes
  tx_signature :: bytes
  tx_multisign :: "drc_multisign_auth option"

record seq_envelope = envelope +
  tx_account_sequence :: "drc_account_sequence_selector option"

definition bound_sequence :: "'a seq_envelope_scheme \<Rightarrow> string \<Rightarrow> drc_account_sequence_selector res" where
  "bound_sequence tx what = ok_or (tx_account_sequence tx) (Panic what)"

definition ticket_on_legacy :: "'a seq_envelope_scheme \<Rightarrow> bool" where
  "ticket_on_legacy tx =
     (case tx_account_sequence tx of Some s \<Rightarrow> sel_kind s = Ticket | None \<Rightarrow> False)"

definition ticket_selector_error :: string where
  "ticket_selector_error = ''ticket sequence selector requires a ticket-capable operation version''"

section \<open>Account transfers\<close>

record account_transfer = seq_envelope +
  at_asset :: native_asset_id
  at_from :: address
  at_to :: address
  at_amount :: amount
  at_fee :: amount

definition transfer_signing_bytes :: "crypto_env \<Rightarrow> account_transfer \<Rightarrow> tx_auth_context \<Rightarrow> bytes res" where
  "transfer_signing_bytes env tx auth =
     (if 3 \<le> tx_version tx
      then bind_result (bound_sequence tx ''v3 transfer requires account_sequence'') (\<lambda>sq.
             Ok (borsh_to_vec env
                   [BStr ''agora-trident-account-tx-v3'', BStr (chain_id auth), BHash (genesis auth),
                    BU32 (tx_version tx), BTag (ticker (at_asset tx)), BAddr (at_from tx), BAddr (at_to tx),
                    BU64 (at_amount tx), BU64 (at_fee tx), BSeq sq]))
      else Ok (borsh_to_vec env
                 [BStr ''agora-trident-account-tx-v2'', BStr (chain_id auth), BHash (genesis auth),
                  BU32 (tx_version tx), BTag (ticker (at_asset tx)), BAddr (at_from tx), BAddr (at_to tx),
                  BU64 (at_amount tx), BU64 (at_fee tx), BU64 (tx_nonce tx)]))"

definition effective_drc_sequence :: "account_transfer \<Rightarrow> string + drc_account_sequence_selector" where
  "effective_drc_sequence tx =
     (if at_asset tx \<noteq> DRC then Err ''not a DRC transfer''
      else if 3 \<le> tx_version tx then ok_or (tx_account_sequence tx) ''missing account_sequence''
      else Ok (nonce_selector (tx_nonce tx)))"

definition unsigned_with_fee ::
    "native_asset_id \<Rightarrow> address \<Rightarrow> address \<Rightarrow> amount \<Rightarrow> amount \<Rightarrow> u64 \<Rightarrow> account_transfer" where
  "unsigned_with_fee asset from to amt fee n =
     \<lparr>tx_version = 2, tx_nonce = n, tx_public_key = [], tx_signature = [], tx_multisign = None,
      tx_account_sequence = None, at_asset = asset, at_from = from, at_to = to,
      at_amount = amt, at_fee = fee\<rparr>"

definition unsigned_with_fee_v3 ::
    "native_asset_id \<Rightarrow> address \<Rightarrow> address \<Rightarrow> amount \<Rightarrow> amount \<Rightarrow> drc_account_sequence_selector
     \<Rightarrow> account_transfer" where
  "unsigned_with_fee_v3 asset from to amt fee sq =
     \<lparr>tx_version = 3, tx_nonce = 0, tx_public_key = [], tx_signature = [], tx_multisign = None,
      tx_account_sequence = Some sq, at_asset = asset, at_from = from, at_to = to,
      at_amount = amt, at_fee = fee\<rparr>"

section \<open>Ticket creation\<close>

record drc_ticket_create_tx = envelope +
  tc_owner :: address
  tc_fee :: amount

definition validate_ticket_create :: "drc_ticket_create_tx \<Rightarrow> string + unit" where
  "validate_ticket_create tx =
     (if tx_version tx \<noteq> 1 then Err ''unsupported DRC ticket-create version''
      else if tc_owner tx = 0 then Err ''zero DRC ticket owner'' else Ok ())"

definition ticket_create_signing_bytes :: "crypto_env \<Rightarrow> drc_ticket_create_tx \<Rightarrow> tx_auth_context \<Rightarrow> bytes" where
  "ticket_create_signing_bytes env tx auth =
     borsh_to_vec env
       [BStr ''agora-trident-drc-ticket-create-v1'', BStr (chain_id auth), BHash (genesis auth),
        BStr ''drc_ticket_create'', BU32 (tx_version tx), BAddr (tc_owner tx), BU64 (tx_nonce tx),
        BU64 (tc_fee tx)]"

section \<open>Account policy\<close>

datatype drc_account_policy_action =
    SetRequireDestinationTag
  | ClearRequireDestinationTag
  | SetDepositAuthRequired
  | ClearDepositAuthRequired
  | SetMasterKeyDisabled
  | ClearMasterKeyDisabled

fun destination_tag_requirement :: "drc_account_policy_action \<Rightarrow> bool option" where
  "destination_tag_requirement SetRequireDestinationTag = Some True"
| "destination_tag_requirement ClearRequireDestinationTag = Some False"
| "destination_tag_requirement _ = None"

fun deposit_auth_requirement :: "drc_account_policy_action \<Rightarrow> bool option" where
  "deposit_auth_requirement SetDepositAuthRequired = Some True"
| "deposit_auth_requirement ClearDepositAuthRequired = Some False"
| "deposit_auth_requirement _ = None"

fun master_key_disabled_requirement :: "drc_account_policy_action \<Rightarrow> bool option" where
  "master_key_disabled_requirement SetMasterKeyDisabled = Some True"
| "master_key_disabled_requirement ClearMasterKeyDisabled = Some False"
| "master_key_disabled_requirement _ = None"

fun policy_action_str :: "drc_account_policy_action \<Rightarrow> string" where
  "policy_action_str SetRequireDestinationTag = ''set_require_destination_tag''"
| "policy_action_str ClearRequireDestinationTag = ''clear_require_destination_tag''"
| "policy_action_str SetDepositAuthRequired = ''set_deposit_auth_required''"
| "policy_action_str ClearDepositAuthRequired = ''clear_deposit_auth_required''"
| "policy_action_str SetMasterKeyDisabled = ''set_master_key_disabled''"
| "policy_action_str ClearMasterKeyDisabled = ''clear_master_key_disabled''"

record drc_account_policy_tx = seq_envelope +
  pt_account :: address
  pt_action :: drc_account_policy_action
  pt_fee :: amount

definition validate_policy_version :: "drc_account_policy_tx \<Rightarrow> string + unit" where
  "validate_policy_version tx =
     (let v = tx_version tx; a = pt_action tx in
      if v < 4 \<and> ticket_on_legacy tx then Err ticket_selector_error
      else if v = 1 \<and> destination_tag_requirement a \<noteq> None
            \<or> v = 2 \<and> deposit_auth_requirement a \<noteq> None
            \<or> v = 3 \<and> master_key_disabled_requirement a \<noteq> None then Ok ()
      else if v = 4 then Ok ()
      else if v = 1 \<or> v = 2 \<or> v = 3
      then Err ''DRC account-policy action is invalid for envelope version''
      else Err ''unsupported DRC account-policy version'')"

definition policy_signing_bytes :: "crypto_env \<Rightarrow> drc_account_policy_tx \<Rightarrow> tx_auth_context \<Rightarrow> bytes res" where
  "policy_signing_bytes env tx auth =
     (let v = tx_version tx;
          chain = [BStr (chain_id auth), BHash (genesis auth)];
          body = [BU32 v, BAddr (pt_account tx), BTag (policy_action_str (pt_action tx)), BU64 (pt_fee tx)]
      in if v = 4
         then bind_result (bound_sequence tx ''account-policy v4 requires account_sequence'') (\<lambda>sq.
                Ok (borsh_to_vec env (BStr ''agora-trident-drc-account-policy-v4'' # chain
                                       @ [BStr ''drc_account_policy''] @ body @ [BSeq sq])))
         else if v = 1
         then Ok (borsh_to_vec env (BStr ''agora-trident-drc-account-policy-v1'' # chain
                                     @ body @ [BU64 (tx_nonce tx)]))
         else if v = 3
         then Ok (borsh_to_vec env (BStr ''agora-trident-drc-account-policy-v3'' # chain
                                     @ [BStr ''drc_account_policy''] @ body @ [BU64 (tx_nonce tx)]))
         else Ok (borsh_to_vec env (BStr ''agora-trident-drc-account-policy-v2'' # chain
                                     @ [BStr ''drc_account_policy''] @ body @ [BU64 (tx_nonce tx)])))"

section \<open>Deposit preauthorisation\<close>

datatype drc_deposit_preauth_action = Authorize | Unauthorize

fun preauth_action_str :: "drc_deposit_preauth_action \<Rightarrow> string" where
  "preauth_action_str Authorize = ''authorize''"
| "preauth_action_str Unauthorize = ''unauthorize''"

record drc_deposit_preauth_tx = seq_envelope +
  dpt_owner :: address
  dpt_action :: drc_deposit_preauth_action
  dpt_source :: address
  dpt_fee :: amount

definition validate_preauth_structure :: "drc_deposit_preauth_tx \<Rightarrow> string + unit" where
  "validate_preauth_structure tx =
     (if tx_version tx \<noteq> 1 \<and> tx_version tx \<noteq> 2
      then Err ''unsupported DRC deposit-preauthorization transaction version''
      else if tx_version tx = 1 \<and> ticket_on_legacy tx then Err ticket_selector_error
      else if dpt_owner tx = 0 then Err ''DRC deposit-preauthorization owner must be non-zero''
      else if dpt_source tx = 0 then Err ''DRC deposit-preauthorization source must be non-zero''
      else if dpt_owner tx = dpt_source tx then Err ''DRC accounts cannot preauthorize themselves''
      else Ok ())"

definition preauth_signing_bytes :: "crypto_env \<Rightarrow> drc_deposit_preauth_tx \<Rightarrow> tx_auth_context \<Rightarrow> bytes res" where
  "preauth_signing_bytes env tx auth =
     (let body = [BStr (chain_id auth), BHash (genesis auth), BStr ''drc_deposit_preauth'',
                  BU32 (tx_version tx), BAddr (dpt_owner tx), BTag (preauth_action_str (dpt_action tx)),
                  BAddr (dpt_source tx)]
      in if 2 \<le> tx_version tx
         then bind_result (bound_sequence tx ''deposit-preauth v2 requires account_sequence'') (\<lambda>sq.
                Ok (borsh_to_vec env (BStr ''agora-trident-drc-deposit-preauth-v2'' # body
                                       @ [BU64 (dpt_fee tx), BSeq sq])))
         else Ok (borsh_to_vec env (BStr ''agora-trident-drc-deposit-preauth-v1'' # body
                                     @ [BU64 (tx_nonce tx), BU64 (dpt_fee tx)])))"

section \<open>Regular keys\<close>

datatype drc_regular_key_action = RegularSet | RegularClear

fun regular_key_action_str :: "drc_regular_key_action \<Rightarrow> string" where
  "regular_key_action_str RegularSet = ''set''"
| "regular_key_action_str RegularClear = ''clear''"

record drc_regular_key_tx = seq_envelope +
  rk_owner :: address
  rk_action :: drc_regular_key_action
  rk_regular_key :: address
  rk_public_key :: bytes
  rk_fee :: amount

definition validate_regular_key_structure :: "drc_regular_key_tx \<Rightarrow> string + unit" where
  "validate_regular_key_structure tx =
     (if tx_version tx \<noteq> 1 \<and> tx_version tx \<noteq> 2
      then Err ''unsupported DRC regular-key transaction version''
      else if tx_version tx = 1 \<and> ticket_on_legacy tx then Err ticket_selector_error
      else if rk_owner tx = 0 then Err ''DRC regular-key owner must be non-zero''
      else case rk_action tx of
        RegularSet \<Rightarrow>
          if rk_regular_key tx = 0 then Err ''DRC regular key must be non-zero''
          else if rk_regular_key tx = rk_owner tx
          then Err ''master key cannot be installed as its own regular key''
          else if length (rk_public_key tx) \<noteq> 33
          then Err ''regular-key public key must be 33-byte compressed secp256k1''
          else Ok ()
      | RegularClear \<Rightarrow>
          if rk_regular_key tx \<noteq> 0 \<or> rk_public_key tx \<noteq> []
          then Err ''clear regular-key operation must leave key fields empty''
          else Ok ())"

definition regular_key_signing_bytes :: "crypto_env \<Rightarrow> drc_regular_key_tx \<Rightarrow> tx_auth_context \<Rightarrow> bytes res" where
  "regular_key_signing_bytes env tx auth =
     (let body = [BStr (chain_id auth), BHash (genesis auth), BStr ''drc_regular_key'',
                  BU32 (tx_version tx), BAddr (rk_owner tx), BTag (regular_key_action_str (rk_action tx)),
                  BAddr (rk_regular_key tx), BBytes (rk_public_key tx)]
      in if 2 \<le> tx_version tx
         then bind_result (bound_sequence tx ''regular-key v2 requires account_sequence'') (\<lambda>sq.
                Ok (borsh_to_vec env (BStr ''agora-trident-drc-regular-key-v2'' # body
                                       @ [BU64 (rk_fee tx), BSeq sq])))
         else Ok (borsh_to_vec env (BStr ''agora-trident-drc-regular-key-v1'' # body
                                     @ [BU64 (tx_nonce tx), BU64 (rk_fee tx)])))"

section \<open>Signer lists\<close>

datatype drc_signer_list_action = ListSet | ListDelete

fun signer_list_action_str :: "drc_signer_list_action \<Rightarrow> string" where
  "signer_list_action_str ListSet = ''set''"
| "signer_list_action_str ListDelete = ''delete''"

record drc_signer_list_tx = seq_envelope +
  slt_owner :: address
  slt_action :: drc_signer_list_action
  slt_quorum :: u32
  slt_entries :: "drc_signer_list_entry list"
  slt_fee :: amount

definition validate_signer_list_structure :: "drc_signer_list_tx \<Rightarrow> string + unit" where
  "validate_signer_list_structure tx =
     (if tx_version tx \<noteq> 1 \<and> tx_version tx \<noteq> 2
      then Err ''unsupported DRC signer-list transaction version''
      else if tx_version tx = 1 \<and> ticket_on_legacy tx then Err ticket_selector_error
      else if slt_owner tx = 0 then Err ''DRC signer-list owner must be non-zero''
      else case slt_action tx of
        ListSet \<Rightarrow> validate_signer_list_payload (slt_owner tx) (slt_entries tx) (slt_quorum tx)
      | ListDelete \<Rightarrow>
          if slt_quorum tx \<noteq> 0 \<or> slt_entries tx \<noteq> []
          then Err ''signer-list delete must leave quorum/entries empty'' else Ok ())"

definition signer_list_signing_bytes :: "crypto_env \<Rightarrow> drc_signer_list_tx \<Rightarrow> tx_auth_context \<Rightarrow> bytes res" where
  "signer_list_signing_bytes env tx auth =
     (let body = [BStr (chain_id auth), BHash (genesis auth), BStr ''drc_signer_list'',
                  BU32 (tx_version tx), BAddr (slt_owner tx), BTag (signer_list_action_str (slt_action tx)),
                  BU32 (slt_quorum tx),
                  BList (map (\<lambda>e. BList [BAddr (sl_signer e), BU16 (sl_weight e)]) (slt_entries tx))]
      in if 2 \<le> tx_version tx
         then bind_result (bound_sequence tx ''signer-list v2 requires account_sequence'') (\<lambda>sq.
                Ok (borsh_to_vec env (BStr ''agora-trident-drc-signer-list-v2'' # body
                                       @ [BU64 (slt_fee tx), BSeq sq])))
         else Ok (borsh_to_vec env (BStr ''agora-trident-drc-signer-list-v1'' # body
                                     @ [BU64 (tx_nonce tx), BU64 (slt_fee tx)])))"

section \<open>Staking operations\<close>

datatype stake_op_kind = Bond | Delegate | UnbondSelf | Withdraw

fun stake_kind_str :: "stake_op_kind \<Rightarrow> string" where
  "stake_kind_str Bond = ''Bond''"
| "stake_kind_str Delegate = ''Delegate''"
| "stake_kind_str UnbondSelf = ''UnbondSelf''"
| "stake_kind_str Withdraw = ''Withdraw''"

record signed_stake_tx = seq_envelope +
  st_asset :: native_asset_id
  st_kind :: stake_op_kind
  st_actor :: address
  st_validator :: address
  st_amount :: u64
  st_consensus_pubkey :: bytes
  st_withdrawal :: address
  st_commission_bps :: u16
  st_metadata_hash :: hash

definition stake_signing_bytes :: "crypto_env \<Rightarrow> signed_stake_tx \<Rightarrow> tx_auth_context \<Rightarrow> bytes res" where
  "stake_signing_bytes env tx auth =
     (let body = [BStr (chain_id auth), BHash (genesis auth), BU32 (tx_version tx),
                  BTag (ticker (st_asset tx)), BTag (stake_kind_str (st_kind tx)), BAddr (st_actor tx),
                  BAddr (st_validator tx), BU64 (st_amount tx), BBytes (st_consensus_pubkey tx),
                  BAddr (st_withdrawal tx), BU16 (st_commission_bps tx), BHash (st_metadata_hash tx)]
      in if 2 \<le> tx_version tx
         then bind_result (bound_sequence tx ''stake v2 requires account_sequence'') (\<lambda>sq.
                Ok (borsh_to_vec env (BStr ''agora-trident-stake-tx-v2'' # body @ [BSeq sq])))
         else Ok (borsh_to_vec env (BStr ''agora-trident-stake-tx-v1'' # body @ [BU64 (tx_nonce tx)])))"

section \<open>Escrow operations\<close>

record drc_escrow_create_tx = seq_envelope +
  ec_owner :: address
  ec_recipient :: address
  ec_amount :: amount
  ec_fee :: amount
  ec_destination_tag :: "u32 option"
  ec_source_tag :: "u32 option"
  ec_invoice_id :: hash
  ec_finish_after :: "u64 option"
  ec_cancel_after :: "u64 option"

definition validate_escrow_create :: "drc_escrow_create_tx \<Rightarrow> string + unit" where
  "validate_escrow_create tx =
     (if tx_version tx \<noteq> 1 \<and> tx_version tx \<noteq> 2 then Err ''unsupported DRC escrow version''
      else if tx_version tx < 2 \<and> ticket_on_legacy tx then Err ''ticket selector on legacy escrow version''
      else if ec_owner tx = 0 \<or> ec_recipient tx = 0 then Err ''zero address or escrow id''
      else if ec_amount tx = 0 then Err ''zero escrow amount''
      else bind_result (validate_escrow_time_bounds (ec_finish_after tx) (ec_cancel_after tx)) (\<lambda>_.
        if ec_invoice_id tx \<noteq> 0
        then Err ''escrow v1 does not support merchant invoice_id (must be zero)'' else Ok ()))"

definition borsh_opt_u32 :: "u32 option \<Rightarrow> borsh_val" where
  "borsh_opt_u32 v = BList (case v of None \<Rightarrow> [] | Some x \<Rightarrow> [BU32 x])"

definition borsh_opt_u64 :: "u64 option \<Rightarrow> borsh_val" where
  "borsh_opt_u64 v = BList (case v of None \<Rightarrow> [] | Some x \<Rightarrow> [BU64 x])"

definition borsh_opt_seq :: "drc_account_sequence_selector option \<Rightarrow> borsh_val" where
  "borsh_opt_seq v = BList (case v of None \<Rightarrow> [] | Some x \<Rightarrow> [BSeq x])"

definition escrow_create_signing_bytes ::
    "crypto_env \<Rightarrow> drc_escrow_create_tx \<Rightarrow> tx_auth_context \<Rightarrow> bytes res" where
  "escrow_create_signing_bytes env tx auth =
     (let body = [BStr (chain_id auth), BHash (genesis auth), BStr ''drc_escrow_create'',
                  BU32 (tx_version tx), BAddr (ec_owner tx), BAddr (ec_recipient tx),
                  BU64 (ec_amount tx), BU64 (ec_fee tx), borsh_opt_u32 (ec_destination_tag tx),
                  borsh_opt_u32 (ec_source_tag tx), BHash (ec_invoice_id tx),
                  borsh_opt_u64 (ec_finish_after tx), borsh_opt_u64 (ec_cancel_after tx)]
      in if 2 \<le> tx_version tx
         then bind_result (bound_sequence tx ''escrow create v2 requires account_sequence'') (\<lambda>sq.
                Ok (borsh_to_vec env (BStr ''agora-trident-drc-escrow-create-v2'' # body @ [BSeq sq])))
         else Ok (borsh_to_vec env (BStr ''agora-trident-drc-escrow-create-v1'' # body
                                     @ [BU64 (tx_nonce tx)])))"

definition escrow_id :: "crypto_env \<Rightarrow> drc_escrow_create_tx \<Rightarrow> hash" where
  "escrow_id env tx =
     hash_borsh env
       [BU32 (tx_version tx), BAddr (ec_owner tx), BAddr (ec_recipient tx), BU64 (ec_amount tx),
        BU64 (ec_fee tx), borsh_opt_u32 (ec_destination_tag tx), borsh_opt_u32 (ec_source_tag tx),
        BHash (ec_invoice_id tx), borsh_opt_u64 (ec_finish_after tx), borsh_opt_u64 (ec_cancel_after tx),
        BU64 (tx_nonce tx), borsh_opt_seq (tx_account_sequence tx), BBytes (tx_public_key tx),
        BBytes (tx_signature tx)]"

text \<open>\<open>DrcEscrowFinishTx\<close> and \<open>DrcEscrowCancelTx\<close> have the same fields.\<close>

record drc_escrow_settle_tx = seq_envelope +
  es_submitter :: address
  es_escrow_id :: hash
  es_fee :: amount

type_synonym drc_escrow_finish_tx = drc_escrow_settle_tx
type_synonym drc_escrow_cancel_tx = drc_escrow_settle_tx

definition validate_escrow_finish :: "drc_escrow_finish_tx \<Rightarrow> string + unit" where
  "validate_escrow_finish tx =
     (if tx_version tx \<noteq> 1 \<and> tx_version tx \<noteq> 2 then Err ''unsupported DRC escrow version''
      else if tx_version tx < 2 \<and> ticket_on_legacy tx then Err ''ticket selector on legacy escrow version''
      else if es_submitter tx = 0 \<or> es_escrow_id tx = 0 then Err ''zero address or escrow id''
      else Ok ())"

definition validate_escrow_cancel :: "drc_escrow_cancel_tx \<Rightarrow> string + unit" where
  "validate_escrow_cancel tx =
     (if tx_version tx \<noteq> 1 \<and> tx_version tx \<noteq> 2 then Err ''unsupported DRC escrow version''
      else if tx_version tx < 2 \<and> ticket_on_legacy tx then Err ''ticket selector on legacy escrow version''
      else if es_submitter tx = 0 \<or> es_escrow_id tx = 0 then Err ''zero address or escrow id''
      else Ok ())"

definition escrow_finish_signing_bytes ::
    "crypto_env \<Rightarrow> drc_escrow_finish_tx \<Rightarrow> tx_auth_context \<Rightarrow> bytes res" where
  "escrow_finish_signing_bytes env tx auth =
     (let body = [BStr (chain_id auth), BHash (genesis auth), BStr ''drc_escrow_finish'',
                  BU32 (tx_version tx), BAddr (es_submitter tx), BHash (es_escrow_id tx), BU64 (es_fee tx)]
      in if 2 \<le> tx_version tx
         then bind_result (bound_sequence tx ''escrow finish v2 requires account_sequence'') (\<lambda>sq.
                Ok (borsh_to_vec env (BStr ''agora-trident-drc-escrow-finish-v2'' # body @ [BSeq sq])))
         else Ok (borsh_to_vec env (BStr ''agora-trident-drc-escrow-finish-v1'' # body
                                     @ [BU64 (tx_nonce tx)])))"

definition escrow_cancel_signing_bytes ::
    "crypto_env \<Rightarrow> drc_escrow_cancel_tx \<Rightarrow> tx_auth_context \<Rightarrow> bytes res" where
  "escrow_cancel_signing_bytes env tx auth =
     (let body = [BStr (chain_id auth), BHash (genesis auth), BStr ''drc_escrow_cancel'',
                  BU32 (tx_version tx), BAddr (es_submitter tx), BHash (es_escrow_id tx), BU64 (es_fee tx)]
      in if 2 \<le> tx_version tx
         then bind_result (bound_sequence tx ''escrow cancel v2 requires account_sequence'') (\<lambda>sq.
                Ok (borsh_to_vec env (BStr ''agora-trident-drc-escrow-cancel-v2'' # body @ [BSeq sq])))
         else Ok (borsh_to_vec env (BStr ''agora-trident-drc-escrow-cancel-v1'' # body
                                     @ [BU64 (tx_nonce tx)])))"

definition settle_tx_id :: "crypto_env \<Rightarrow> drc_escrow_settle_tx \<Rightarrow> hash" where
  "settle_tx_id env tx =
     hash_borsh env
       [BU32 (tx_version tx), BAddr (es_submitter tx), BHash (es_escrow_id tx), BU64 (es_fee tx),
        BU64 (tx_nonce tx), borsh_opt_seq (tx_account_sequence tx), BBytes (tx_public_key tx),
        BBytes (tx_signature tx)]"

section \<open>Per-operation checks\<close>

text \<open>
  \<open>verify_single\<close> is the common tail of the \<open>verify_*_bound\<close> functions of the crypto crate, which
  repeat the structural check and verify the signature without looking at the signer.
\<close>

definition verify_single ::
    "crypto_env \<Rightarrow> 'a envelope_scheme \<Rightarrow> string + unit \<Rightarrow> bytes \<Rightarrow> string + unit" where
  "verify_single env tx structure op_bytes =
     bind_result (map_err (\<lambda>_. invalid_transaction_auth) structure) (\<lambda>_.
       bind_result (verify_bound_secp256k1 env (tx_public_key tx) (tx_signature tx) op_bytes) (\<lambda>_. Ok ()))"

definition verify_envelope ::
    "crypto_env \<Rightarrow> state_store \<Rightarrow> 'a envelope_scheme \<Rightarrow> address \<Rightarrow> bytes \<Rightarrow> tx_auth_context
     \<Rightarrow> drc_signer_list_entry list option \<Rightarrow> unit res" where
  "verify_envelope env s tx owner op_bytes auth forbidden =
     verify_multisign_or_single env s owner (tx_public_key tx) (tx_signature tx) (tx_multisign tx)
       op_bytes auth forbidden"

definition verify_master_signature ::
    "crypto_env \<Rightarrow> 'a envelope_scheme \<Rightarrow> bytes \<Rightarrow> address \<Rightarrow> string + unit" where
  "verify_master_signature env tx op_bytes owner =
     bind_result (verify_bound_secp256k1 env (tx_public_key tx) (tx_signature tx) op_bytes) (\<lambda>signer.
       if signer \<noteq> owner then Err invalid_transaction_auth else Ok ())"

definition verify_drc_account_transfer_operation ::
    "crypto_env \<Rightarrow> state_store \<Rightarrow> account_transfer \<Rightarrow> tx_auth_context \<Rightarrow> unit res" where
  "verify_drc_account_transfer_operation env s tx auth =
     (if at_asset tx \<noteq> DRC
      then if length (tx_public_key tx) \<noteq> 33 \<or> length (tx_signature tx) \<noteq> 64
           then Err (InvalidTx invalid_transaction_auth)
           else bind_result (transfer_signing_bytes env tx auth) (\<lambda>op.
                  map_err InvalidTx (verify_master_signature env tx op (at_from tx)))
      else bind_result (transfer_signing_bytes env tx auth) (\<lambda>op.
             verify_envelope env s tx (at_from tx) op auth None))"

definition verify_drc_stake_operation ::
    "crypto_env \<Rightarrow> state_store \<Rightarrow> signed_stake_tx \<Rightarrow> tx_auth_context \<Rightarrow> unit res" where
  "verify_drc_stake_operation env s tx auth =
     (if st_asset tx \<noteq> DRC
      then if length (tx_public_key tx) \<noteq> 33 \<or> length (tx_signature tx) \<noteq> 64
           then Err (InvalidTx invalid_transaction_auth)
           else bind_result (stake_signing_bytes env tx auth) (\<lambda>op.
                  map_err InvalidTx (verify_master_signature env tx op (st_actor tx)))
      else bind_result (stake_signing_bytes env tx auth) (\<lambda>op.
             verify_envelope env s tx (st_actor tx) op auth None))"

definition verify_drc_ticket_create_operation ::
    "crypto_env \<Rightarrow> state_store \<Rightarrow> drc_ticket_create_tx \<Rightarrow> tx_auth_context \<Rightarrow> unit res" where
  "verify_drc_ticket_create_operation env s tx auth =
     (let op = ticket_create_signing_bytes env tx auth in
      bind_result (map_err InvalidTx (validate_ticket_create tx)) (\<lambda>_.
      bind_result (map_err InvalidTx (validate_drc_operation_authorization_fields
          (tx_public_key tx) (tx_signature tx) (tx_multisign tx))) (\<lambda>_.
      bind_result (if tx_multisign tx = None
                   then map_err InvalidTx (verify_single env tx (validate_ticket_create tx) op)
                   else Ok ()) (\<lambda>_.
      verify_envelope env s tx (tc_owner tx) op auth None))))"

definition verify_drc_deposit_preauth_operation ::
    "crypto_env \<Rightarrow> state_store \<Rightarrow> drc_deposit_preauth_tx \<Rightarrow> tx_auth_context \<Rightarrow> unit res" where
  "verify_drc_deposit_preauth_operation env s tx auth =
     bind_result (map_err InvalidTx (validate_preauth_structure tx)) (\<lambda>_.
     bind_result (preauth_signing_bytes env tx auth) (\<lambda>op.
     verify_envelope env s tx (dpt_owner tx) op auth None))"

text \<open>
  \<open>checked_regular_key\<close> is the second half of \<open>verify_drc_regular_key_bound\<close>: a \<open>Set\<close> must name the
  address of the key it carries.
\<close>

definition checked_regular_key :: "crypto_env \<Rightarrow> drc_regular_key_tx \<Rightarrow> string + unit" where
  "checked_regular_key env tx =
     (if rk_action tx = RegularSet \<and> address_from_pubkey env (rk_public_key tx) \<noteq> rk_regular_key tx
      then Err invalid_transaction_auth else Ok ())"

definition verify_drc_regular_key_bound ::
    "crypto_env \<Rightarrow> drc_regular_key_tx \<Rightarrow> tx_auth_context \<Rightarrow> unit res" where
  "verify_drc_regular_key_bound env tx auth =
     bind_result (map_err (\<lambda>_. InvalidTx invalid_transaction_auth) (validate_regular_key_structure tx)) (\<lambda>_.
     bind_result (regular_key_signing_bytes env tx auth) (\<lambda>op.
     bind_result (map_err InvalidTx
         (verify_bound_secp256k1 env (tx_public_key tx) (tx_signature tx) op)) (\<lambda>_.
     map_err InvalidTx (checked_regular_key env tx))))"

definition verify_drc_regular_key_operation ::
    "crypto_env \<Rightarrow> state_store \<Rightarrow> drc_regular_key_tx \<Rightarrow> tx_auth_context \<Rightarrow> unit res" where
  "verify_drc_regular_key_operation env s tx auth =
     bind_result (map_err InvalidTx (validate_regular_key_structure tx)) (\<lambda>_.
     bind_result (map_err InvalidTx (validate_drc_operation_authorization_fields
         (tx_public_key tx) (tx_signature tx) (tx_multisign tx))) (\<lambda>_.
     bind_result (if tx_multisign tx = None then verify_drc_regular_key_bound env tx auth else Ok ()) (\<lambda>_.
     bind_result (regular_key_signing_bytes env tx auth) (\<lambda>op.
     verify_envelope env s tx (rk_owner tx) op auth None))))"

definition verify_drc_signer_list_operation ::
    "crypto_env \<Rightarrow> state_store \<Rightarrow> drc_signer_list_tx \<Rightarrow> tx_auth_context \<Rightarrow> unit res" where
  "verify_drc_signer_list_operation env s tx auth =
     bind_result (map_err InvalidTx (validate_signer_list_structure tx)) (\<lambda>_.
     bind_result (map_err InvalidTx (validate_drc_operation_authorization_fields
         (tx_public_key tx) (tx_signature tx) (tx_multisign tx))) (\<lambda>_.
     bind_result (signer_list_signing_bytes env tx auth) (\<lambda>op.
       if tx_multisign tx \<noteq> None
       then verify_envelope env s tx (slt_owner tx) op auth
              (case slt_action tx of ListSet \<Rightarrow> Some (slt_entries tx) | ListDelete \<Rightarrow> None)
       else bind_result (map_err InvalidTx
              (bind_result (map_err (\<lambda>_. invalid_transaction_auth) (validate_signer_list_structure tx)) (\<lambda>_.
                 verify_bound_secp256k1 env (tx_public_key tx) (tx_signature tx) op))) (\<lambda>signer.
            authorize_drc_account_operator s (slt_owner tx) signer))))"

definition verify_drc_account_policy_operation ::
    "crypto_env \<Rightarrow> state_store \<Rightarrow> drc_account_policy_tx \<Rightarrow> tx_auth_context \<Rightarrow> unit res" where
  "verify_drc_account_policy_operation env s tx auth =
     bind_result (map_err InvalidTx (validate_policy_version tx)) (\<lambda>_.
     bind_result (policy_signing_bytes env tx auth) (\<lambda>op.
     case pt_action tx of
       SetMasterKeyDisabled \<Rightarrow>
         bind_result (map_err InvalidTx (validate_exclusive_authorization
             (tx_public_key tx) (tx_signature tx) (tx_multisign tx))) (\<lambda>_.
         if tx_multisign tx \<noteq> None
         then Err (InvalidTx ''master-key disable must be authorized by the owner master key'')
         else bind_result (map_err InvalidTx
                (verify_bound_secp256k1 env (tx_public_key tx) (tx_signature tx) op)) (\<lambda>signer.
           if signer \<noteq> pt_account tx
           then Err (InvalidTx ''master-key disable must be authorized by the owner master key'')
           else bind_result (drc_master_key_disabled s (pt_account tx)) (\<lambda>d.
             if d then Err (InvalidTx ''DRC master key is already disabled'')
             else bind_result (has_alternate_recovery s (pt_account tx)) (\<lambda>r.
               if \<not> r
               then Err (InvalidTx ''master-key disable requires a live regular key or signer list'')
               else Ok ()))))
     | ClearMasterKeyDisabled \<Rightarrow>
         bind_result (drc_master_key_disabled s (pt_account tx)) (\<lambda>d.
         if \<not> d then Err (InvalidTx ''DRC master key is not disabled'')
         else bind_result (map_err InvalidTx (validate_exclusive_authorization
             (tx_public_key tx) (tx_signature tx) (tx_multisign tx))) (\<lambda>_.
           if tx_multisign tx \<noteq> None then verify_envelope env s tx (pt_account tx) op auth None
           else bind_result (map_err InvalidTx
                  (verify_bound_secp256k1 env (tx_public_key tx) (tx_signature tx) op)) (\<lambda>signer.
             if signer = pt_account tx
             then Err (InvalidTx ''disabled DRC master key cannot clear master-key disable'')
             else authorize_drc_account_operator s (pt_account tx) signer)))
     | _ \<Rightarrow> verify_envelope env s tx (pt_account tx) op auth None))"

definition verify_drc_escrow_create_operation ::
    "crypto_env \<Rightarrow> state_store \<Rightarrow> drc_escrow_create_tx \<Rightarrow> tx_auth_context \<Rightarrow> unit res" where
  "verify_drc_escrow_create_operation env s tx auth =
     bind_result (map_err InvalidTx (validate_escrow_create tx)) (\<lambda>_.
     bind_result (map_err InvalidTx (validate_drc_operation_authorization_fields
         (tx_public_key tx) (tx_signature tx) (tx_multisign tx))) (\<lambda>_.
     bind_result (escrow_create_signing_bytes env tx auth) (\<lambda>op.
     bind_result (if tx_multisign tx = None
                  then map_err InvalidTx (verify_single env tx (validate_escrow_create tx) op)
                  else Ok ()) (\<lambda>_.
     verify_envelope env s tx (ec_owner tx) op auth None))))"

definition verify_drc_escrow_finish_operation ::
    "crypto_env \<Rightarrow> state_store \<Rightarrow> drc_escrow_finish_tx \<Rightarrow> tx_auth_context \<Rightarrow> unit res" where
  "verify_drc_escrow_finish_operation env s tx auth =
     bind_result (map_err InvalidTx (validate_escrow_finish tx)) (\<lambda>_.
     bind_result (map_err InvalidTx (validate_drc_operation_authorization_fields
         (tx_public_key tx) (tx_signature tx) (tx_multisign tx))) (\<lambda>_.
     bind_result (escrow_finish_signing_bytes env tx auth) (\<lambda>op.
     bind_result (if tx_multisign tx = None
                  then map_err InvalidTx (verify_single env tx (validate_escrow_finish tx) op)
                  else Ok ()) (\<lambda>_.
     verify_envelope env s tx (es_submitter tx) op auth None))))"

definition verify_drc_escrow_cancel_operation ::
    "crypto_env \<Rightarrow> state_store \<Rightarrow> drc_escrow_cancel_tx \<Rightarrow> tx_auth_context \<Rightarrow> unit res" where
  "verify_drc_escrow_cancel_operation env s tx auth =
     bind_result (map_err InvalidTx (validate_escrow_cancel tx)) (\<lambda>_.
     bind_result (map_err InvalidTx (validate_drc_operation_authorization_fields
         (tx_public_key tx) (tx_signature tx) (tx_multisign tx))) (\<lambda>_.
     bind_result (escrow_cancel_signing_bytes env tx auth) (\<lambda>op.
     bind_result (if tx_multisign tx = None
                  then map_err InvalidTx (verify_single env tx (validate_escrow_cancel tx) op)
                  else Ok ()) (\<lambda>_.
     verify_envelope env s tx (es_submitter tx) op auth None))))"

end
