(* ===== verification/Accounts.thy ===== *)
theory Accounts
  imports Drc_Envelopes
begin

text \<open>
  Native OVL and DRC accounts, one-use tickets and account transfers
  (\<^verbatim>\<open>state-machine/src/accounts/mod.rs\<close> and \<^verbatim>\<open>drc_ticket.rs\<close>).

  An operation of the code takes the store, a \<open>&mut WriteBatch\<close> and a \<open>&mut AccountJournal\<close> and
  appends to the latter two; here it returns what it appends. Every caller drops the batch and the
  journal of an operation that fails (\<^verbatim>\<open>apply.rs\<close> opens a fresh pair per operation), so an error
  carries neither.

  \<open>acct\<close>, \<open>tickets_of\<close> and \<open>total_balance\<close> are the abstract view of the account part of a store. The
  lemmas give the effect of every operation on that view.
\<close>

section \<open>Accounts\<close>

type_synonym account_journal = "(native_asset_id \<times> address \<times> account_state) list"

definition tlt_is_utxo :: state_error where
  "tlt_is_utxo = InvalidTx ''TLT uses UTXO module, not account module''"

definition load_account :: "state_store \<Rightarrow> native_asset_id \<Rightarrow> address \<Rightarrow> account_state res" where
  "load_account s asset a =
     (if asset = TLT then Err tlt_is_utxo
      else case get_cf s (KAccount asset a) of
             None \<Rightarrow> Ok default_account
           | Some v \<Rightarrow> decode_as as_account v)"

definition account_exists :: "state_store \<Rightarrow> native_asset_id \<Rightarrow> address \<Rightarrow> bool res" where
  "account_exists s asset a =
     (if asset = TLT then Err tlt_is_utxo else Ok (get_cf s (KAccount asset a) \<noteq> None))"

definition put_account_into :: "native_asset_id \<Rightarrow> address \<Rightarrow> account_state \<Rightarrow> write_batch res" where
  "put_account_into asset a st =
     (if asset = TLT then Err tlt_is_utxo else Ok [Put (KAccount asset a) (VAccount st)])"

definition credit_account_into ::
    "state_store \<Rightarrow> native_asset_id \<Rightarrow> address \<Rightarrow> amount \<Rightarrow> write_batch res" where
  "credit_account_into s asset a amt =
     (if amt = 0 then Err (InvalidTx ''zero credit'')
      else bind_result (load_account s asset a) (\<lambda>st.
           bind_result (ok_or (checked_add (balance st) amt) (InvalidTx ''balance overflow'')) (\<lambda>b.
           put_account_into asset a (st\<lparr>balance := b\<rparr>))))"

fun revert_account_journal_into :: "account_journal \<Rightarrow> write_batch res" where
  "revert_account_journal_into [] = Ok []"
| "revert_account_journal_into ((asset, a, st) # j) =
     bind_result (revert_account_journal_into j) (\<lambda>b.
     bind_result (put_account_into asset a st) (\<lambda>b'. Ok (b @ b')))"

definition account_root :: "crypto_env \<Rightarrow> state_store \<Rightarrow> native_asset_id \<Rightarrow> hash res" where
  "account_root env s asset =
     bind_result
       (fold_result (\<lambda>entries (k, v).
          case k of
            KAccount asset' a \<Rightarrow>
              if asset' = asset
              then bind_result (decode_as as_account v) (\<lambda>st.
                     Ok (if 0 < balance st \<or> 0 < nonce st then entries @ [(a, st)] else entries))
              else Ok entries
          | _ \<Rightarrow> Ok entries) [] s)
       (\<lambda>entries. Ok (hash_borsh env
          [BU8 (wire_byte asset),
           BList (map (\<lambda>(a, st). BList [BAddr a, BU64 (balance st), BU64 (nonce st)])
                    (sort_key fst entries))]))"

section \<open>Tickets\<close>

definition load_drc_account_tickets :: "state_store \<Rightarrow> address \<Rightarrow> u64 list res" where
  "load_drc_account_tickets s owner =
     (case get_cf s (KTickets owner) of
        None \<Rightarrow> Ok []
      | Some v \<Rightarrow> bind_result (decode_as as_tickets v) (\<lambda>record.
                    bind_result (map_err Storage (validate_account_tickets record)) (\<lambda>_.
                      if dt_owner record \<noteq> owner
                      then Err (Storage ''DRC ticket record does not match index key'')
                      else Ok (dt_sequences record))))"

definition put_tickets_into :: "address \<Rightarrow> u64 list \<Rightarrow> write_batch res" where
  "put_tickets_into owner sequences =
     (if sequences = [] then Ok [Delete (KTickets owner)]
      else let record = \<lparr>dt_version = 1, dt_owner = owner, dt_sequences = sequences\<rparr>
           in bind_result (map_err InvalidTx (validate_account_tickets record)) (\<lambda>_.
                Ok [Put (KTickets owner) (VTickets record)]))"

datatype drc_sequence_consumption = AdvanceNonce | ConsumeTicket u64

definition validate_drc_account_sequence ::
    "state_store \<Rightarrow> address \<Rightarrow> drc_account_sequence_selector \<Rightarrow> drc_sequence_consumption res" where
  "validate_drc_account_sequence s owner selector =
     (case sel_kind selector of
        Nonce \<Rightarrow> bind_result (load_account s DRC owner) (\<lambda>account.
          if nonce account \<noteq> sel_value selector then Err (InvalidTx ''bad DRC account nonce'')
          else Ok AdvanceNonce)
      | Ticket \<Rightarrow> bind_result (load_drc_account_tickets s owner) (\<lambda>tickets.
          if sel_value selector \<notin> set tickets then Err (InvalidTx ''unknown DRC ticket sequence'')
          else Ok (ConsumeTicket (sel_value selector))))"

definition commit_drc_sequence_consumption ::
    "address \<Rightarrow> account_state \<Rightarrow> drc_sequence_consumption \<Rightarrow> u64 list \<Rightarrow> (write_batch \<times> account_state) res" where
  "commit_drc_sequence_consumption owner account consumption tickets_before =
     (case consumption of
        AdvanceNonce \<Rightarrow>
          bind_result (ok_or (checked_add (nonce account) 1) (InvalidTx ''DRC account nonce overflow'')) (\<lambda>n.
            Ok ([], account\<lparr>nonce := n\<rparr>))
      | ConsumeTicket sequence \<Rightarrow>
          bind_result (put_tickets_into owner (sort (filter (\<lambda>t. t \<noteq> sequence) tickets_before))) (\<lambda>b.
            Ok (b, account)))"

record drc_sequence_apply_context =
  sc_consumption :: drc_sequence_consumption
  sc_tickets_before :: "u64 list"

definition begin_drc_account_sequence ::
    "state_store \<Rightarrow> address \<Rightarrow> drc_account_sequence_selector \<Rightarrow> drc_sequence_apply_context res" where
  "begin_drc_account_sequence s owner selector =
     bind_result (load_drc_account_tickets s owner) (\<lambda>tickets_before.
     bind_result (validate_drc_account_sequence s owner selector) (\<lambda>consumption.
       Ok \<lparr>sc_consumption = consumption, sc_tickets_before = tickets_before\<rparr>))"

definition finish_drc_account_sequence ::
    "address \<Rightarrow> account_state \<Rightarrow> drc_sequence_apply_context \<Rightarrow> (write_batch \<times> account_state) res" where
  "finish_drc_account_sequence owner account ctx =
     commit_drc_sequence_consumption owner account (sc_consumption ctx) (sc_tickets_before ctx)"

fun sequence_error_msg :: "drc_account_sequence_error \<Rightarrow> string" where
  "sequence_error_msg InvalidSelector = ''invalid DRC account sequence selector''"
| "sequence_error_msg TicketSequenceOverflow = ''DRC ticket sequence overflow''"
| "sequence_error_msg NonceOverflow = ''DRC account nonce overflow''"
| "sequence_error_msg TicketCapExceeded = ''DRC outstanding ticket cap exceeded''"
| "sequence_error_msg UnknownTicket = ''unknown DRC ticket sequence''"
| "sequence_error_msg DuplicateTicket = ''duplicate DRC ticket sequence''"
| "sequence_error_msg TicketSelectorOnLegacyVersion =
     ''ticket sequence selector requires a ticket-capable operation version''"
| "sequence_error_msg MissingAccountSequence =
     ''ticket-capable operation version requires account_sequence''"

text \<open>
  The two halves of sequence handling that every operation repeats: \<open>plan_drc_sequence\<close> resolves the
  selector and checks it before any balance is looked at, \<open>finish_sequence\<close> consumes it. \<open>None\<close> is the
  plain nonce path.
\<close>

definition plan_drc_sequence ::
    "state_store \<Rightarrow> address \<Rightarrow> 'a seq_envelope_scheme \<Rightarrow> u32 \<Rightarrow> drc_sequence_apply_context option res" where
  "plan_drc_sequence s owner tx ticket_version =
     bind_result (map_err (\<lambda>e. InvalidTx (sequence_error_msg e))
         (resolve_drc_account_sequence (tx_version tx) ticket_version (tx_nonce tx) (tx_account_sequence tx)))
       (\<lambda>selector. bind_result (begin_drc_account_sequence s owner selector) (\<lambda>ctx. Ok (Some ctx)))"

definition plan_nonce :: "account_state \<Rightarrow> u64 \<Rightarrow> string \<Rightarrow> drc_sequence_apply_context option res" where
  "plan_nonce account n msg = (if nonce account \<noteq> n then Err (InvalidTx msg) else Ok None)"

definition finish_sequence ::
    "address \<Rightarrow> account_state \<Rightarrow> drc_sequence_apply_context option \<Rightarrow> string
     \<Rightarrow> (write_batch \<times> account_state) res" where
  "finish_sequence owner account ctx msg =
     (case ctx of
        Some c \<Rightarrow> finish_drc_account_sequence owner account c
      | None \<Rightarrow> bind_result (ok_or (checked_add (nonce account) 1) (InvalidTx msg)) (\<lambda>n.
                  Ok ([], account\<lparr>nonce := n\<rparr>)))"

definition apply_drc_ticket_create ::
    "crypto_env \<Rightarrow> state_store \<Rightarrow> drc_ticket_create_tx \<Rightarrow> tx_auth_context
     \<Rightarrow> (write_batch \<times> account_journal \<times> u64) res" where
  "apply_drc_ticket_create env s tx auth =
     bind_result (verify_drc_ticket_create_operation env s tx auth) (\<lambda>_.
     bind_result (load_account s DRC (tc_owner tx)) (\<lambda>owner.
     if nonce owner \<noteq> tx_nonce tx then Err (InvalidTx ''bad DRC ticket-create nonce'')
     else if balance owner < tc_fee tx then Err (InvalidTx ''insufficient DRC ticket-create balance'')
     else
     bind_result (ok_or (checked_add (tx_nonce tx) 1) (InvalidTx ''DRC ticket sequence overflow''))
       (\<lambda>ticket_sequence.
     bind_result (ok_or (checked_add ticket_sequence 1) (InvalidTx ''DRC ticket-create nonce overflow''))
       (\<lambda>next_nonce.
     bind_result (load_drc_account_tickets s (tc_owner tx)) (\<lambda>tickets.
     if ticket_sequence \<in> set tickets then Err (InvalidTx ''duplicate DRC ticket sequence'')
     else if max_outstanding_tickets \<le> length tickets
     then Err (InvalidTx ''DRC outstanding ticket cap exceeded'')
     else
     bind_result (put_account_into DRC (tc_owner tx)
         (owner\<lparr>balance := balance owner - tc_fee tx, nonce := next_nonce\<rparr>)) (\<lambda>b1.
     bind_result (put_tickets_into (tc_owner tx) (sort (tickets @ [ticket_sequence]))) (\<lambda>b2.
     Ok (b1 @ b2, [(DRC, tc_owner tx, owner)], ticket_sequence))))))))"

section \<open>Transfers\<close>

definition apply_account_transfer_checked ::
    "crypto_env \<Rightarrow> state_store \<Rightarrow> account_transfer \<Rightarrow> tx_auth_context option
     \<Rightarrow> (write_batch \<times> account_journal) res" where
  "apply_account_transfer_checked env s tx auth =
     (if at_asset tx = TLT then Err (InvalidTx ''cannot account-transfer TLT'')
      else if at_amount tx = 0 then Err (InvalidTx ''zero transfer'')
      else if at_from tx = at_to tx then Err (InvalidTx ''self-transfer forbidden'')
      else
      bind_result (case auth of
          Some ctx \<Rightarrow> verify_drc_account_transfer_operation env s tx ctx
        | None \<Rightarrow> if tx_public_key tx = [] \<and> tx_signature tx = [] then Ok ()
                  else Err (InvalidTx ''account transfer requires network-bound auth'')) (\<lambda>_.
      if 3 \<le> tx_version tx \<and> at_asset tx \<noteq> DRC
      then Err (InvalidTx ''ticket-aware account transfer is DRC-only'')
      else
      bind_result (load_account s (at_asset tx) (at_from tx)) (\<lambda>from.
      bind_result (load_account s (at_asset tx) (at_to tx)) (\<lambda>to.
      bind_result (if at_asset tx = DRC then plan_drc_sequence s (at_from tx) tx 3
                   else plan_nonce from (tx_nonce tx) ''bad nonce'') (\<lambda>ctx.
      bind_result (ok_or (checked_add (balance to) (at_amount tx)) (InvalidTx ''recipient overflow'')) (\<lambda>new_to.
      bind_result (ok_or (checked_add (at_amount tx) (at_fee tx)) (InvalidTx ''amount+fee overflow'')) (\<lambda>debit.
      if balance from < debit then Err (InvalidTx ''insufficient account balance'')
      else
      bind_result (finish_sequence (at_from tx) (from\<lparr>balance := balance from - debit\<rparr>) ctx ''nonce overflow'')
        (\<lambda>(b0, from').
      bind_result (put_account_into (at_asset tx) (at_from tx) from') (\<lambda>b1.
      bind_result (put_account_into (at_asset tx) (at_to tx) (to\<lparr>balance := new_to\<rparr>)) (\<lambda>b2.
      Ok (b0 @ b1 @ b2,
          [(at_asset tx, at_from tx, from), (at_asset tx, at_to tx, to)])))))))))))"

definition apply_account_transfer ::
    "crypto_env \<Rightarrow> state_store \<Rightarrow> account_transfer \<Rightarrow> tx_auth_context
     \<Rightarrow> (write_batch \<times> account_journal) res" where
  "apply_account_transfer env s tx auth = apply_account_transfer_checked env s tx (Some auth)"

section \<open>The abstract view\<close>

definition acct :: "state_store \<Rightarrow> native_asset_id \<Rightarrow> address \<Rightarrow> account_state" where
  "acct s asset a =
     (case stored as_account s (KAccount asset a) of Some st \<Rightarrow> st | None \<Rightarrow> default_account)"

definition tickets_of :: "state_store \<Rightarrow> address \<Rightarrow> u64 list" where
  "tickets_of s a = (case stored as_tickets s (KTickets a) of Some t \<Rightarrow> dt_sequences t | None \<Rightarrow> [])"

definition total_balance :: "state_store \<Rightarrow> native_asset_id \<Rightarrow> nat" where
  "total_balance s asset = (\<Sum>a\<in>UNIV. unat (balance (acct s asset a)))"

lemma load_account_Ok:
  "load_account s asset a = Ok st \<Longrightarrow> asset \<noteq> TLT \<and> acct s asset a = st"
  by (auto simp: load_account_def acct_def stored_def split: if_splits option.splits)

lemma load_tickets_Ok:
  "load_drc_account_tickets s a = Ok ts \<Longrightarrow> tickets_of s a = ts"
  by (auto simp: load_drc_account_tickets_def tickets_of_def stored_def split: if_splits option.splits)

lemma put_account_Ok [simp]:
  "put_account_into asset a st = Ok b \<longleftrightarrow> asset \<noteq> TLT \<and> b = [Put (KAccount asset a) (VAccount st)]"
  by (auto simp: put_account_into_def)

lemma acct_frame:
  "KAccount asset a \<notin> op_key ` set b \<Longrightarrow> acct (apply_batch b s) asset a = acct s asset a"
  by (simp add: acct_def stored_def get_cf_frame)

lemma tickets_frame:
  "KTickets a \<notin> op_key ` set b \<Longrightarrow> tickets_of (apply_batch b s) a = tickets_of s a"
  by (simp add: tickets_of_def stored_def get_cf_frame)

lemma acct_put [simp]:
  "acct (AList.update (KAccount asset a) (VAccount st) s) asset' a'
     = (if asset' = asset \<and> a' = a then st else acct s asset' a')"
  by (simp add: acct_def stored_def)

lemma acct_other [simp]:
  "(\<And>asset a. k \<noteq> KAccount asset a) \<Longrightarrow> acct (AList.update k v s) = acct s"
  "(\<And>asset a. k \<noteq> KAccount asset a) \<Longrightarrow> acct (AList.delete k s) = acct s"
  by (auto simp: acct_def stored_def fun_eq_iff)

lemma tickets_put [simp]:
  "tickets_of (AList.update (KTickets a) (VTickets t) s) a' = (if a' = a then dt_sequences t else tickets_of s a')"
  "tickets_of (AList.delete (KTickets a) s) a' = (if a' = a then [] else tickets_of s a')"
  by (simp_all add: tickets_of_def stored_def)

lemma tickets_other [simp]:
  "(\<And>a. k \<noteq> KTickets a) \<Longrightarrow> tickets_of (AList.update k v s) = tickets_of s"
  "(\<And>a. k \<noteq> KTickets a) \<Longrightarrow> tickets_of (AList.delete k s) = tickets_of s"
  by (auto simp: tickets_of_def stored_def fun_eq_iff)

lemma total_balance_put:
  "total_balance (AList.update (KAccount asset a) (VAccount st) s) asset + unat (balance (acct s asset a))
     = total_balance s asset + unat (balance st)"
proof -
  have "(\<Sum>x\<in>UNIV. unat (balance (acct (AList.update (KAccount asset a) (VAccount st) s) asset x)))
      = (\<Sum>x\<in>UNIV. ((\<lambda>x. unat (balance (acct s asset x)))(a := unat (balance st))) x)"
    by (intro sum.cong) auto
  then show ?thesis
    using sum_fun_upd [of "\<lambda>x. unat (balance (acct s asset x))" a "unat (balance st)"]
    by (simp only: total_balance_def)
qed

lemma total_balance_cong:
  "(\<And>a. acct s' asset a = acct s asset a) \<Longrightarrow> total_balance s' asset = total_balance s asset"
  by (simp add: total_balance_def)

text \<open>
  What consuming a selector does: a nonce must be the current one and moves by one, a ticket must be
  outstanding and is removed. The batch touches the ticket record of the owner only.
\<close>

definition consumes ::
    "state_store \<Rightarrow> address \<Rightarrow> drc_account_sequence_selector \<Rightarrow> account_state \<Rightarrow> account_state
     \<Rightarrow> write_batch \<Rightarrow> bool" where
  "consumes s owner sel before after b \<longleftrightarrow>
     balance after = balance before \<and>
     (case sel_kind sel of
        Nonce \<Rightarrow> sel_value sel = nonce (acct s DRC owner)
                 \<and> unat (nonce after) = unat (nonce before) + 1 \<and> b = []
      | Ticket \<Rightarrow> sel_value sel \<in> set (tickets_of s owner) \<and> nonce after = nonce before
                 \<and> put_tickets_into owner (sort (filter (\<lambda>t. t \<noteq> sel_value sel) (tickets_of s owner))) = Ok b)"

definition selector_of :: "'a seq_envelope_scheme \<Rightarrow> u32 \<Rightarrow> drc_account_sequence_selector" where
  "selector_of tx ticket_version =
     (if ticket_version \<le> tx_version tx
      then (case tx_account_sequence tx of Some sel \<Rightarrow> sel | None \<Rightarrow> nonce_selector (tx_nonce tx))
      else nonce_selector (tx_nonce tx))"

lemma checked_add_1: "checked_add n 1 = Some (n' :: u64) \<Longrightarrow> unat n' = unat n + 1"
  using checked_add_Some [of n 1 n'] by simp

lemma resolve_selector_of:
  "resolve_drc_account_sequence (tx_version tx) tv (tx_nonce tx) (tx_account_sequence tx) = Ok sel
     \<Longrightarrow> sel = selector_of tx tv"
  by (auto simp: resolve_drc_account_sequence_def selector_of_def split: if_splits option.splits)

lemma begin_finish_consumes:
  assumes "begin_drc_account_sequence s owner sel = Ok ctx"
    and "finish_drc_account_sequence owner before ctx = Ok (b, after)"
  shows "consumes s owner sel before after b"
proof (cases "sel_kind sel")
  case Nonce
  with assms show ?thesis
    by (auto simp: begin_drc_account_sequence_def finish_drc_account_sequence_def
        validate_drc_account_sequence_def commit_drc_sequence_consumption_def consumes_def
        dest!: load_account_Ok load_tickets_Ok checked_add_1 split: if_splits)
next
  case Ticket
  with assms show ?thesis
    by (auto simp: begin_drc_account_sequence_def finish_drc_account_sequence_def
        validate_drc_account_sequence_def commit_drc_sequence_consumption_def consumes_def
        dest!: load_tickets_Ok split: if_splits)
qed

lemma plan_drc_consumes:
  assumes "plan_drc_sequence s owner tx tv = Ok ctx"
    and "finish_sequence owner before ctx msg = Ok (b, after)"
  shows "consumes s owner (selector_of tx tv) before after b"
  using assms begin_finish_consumes
  by (auto simp: plan_drc_sequence_def finish_sequence_def dest!: resolve_selector_of)

lemma plan_nonce_consumes:
  assumes "plan_nonce before n msg = Ok ctx" and "finish_sequence owner before' ctx msg' = Ok (b, after)"
    and "nonce before' = nonce before"
  shows "nonce before = n \<and> b = [] \<and> balance after = balance before' \<and> unat (nonce after) = unat n + 1"
  using assms by (auto simp: plan_nonce_def finish_sequence_def dest!: checked_add_1 split: if_splits)

lemma put_tickets_Ok:
  assumes "put_tickets_into owner ts = Ok b"
  shows "op_key ` set b = {KTickets owner}"
    and "tickets_of (apply_batch b s) a = (if a = owner then ts else tickets_of s a)"
    and "acct (apply_batch b s) = acct s"
  using assms by (auto simp: put_tickets_into_def Let_def split: if_splits)

lemma consumes_keys: "consumes s owner sel before after b \<Longrightarrow> op_key ` set b \<subseteq> {KTickets owner}"
  by (auto simp: consumes_def dest: put_tickets_Ok(1) split: drc_account_sequence.splits)

lemma consumes_acct: "consumes s owner sel before after b \<Longrightarrow> acct (apply_batch b s') = acct s'"
  by (auto simp: consumes_def put_tickets_Ok(3) split: drc_account_sequence.splits)

section \<open>What an accepted operation did\<close>

lemma unat_debit:
  assumes "checked_add amt fee = Some debit" and "\<not> (bal :: u64) < debit"
  shows "unat (bal - debit) + unat amt + unat fee = unat bal"
  using checked_add_Some [OF assms(1)] assms(2)
  by (simp add: not_less unat_sub_le word_le_nat_alt)

lemma transfer_Ok:
  assumes "apply_account_transfer_checked env s tx auth = Ok (b, j)"
  obtains b0 from' to' where
    "at_asset tx \<noteq> TLT" "at_amount tx \<noteq> 0" "at_from tx \<noteq> at_to tx"
    "\<And>ctx. auth = Some ctx \<Longrightarrow> verify_drc_account_transfer_operation env s tx ctx = Ok ()"
    "b = b0 @ [Put (KAccount (at_asset tx) (at_from tx)) (VAccount from'),
               Put (KAccount (at_asset tx) (at_to tx)) (VAccount to')]"
    "j = [(at_asset tx, at_from tx, acct s (at_asset tx) (at_from tx)),
          (at_asset tx, at_to tx, acct s (at_asset tx) (at_to tx))]"
    "unat (balance from') + unat (at_amount tx) + unat (at_fee tx)
       = unat (balance (acct s (at_asset tx) (at_from tx)))"
    "unat (balance to') = unat (balance (acct s (at_asset tx) (at_to tx))) + unat (at_amount tx)"
    "nonce to' = nonce (acct s (at_asset tx) (at_to tx))"
    "at_asset tx = DRC \<Longrightarrow> \<exists>before. nonce before = nonce (acct s DRC (at_from tx))
       \<and> consumes s (at_from tx) (selector_of tx 3) before from' b0"
    "at_asset tx \<noteq> DRC \<Longrightarrow> b0 = [] \<and> nonce (acct s (at_asset tx) (at_from tx)) = tx_nonce tx
       \<and> unat (nonce from') = unat (tx_nonce tx) + 1"
proof -
  let ?asset = "at_asset tx"
  from assms obtain fr to ctx new_to debit b0 from' where
    guards: "?asset \<noteq> TLT" "at_amount tx \<noteq> 0" "at_from tx \<noteq> at_to tx"
    and auth: "\<And>c. auth = Some c \<Longrightarrow> verify_drc_account_transfer_operation env s tx c = Ok ()"
    and loads: "load_account s ?asset (at_from tx) = Ok fr" "load_account s ?asset (at_to tx) = Ok to"
    and plan: "(if ?asset = DRC then plan_drc_sequence s (at_from tx) tx 3
                else plan_nonce fr (tx_nonce tx) ''bad nonce'') = Ok ctx"
    and new_to: "checked_add (balance to) (at_amount tx) = Some new_to"
    and debit: "checked_add (at_amount tx) (at_fee tx) = Some debit" "\<not> balance fr < debit"
    and fin: "finish_sequence (at_from tx) (fr\<lparr>balance := balance fr - debit\<rparr>) ctx ''nonce overflow''
                = Ok (b0, from')"
    and b: "b = b0 @ [Put (KAccount ?asset (at_from tx)) (VAccount from'),
                      Put (KAccount ?asset (at_to tx)) (VAccount (to\<lparr>balance := new_to\<rparr>))]"
    and j: "j = [(?asset, at_from tx, fr), (?asset, at_to tx, to)]"
    by (auto simp: apply_account_transfer_checked_def split: if_splits option.splits)
  have accts: "acct s ?asset (at_from tx) = fr" "acct s ?asset (at_to tx) = to"
    using loads by (simp_all add: load_account_Ok)
  have seq: "balance from' = balance fr - debit"
    "?asset = DRC \<Longrightarrow> consumes s (at_from tx) (selector_of tx 3) (fr\<lparr>balance := balance fr - debit\<rparr>) from' b0"
    "?asset \<noteq> DRC \<Longrightarrow> b0 = [] \<and> nonce fr = tx_nonce tx \<and> unat (nonce from') = unat (tx_nonce tx) + 1"
    using plan fin plan_drc_consumes [OF _ fin] plan_nonce_consumes [OF _ fin]
    by (auto simp: consumes_def split: if_splits)
  show thesis
    by (rule that [OF guards auth b]) (use accts seq j new_to debit in
        \<open>auto simp: unat_debit checked_add_Some intro!: exI [of _ "fr\<lparr>balance := balance fr - debit\<rparr>"]\<close>)
qed

lemma ticket_create_Ok:
  assumes "apply_drc_ticket_create env s tx auth = Ok (b, j, t)"
  obtains owner' b2 where
    "verify_drc_ticket_create_operation env s tx auth = Ok ()"
    "nonce (acct s DRC (tc_owner tx)) = tx_nonce tx"
    "unat t = unat (tx_nonce tx) + 1" "t \<notin> set (tickets_of s (tc_owner tx))"
    "length (tickets_of s (tc_owner tx)) < max_outstanding_tickets"
    "b = Put (KAccount DRC (tc_owner tx)) (VAccount owner') # b2"
    "put_tickets_into (tc_owner tx) (sort (tickets_of s (tc_owner tx) @ [t])) = Ok b2"
    "unat (balance owner') + unat (tc_fee tx) = unat (balance (acct s DRC (tc_owner tx)))"
    "unat (nonce owner') = unat (tx_nonce tx) + 2"
    "j = [(DRC, tc_owner tx, acct s DRC (tc_owner tx))]"
proof -
  from assms obtain owner n tickets b2 where
    ver: "verify_drc_ticket_create_operation env s tx auth = Ok ()"
    and load: "load_account s DRC (tc_owner tx) = Ok owner" "nonce owner = tx_nonce tx"
    and bal: "\<not> balance owner < tc_fee tx"
    and t: "checked_add (tx_nonce tx) 1 = Some t" and n: "checked_add t 1 = Some n"
    and tickets: "load_drc_account_tickets s (tc_owner tx) = Ok tickets" "t \<notin> set tickets"
      "\<not> max_outstanding_tickets \<le> length tickets"
    and b: "b = Put (KAccount DRC (tc_owner tx))
                  (VAccount (owner\<lparr>balance := balance owner - tc_fee tx, nonce := n\<rparr>)) # b2"
    and b2: "put_tickets_into (tc_owner tx) (sort (tickets @ [t])) = Ok b2"
    and j: "j = [(DRC, tc_owner tx, owner)]"
    by (auto simp: apply_drc_ticket_create_def split: if_splits)
  have views: "acct s DRC (tc_owner tx) = owner" "tickets_of s (tc_owner tx) = tickets"
    using load tickets by (auto dest: load_account_Ok load_tickets_Ok)
  have "unat (balance owner - tc_fee tx) + unat (tc_fee tx) = unat (balance owner)"
    using bal by (simp add: not_less unat_sub_le word_le_nat_alt)
  moreover have "unat n = unat (tx_nonce tx) + 2"
    using checked_add_1 [OF t] checked_add_1 [OF n] by simp
  ultimately show thesis
    using ver load views tickets b b2 j checked_add_1 [OF t] by (intro that) auto
qed

lemma revert_account_journal_Ok:
  "\<forall>(asset, a, st) \<in> set j. asset \<noteq> TLT \<Longrightarrow>
     revert_account_journal_into j
       = Ok (map (\<lambda>(asset, a, st). Put (KAccount asset a) (VAccount st)) (rev j))"
  by (induction j rule: revert_account_journal_into.induct) (auto simp: put_account_into_def)

text \<open>
  Undoing a journal. \<open>covers\<close> says that the journal holds the account every put of the batch
  overwrites, as it was before; then reverting restores every account as \<open>load_account\<close> reads it.
\<close>

definition journal_covers :: "account_journal \<Rightarrow> write_batch \<Rightarrow> state_store \<Rightarrow> bool" where
  "journal_covers j b s \<longleftrightarrow>
     (\<forall>(asset, a, st) \<in> set j. asset \<noteq> TLT \<and> st = acct s asset a)
     \<and> (\<forall>asset a. KAccount asset a \<in> op_key ` set b \<longrightarrow> (\<exists>st. (asset, a, st) \<in> set j))"

lemma acct_after_puts:
  "acct (apply_batch (map (\<lambda>(asset, a, st). Put (KAccount asset a) (VAccount st)) xs) s) asset a
     = (case map_of (map (\<lambda>(asset, a, st). ((asset, a), st)) (rev xs)) (asset, a) of
          Some st \<Rightarrow> st | None \<Rightarrow> acct s asset a)"
proof (induction xs arbitrary: s)
  case (Cons x xs)
  obtain asset' a' st' where "x = (asset', a', st')" by (cases x) auto
  then show ?case by (auto simp: Cons.IH map_add_def split: option.split)
qed simp

lemma journal_covers_revert:
  assumes "journal_covers j b s"
  obtains r where "revert_account_journal_into j = Ok r"
    and "\<And>asset a. acct (apply_batch r (apply_batch b s)) asset a = acct s asset a"
proof -
  let ?m = "map_of (map (\<lambda>(asset, a, st). ((asset, a), st)) j)"
  have entry: "st = acct s asset a" if "?m (asset, a) = Some st" for asset a st
    using map_of_SomeD [OF that] assms by (auto simp: journal_covers_def)
  have frame: "acct (apply_batch b s) asset a = acct s asset a" if "?m (asset, a) = None" for asset a
  proof (rule acct_frame)
    from that have "\<not> (\<exists>st. (asset, a, st) \<in> set j)" by (force simp: map_of_eq_None_iff)
    then show "KAccount asset a \<notin> op_key ` set b" using assms unfolding journal_covers_def by blast
  qed
  have "revert_account_journal_into j
      = Ok (map (\<lambda>(asset, a, st). Put (KAccount asset a) (VAccount st)) (rev j))"
    using assms by (intro revert_account_journal_Ok) (auto simp: journal_covers_def)
  then show thesis
    by (rule that) (auto simp: acct_after_puts frame dest: entry split: option.split)
qed

lemma transfer_total:
  assumes b: "b = b0 @ [Put (KAccount asset x) (VAccount x'), Put (KAccount asset y) (VAccount y')]"
    and "op_key ` set b0 \<subseteq> {KTickets x}" and "x \<noteq> y"
    and x': "unat (balance x') + amt + fee = unat (balance (acct s asset x))"
    and y': "unat (balance y') = unat (balance (acct s asset y)) + amt"
  shows "total_balance (apply_batch b s) asset + fee = total_balance s asset"
proof -
  let ?s0 = "apply_batch b0 s"
  let ?s1 = "AList.update (KAccount asset x) (VAccount x') ?s0"
  have acct0: "acct ?s0 asset a = acct s asset a" for a
    using assms(2) by (intro acct_frame) auto
  have "total_balance ?s0 asset = total_balance s asset"
    by (rule total_balance_cong) (rule acct0)
  moreover note total_balance_put [of asset x x' ?s0] total_balance_put [of asset y y' ?s1]
  ultimately show ?thesis
    using x' y' \<open>x \<noteq> y\<close> by (simp add: b acct0)
qed

section \<open>Properties\<close>

subsection \<open>Concrete inputs\<close>

text \<open>
  A signature scheme for concrete runs: a key is 33 copies of a byte, its address that byte, a
  signature 64 copies of it.
\<close>

definition demo_env :: crypto_env where
  "demo_env =
     \<lparr>borsh_to_vec = (\<lambda>vs. [of_nat (length vs)]), hash_borsh = (\<lambda>vs. of_nat (length vs) + 1),
      secp_verify = (\<lambda>pk msg sig. sig = replicate 64 (hd pk)),
      address_from_pubkey = (\<lambda>pk. ucast (hd pk))\<rparr>"

definition demo_auth :: tx_auth_context where
  "demo_auth = \<lparr>chain_id = ''agora-dev'', genesis = 0\<rparr>"

definition demo_store :: state_store where
  "demo_store = [(KAccount DRC 7, VAccount \<lparr>balance = 100, nonce = 4\<rparr>),
                 (KTickets 7, VTickets \<lparr>dt_version = 1, dt_owner = 7, dt_sequences = [1, 3]\<rparr>)]"

definition demo_transfer :: account_transfer where
  "demo_transfer = (unsigned_with_fee_v3 DRC 7 9 30 5 (ticket_selector 3))
     \<lparr>tx_public_key := replicate 33 7, tx_signature := replicate 64 7\<rparr>"

definition demo_result :: "write_batch \<times> account_journal" where
  "demo_result =
     ([Put (KTickets 7) (VTickets \<lparr>dt_version = 1, dt_owner = 7, dt_sequences = [1]\<rparr>),
       Put (KAccount DRC 7) (VAccount \<lparr>balance = 65, nonce = 4\<rparr>),
       Put (KAccount DRC 9) (VAccount \<lparr>balance = 30, nonce = 0\<rparr>)],
      [(DRC, 7, \<lparr>balance = 100, nonce = 4\<rparr>), (DRC, 9, \<lparr>balance = 0, nonce = 0\<rparr>)])"

lemma demo_run: "apply_account_transfer demo_env demo_store demo_transfer demo_auth = Ok demo_result"
  by code_simp

subsection \<open>Transfers\<close>



text \<open>
  A reorganisation undoes an accepted transfer: the batch built from its journal
  restores every account of every asset as \<open>load_account\<close> reads it.
\<close>

theorem account_transfer_revert:
  assumes "apply_account_transfer env s tx auth = Ok (b, j)"
  shows "\<exists>r. revert_account_journal_into j = Ok r
    \<and> (\<forall>asset a. acct (apply_batch r (apply_batch b s)) asset a = acct s asset a)"
proof -
  from assms obtain b0 from' to' where
    asset: "at_asset tx \<noteq> TLT"
    and b: "b = b0 @ [Put (KAccount (at_asset tx) (at_from tx)) (VAccount from'),
                      Put (KAccount (at_asset tx) (at_to tx)) (VAccount to')]"
    and j: "j = [(at_asset tx, at_from tx, acct s (at_asset tx) (at_from tx)),
                 (at_asset tx, at_to tx, acct s (at_asset tx) (at_to tx))]"
    and seq: "at_asset tx = DRC \<Longrightarrow> \<exists>before. nonce before = nonce (acct s DRC (at_from tx))
                \<and> consumes s (at_from tx) (selector_of tx 3) before from' b0"
      "at_asset tx \<noteq> DRC \<Longrightarrow> b0 = []"
    unfolding apply_account_transfer_def by (rule transfer_Ok) blast
  have keys: "op_key ` set b0 \<subseteq> {KTickets (at_from tx)}"
    using seq consumes_keys by (cases "at_asset tx = DRC") force+
  have "journal_covers j b s" using keys asset by (auto simp: journal_covers_def j b)
  then show ?thesis by (rule journal_covers_revert) blast
qed

theorem account_transfer_revert_witness:
  "\<exists>r. revert_account_journal_into (snd demo_result) = Ok r
    \<and> acct (apply_batch r (apply_batch (fst demo_result) demo_store)) DRC 7 = \<lparr>balance = 100, nonce = 4\<rparr>"
  using account_transfer_revert [of demo_env demo_store demo_transfer demo_auth "fst demo_result"
      "snd demo_result"] demo_run
  by (auto simp: demo_store_def acct_def stored_def get_cf_def)

text \<open>
  The same undo does not restore the set of existing accounts: when the recipient had
  no record before the transfer, reverting leaves an explicit all-zero record, and
  \<open>account_exists\<close> (which the policy, key and preauthorisation operations consult) answers \<open>true\<close>
  instead of \<open>false\<close>.
\<close>

theorem account_transfer_revert_leaves_account:
  assumes "apply_account_transfer env s tx auth = Ok (b, j)"
    and "get_cf s (KAccount (at_asset tx) (at_to tx)) = None"
    and "revert_account_journal_into j = Ok r"
  shows "account_exists s (at_asset tx) (at_to tx) = Ok False
    \<and> account_exists (apply_batch r (apply_batch b s)) (at_asset tx) (at_to tx) = Ok True"
proof -
  from assms(1) obtain b0 from' to' where
    asset: "at_asset tx \<noteq> TLT"
    and j: "j = [(at_asset tx, at_from tx, acct s (at_asset tx) (at_from tx)),
                 (at_asset tx, at_to tx, acct s (at_asset tx) (at_to tx))]"
    unfolding apply_account_transfer_def by (rule transfer_Ok) blast
  with assms(2,3) show ?thesis by (auto simp: account_exists_def)
qed

theorem account_transfer_revert_leaves_account_witness:
  "account_exists demo_store DRC 9 = Ok False
   \<and> account_exists (apply_batch [Put (KAccount DRC 9) (VAccount \<lparr>balance = 0, nonce = 0\<rparr>),
                                  Put (KAccount DRC 7) (VAccount \<lparr>balance = 100, nonce = 4\<rparr>)]
                       (apply_batch (fst demo_result) demo_store)) DRC 9 = Ok True"
  using account_transfer_revert_leaves_account [of demo_env demo_store demo_transfer demo_auth
      "fst demo_result" "snd demo_result"
      "[Put (KAccount DRC 9) (VAccount \<lparr>balance = 0, nonce = 0\<rparr>),
        Put (KAccount DRC 7) (VAccount \<lparr>balance = 100, nonce = 4\<rparr>)]"] demo_run
  by (simp add: demo_transfer_def unsigned_with_fee_v3_def demo_store_def get_cf_def demo_result_def
      put_account_into_def)

text \<open>
  Property C10. No transfer is accepted without authority over the sender: for OVL the signature of
  the sender's own key over exactly this transfer, for DRC the \<open>authorised\<close> condition (master key
  unless disabled, regular key, or a quorum of the signer list).
\<close>

theorem account_transfer_authorised:
  assumes "apply_account_transfer env s tx auth = Ok (b, j)"
  shows "\<exists>op. transfer_signing_bytes env tx auth = Ok op
    \<and> (if at_asset tx = DRC
       then authorised env s (at_from tx) (tx_public_key tx) (tx_signature tx) (tx_multisign tx) op auth
       else secp_verify env (tx_public_key tx) op (tx_signature tx)
            \<and> address_from_pubkey env (tx_public_key tx) = at_from tx)"
proof -
  from assms have "verify_drc_account_transfer_operation env s tx auth = Ok ()"
    unfolding apply_account_transfer_def by (rule transfer_Ok) blast
  then show ?thesis
    by (auto simp: verify_drc_account_transfer_operation_def verify_envelope_def verify_master_signature_def
        verify_bound_Ok dest: verify_multisign_or_single_sound split: if_splits)
qed

theorem account_transfer_authorised_witness:
  "\<exists>op. transfer_signing_bytes demo_env demo_transfer demo_auth = Ok op
    \<and> authorised demo_env demo_store 7 (replicate 33 7) (replicate 64 7) None op demo_auth"
  using account_transfer_authorised [of demo_env demo_store demo_transfer demo_auth "fst demo_result"
      "snd demo_result"] demo_run
  by (simp add: demo_transfer_def unsigned_with_fee_v3_def)

end
