(* ===== verification/Drc_Policy.thy ===== *)
theory Drc_Policy
  imports Accounts
begin

text \<open>
  Owner-controlled DRC account state: recipient policy and master-key switch, deposit
  preauthorisations, regular keys and weighted signer lists (\<^verbatim>\<open>state-machine/src/drc_policy.rs\<close>,
  \<^verbatim>\<open>drc_deposit_preauth.rs\<close>, \<^verbatim>\<open>drc_regular_key.rs\<close>, \<^verbatim>\<open>drc_signer_list.rs\<close> and the no-lockout guards of
  \<^verbatim>\<open>drc_master_key_recovery.rs\<close>).

  All four operations follow one scheme: authorise, check the sequence, check the fee, charge the
  owner (\<open>charge_owner\<close>) and write one record. The main results: an account whose master key is
  disabled always keeps a regular key or a signer list, the master key can only be disabled by
  itself, and the policy record has one encoding per meaning.
\<close>

section \<open>Charging the owner\<close>

definition plan_owner_sequence ::
    "state_store \<Rightarrow> address \<Rightarrow> 'a seq_envelope_scheme \<Rightarrow> u32 \<Rightarrow> account_state \<Rightarrow> string
     \<Rightarrow> drc_sequence_apply_context option res" where
  "plan_owner_sequence s owner tx ticket_version account msg =
     (if ticket_version \<le> tx_version tx then plan_drc_sequence s owner tx ticket_version
      else plan_nonce account (tx_nonce tx) msg)"

definition charge_owner ::
    "address \<Rightarrow> account_state \<Rightarrow> amount \<Rightarrow> drc_sequence_apply_context option \<Rightarrow> string
     \<Rightarrow> (write_batch \<times> account_journal) res" where
  "charge_owner owner account fee ctx msg =
     bind_result (finish_sequence owner (account\<lparr>balance := balance account - fee\<rparr>) ctx msg) (\<lambda>(b0, account').
     bind_result (put_account_into DRC owner account') (\<lambda>b1.
     Ok (b0 @ b1, [(DRC, owner, account)])))"

section \<open>Account policy\<close>

definition update_policy :: "drc_account_policy_action \<Rightarrow> drc_account_policy \<Rightarrow> drc_account_policy" where
  "update_policy action p =
     (let p1 = (case destination_tag_requirement action of
                  Some v \<Rightarrow> p\<lparr>ap_require_destination_tag := v\<rparr> | None \<Rightarrow> p);
          p2 = (case deposit_auth_requirement action of
                  Some v \<Rightarrow> p1\<lparr>ap_deposit_auth_required := v\<rparr> | None \<Rightarrow> p1);
          p3 = (case master_key_disabled_requirement action of
                  Some v \<Rightarrow> p2\<lparr>ap_master_key_disabled := v\<rparr> | None \<Rightarrow> p2)
      in p3\<lparr>ap_version := canonical_state_version p3\<rparr>)"

definition policy_writes :: "address \<Rightarrow> drc_account_policy \<Rightarrow> write_batch" where
  "policy_writes account p =
     (if ap_require_destination_tag p \<or> ap_deposit_auth_required p \<or> ap_master_key_disabled p
      then [Put (KPolicy account) (VPolicy p)] else [Delete (KPolicy account)])"

definition apply_drc_account_policy ::
    "crypto_env \<Rightarrow> state_store \<Rightarrow> drc_account_policy_tx \<Rightarrow> tx_auth_context
     \<Rightarrow> (write_batch \<times> account_journal \<times> drc_account_policy) res" where
  "apply_drc_account_policy env s tx auth =
     bind_result (map_err InvalidTx (validate_policy_version tx)) (\<lambda>_.
     bind_result (verify_drc_account_policy_operation env s tx auth) (\<lambda>_.
     bind_result (if deposit_auth_requirement (pt_action tx) \<noteq> None
                  then account_exists s DRC (pt_account tx) else Ok True) (\<lambda>known.
     if \<not> known then Err (InvalidTx ''unknown DRC DepositAuth policy owner'')
     else
     bind_result (load_account s DRC (pt_account tx)) (\<lambda>account.
     bind_result (plan_owner_sequence s (pt_account tx) tx 4 account ''bad DRC account-policy nonce'') (\<lambda>ctx.
     if balance account < pt_fee tx then Err (InvalidTx ''insufficient DRC account-policy balance'')
     else
     bind_result (load_drc_account_policy s (pt_account tx)) (\<lambda>old.
     let policy = update_policy (pt_action tx) old in
     bind_result (map_err InvalidTx (validate_account_policy policy)) (\<lambda>_.
     bind_result (charge_owner (pt_account tx) account (pt_fee tx) ctx ''DRC account-policy nonce overflow'')
       (\<lambda>(b, j).
     Ok (b @ policy_writes (pt_account tx) policy, j, policy)))))))))"

definition load_known_drc_account_policy ::
    "state_store \<Rightarrow> address \<Rightarrow> (drc_account_policy \<times> account_state) option res" where
  "load_known_drc_account_policy s account =
     (if get_cf s (KAccount DRC account) = None \<and> get_cf s (KPolicy account) = None then Ok None
      else bind_result (load_drc_account_policy s account) (\<lambda>p.
           bind_result (load_account s DRC account) (\<lambda>a. Ok (Some (p, a)))))"

text \<open>
  The hand-written Borsh codec of a policy, as the sequence of primitive values it writes and reads (a
  Boolean is one byte). Reading a whole slice rejects left-over values.
\<close>

definition borsh_bool :: "bool \<Rightarrow> borsh_val" where
  "borsh_bool v = BU8 (if v then 1 else 0)"

fun read_bool :: "borsh_val list \<Rightarrow> (bool \<times> borsh_val list) option" where
  "read_bool (BU8 x # vs) = (if x = 0 then Some (False, vs) else if x = 1 then Some (True, vs) else None)"
| "read_bool _ = None"

fun read_u32 :: "borsh_val list \<Rightarrow> (u32 \<times> borsh_val list) option" where
  "read_u32 (BU32 x # vs) = Some (x, vs)"
| "read_u32 _ = None"

definition policy_serialize :: "drc_account_policy \<Rightarrow> string + borsh_val list" where
  "policy_serialize p =
     bind_result (validate_account_policy p) (\<lambda>_.
       let version = canonical_state_version p in
       Ok ([BU32 version, borsh_bool (ap_require_destination_tag p)]
           @ (if 2 \<le> version then [borsh_bool (ap_deposit_auth_required p)] else [])
           @ (if 3 \<le> version then [borsh_bool (ap_master_key_disabled p)] else [])))"

definition policy_deserialize :: "borsh_val list \<Rightarrow> string + drc_account_policy" where
  "policy_deserialize vs =
     bind_result (ok_or (read_u32 vs) ''unexpected length of input'') (\<lambda>(version, vs1).
     bind_result (ok_or (read_bool vs1) ''invalid bool'') (\<lambda>(tag, vs2).
     bind_result
       (if version = 1 then Ok ((False, False), vs2)
        else if version = 2
        then bind_result (ok_or (read_bool vs2) ''invalid bool'') (\<lambda>(dep, vs3). Ok ((dep, False), vs3))
        else if version = 3
        then bind_result (ok_or (read_bool vs2) ''invalid bool'') (\<lambda>(dep, vs3).
             bind_result (ok_or (read_bool vs3) ''invalid bool'') (\<lambda>(mas, vs4). Ok ((dep, mas), vs4)))
        else Err ''unsupported DRC account-policy state version'') (\<lambda>((dep, mas), rest).
     if rest \<noteq> [] then Err ''not all bytes read''
     else Ok \<lparr>ap_version = version, ap_require_destination_tag = tag, ap_deposit_auth_required = dep,
              ap_master_key_disabled = mas\<rparr>)))"

section \<open>Deposit preauthorisation\<close>

record drc_deposit_authorization =
  da_preauthorized :: bool
  da_deposit_auth_required :: bool
  da_deposit_authorized :: bool

definition load_drc_deposit_preauth :: "state_store \<Rightarrow> address \<Rightarrow> address \<Rightarrow> bool res" where
  "load_drc_deposit_preauth s owner src =
     (case get_cf s (KPreauth owner src) of
        None \<Rightarrow> Ok False
      | Some v \<Rightarrow> bind_result (decode_as as_preauth v) (\<lambda>record.
                    bind_result (map_err Storage (validate_deposit_preauth record)) (\<lambda>_.
                      if dp_owner record \<noteq> owner \<or> dp_authorized_source record \<noteq> src
                      then Err (Storage ''DRC deposit-preauthorization record does not match index key'')
                      else Ok True)))"

definition load_known_drc_deposit_authorization ::
    "state_store \<Rightarrow> address \<Rightarrow> address \<Rightarrow> drc_deposit_authorization option res" where
  "load_known_drc_deposit_authorization s owner src =
     bind_result (account_exists s DRC owner) (\<lambda>ex1.
     bind_result (if ex1 then account_exists s DRC src else Ok False) (\<lambda>ex2.
     if \<not> ex2 then Ok None
     else
     bind_result (load_drc_account_policy s owner) (\<lambda>policy.
     bind_result (load_drc_deposit_preauth s owner src) (\<lambda>preauthorized.
     Ok (Some \<lparr>da_preauthorized = preauthorized,
               da_deposit_auth_required = ap_deposit_auth_required policy,
               da_deposit_authorized = (owner = src \<or> \<not> ap_deposit_auth_required policy \<or> preauthorized)\<rparr>)))))"

definition apply_drc_deposit_preauth ::
    "crypto_env \<Rightarrow> state_store \<Rightarrow> drc_deposit_preauth_tx \<Rightarrow> tx_auth_context
     \<Rightarrow> (write_batch \<times> account_journal \<times> bool) res" where
  "apply_drc_deposit_preauth env s tx auth =
     bind_result (map_err InvalidTx (validate_preauth_structure tx)) (\<lambda>_.
     bind_result (verify_drc_deposit_preauth_operation env s tx auth) (\<lambda>_.
     bind_result (account_exists s DRC (dpt_owner tx)) (\<lambda>known.
     if \<not> known then Err (InvalidTx ''unknown DRC deposit-preauthorization owner'')
     else
     bind_result (account_exists s DRC (dpt_source tx)) (\<lambda>known_source.
     if \<not> known_source then Err (InvalidTx ''unknown DRC deposit-preauthorization source'')
     else
     bind_result (load_drc_deposit_preauth s (dpt_owner tx) (dpt_source tx)) (\<lambda>present.
     if dpt_action tx = Authorize \<and> present
     then Err (InvalidTx ''duplicate DRC deposit preauthorization'')
     else if dpt_action tx = Unauthorize \<and> \<not> present
     then Err (InvalidTx ''missing DRC deposit preauthorization'')
     else
     bind_result (load_account s DRC (dpt_owner tx)) (\<lambda>owner.
     bind_result (plan_owner_sequence s (dpt_owner tx) tx 2 owner
         ''bad DRC deposit-preauthorization nonce'') (\<lambda>ctx.
     if balance owner < dpt_fee tx
     then Err (InvalidTx ''insufficient DRC deposit-preauthorization balance'')
     else
     bind_result (charge_owner (dpt_owner tx) owner (dpt_fee tx) ctx
         ''DRC deposit-preauthorization nonce overflow'') (\<lambda>(b, j).
     case dpt_action tx of
       Authorize \<Rightarrow>
         Ok (b @ [Put (KPreauth (dpt_owner tx) (dpt_source tx))
                    (VPreauth (new_deposit_preauth (dpt_owner tx) (dpt_source tx)))], j, True)
     | Unauthorize \<Rightarrow>
         Ok (b @ [Delete (KPreauth (dpt_owner tx) (dpt_source tx))], j, False)))))))))"

section \<open>Regular keys\<close>

definition load_known_drc_account_keys :: "state_store \<Rightarrow> address \<Rightarrow> (address option \<times> u64) option res" where
  "load_known_drc_account_keys s owner =
     bind_result (account_exists s DRC owner) (\<lambda>known.
     if \<not> known then Ok None
     else
     bind_result (load_drc_account_regular_key s owner) (\<lambda>r.
     bind_result (load_account s DRC owner) (\<lambda>account. Ok (Some (r, nonce account)))))"

definition ensure_no_lockout_after_regular_key :: "state_store \<Rightarrow> drc_regular_key_tx \<Rightarrow> unit res" where
  "ensure_no_lockout_after_regular_key s tx =
     bind_result (drc_master_key_disabled s (rk_owner tx)) (\<lambda>d.
     if \<not> d then Ok ()
     else
     bind_result (load_drc_account_signer_list s (rk_owner tx)) (\<lambda>after_list.
     ensure_alternate_recovery
       (case rk_action tx of RegularSet \<Rightarrow> Some (rk_regular_key tx) | RegularClear \<Rightarrow> None) after_list))"

definition apply_drc_regular_key ::
    "crypto_env \<Rightarrow> state_store \<Rightarrow> drc_regular_key_tx \<Rightarrow> tx_auth_context
     \<Rightarrow> (write_batch \<times> account_journal \<times> address option) res" where
  "apply_drc_regular_key env s tx auth =
     bind_result (verify_drc_regular_key_operation env s tx auth) (\<lambda>_.
     bind_result (ensure_no_lockout_after_regular_key s tx) (\<lambda>_.
     bind_result (account_exists s DRC (rk_owner tx)) (\<lambda>known.
     if \<not> known then Err (InvalidTx ''unknown DRC regular-key owner'')
     else
     bind_result (load_drc_account_regular_key s (rk_owner tx)) (\<lambda>_.
     bind_result (load_account s DRC (rk_owner tx)) (\<lambda>owner.
     bind_result (plan_owner_sequence s (rk_owner tx) tx 2 owner ''bad DRC regular-key nonce'') (\<lambda>ctx.
     if balance owner < rk_fee tx then Err (InvalidTx ''insufficient DRC regular-key balance'')
     else
     bind_result (charge_owner (rk_owner tx) owner (rk_fee tx) ctx ''DRC regular-key nonce overflow'')
       (\<lambda>(b, j).
     case rk_action tx of
       RegularSet \<Rightarrow>
         Ok (b @ [Put (KRegularKey (rk_owner tx))
                    (VRegularKey (new_regular_key (rk_owner tx) (rk_regular_key tx)))], j,
             Some (rk_regular_key tx))
     | RegularClear \<Rightarrow> Ok (b @ [Delete (KRegularKey (rk_owner tx))], j, None))))))))"

section \<open>Signer lists\<close>

definition load_known_drc_account_signer_summary ::
    "state_store \<Rightarrow> address \<Rightarrow> (u32 \<times> u32 \<times> u64) option res" where
  "load_known_drc_account_signer_summary s owner =
     bind_result (account_exists s DRC owner) (\<lambda>known.
     if \<not> known then Ok None
     else
     bind_result (load_drc_account_signer_list s owner) (\<lambda>l.
     bind_result (load_account s DRC owner) (\<lambda>account.
     Ok (Some (case l of
                 None \<Rightarrow> (0, 0, nonce account)
               | Some x \<Rightarrow> (asl_quorum x, of_nat (length (asl_entries x)), nonce account))))))"

definition new_signer_list :: "drc_signer_list_tx \<Rightarrow> drc_account_signer_list" where
  "new_signer_list tx =
     \<lparr>asl_version = 1, asl_owner = slt_owner tx, asl_quorum = slt_quorum tx,
      asl_entries = canonical_sorted_entries (slt_entries tx)\<rparr>"

definition ensure_no_lockout_after_signer_list :: "state_store \<Rightarrow> drc_signer_list_tx \<Rightarrow> unit res" where
  "ensure_no_lockout_after_signer_list s tx =
     bind_result (drc_master_key_disabled s (slt_owner tx)) (\<lambda>d.
     if \<not> d then Ok ()
     else
     bind_result (load_drc_account_regular_key s (slt_owner tx)) (\<lambda>after_regular.
     ensure_alternate_recovery after_regular
       (case slt_action tx of ListSet \<Rightarrow> Some (new_signer_list tx) | ListDelete \<Rightarrow> None)))"

definition apply_drc_signer_list ::
    "crypto_env \<Rightarrow> state_store \<Rightarrow> drc_signer_list_tx \<Rightarrow> tx_auth_context
     \<Rightarrow> (write_batch \<times> account_journal \<times> drc_account_signer_list option) res" where
  "apply_drc_signer_list env s tx auth =
     bind_result (verify_drc_signer_list_operation env s tx auth) (\<lambda>_.
     bind_result (ensure_no_lockout_after_signer_list s tx) (\<lambda>_.
     bind_result (account_exists s DRC (slt_owner tx)) (\<lambda>known.
     if \<not> known then Err (InvalidTx ''unknown DRC signer-list owner'')
     else
     bind_result (load_account s DRC (slt_owner tx)) (\<lambda>owner.
     bind_result (plan_owner_sequence s (slt_owner tx) tx 2 owner ''bad DRC signer-list nonce'') (\<lambda>ctx.
     if balance owner < slt_fee tx then Err (InvalidTx ''insufficient DRC signer-list balance'')
     else
     bind_result (charge_owner (slt_owner tx) owner (slt_fee tx) ctx ''DRC signer-list nonce overflow'')
       (\<lambda>(b, j).
     case slt_action tx of
       ListSet \<Rightarrow>
         bind_result (map_err InvalidTx (validate_account_signer_list (new_signer_list tx))) (\<lambda>_.
           Ok (b @ [Put (KSignerList (slt_owner tx)) (VSignerList (new_signer_list tx))], j,
               Some (new_signer_list tx)))
     | ListDelete \<Rightarrow> Ok (b @ [Delete (KSignerList (slt_owner tx))], j, None)))))))"

section \<open>What an accepted owner operation did\<close>

text \<open>
  \<open>charged\<close>: the batch and journal of an owner who paid a fee and consumed a selector. It is the
  common part of every accepted operation below and of the escrow operations.
\<close>

definition charged ::
    "state_store \<Rightarrow> address \<Rightarrow> drc_account_sequence_selector \<Rightarrow> nat \<Rightarrow> write_batch \<Rightarrow> account_journal \<Rightarrow> bool" where
  "charged s owner sel paid b j \<longleftrightarrow>
     (\<exists>b0 before after.
        b = b0 @ [Put (KAccount DRC owner) (VAccount after)]
        \<and> j = [(DRC, owner, acct s DRC owner)]
        \<and> nonce before = nonce (acct s DRC owner)
        \<and> unat (balance after) + paid = unat (balance (acct s DRC owner))
        \<and> consumes s owner sel before after b0)"

lemma chargedE:
  assumes "charged s owner sel paid b j"
  obtains b0 before after where
    "b = b0 @ [Put (KAccount DRC owner) (VAccount after)]"
    "j = [(DRC, owner, acct s DRC owner)]"
    "nonce before = nonce (acct s DRC owner)"
    "unat (balance after) + paid = unat (balance (acct s DRC owner))"
    "consumes s owner sel before after b0"
  using assms unfolding charged_def by blast

lemma plan_owner_consumes:
  assumes "plan_owner_sequence s owner tx tv (acct s DRC owner) msg = Ok ctx"
    and "finish_sequence owner before ctx msg' = Ok (b, after)"
    and "nonce before = nonce (acct s DRC owner)"
  shows "consumes s owner (selector_of tx tv) before after b"
proof (cases "tv \<le> tx_version tx")
  case True
  with assms show ?thesis by (simp add: plan_owner_sequence_def plan_drc_consumes)
next
  case False
  with assms(1) have "plan_nonce (acct s DRC owner) (tx_nonce tx) msg = Ok ctx"
    by (simp add: plan_owner_sequence_def)
  from plan_nonce_consumes [OF this assms(2,3)] False assms(3) show ?thesis
    by (simp add: consumes_def selector_of_def nonce_selector_def)
qed

lemma charge_owner_charged:
  assumes "load_account s DRC owner = Ok account"
    and "plan_owner_sequence s owner tx tv account msg = Ok ctx"
    and "\<not> balance account < fee"
    and "charge_owner owner account fee ctx msg' = Ok (b, j)"
  shows "charged s owner (selector_of tx tv) (unat fee) b j"
proof -
  have acct: "acct s DRC owner = account" using assms(1) by (simp add: load_account_Ok)
  from assms(4) obtain b0 account' where
    fin: "finish_sequence owner (account\<lparr>balance := balance account - fee\<rparr>) ctx msg' = Ok (b0, account')"
    and b: "b = b0 @ [Put (KAccount DRC owner) (VAccount account')]" and j: "j = [(DRC, owner, account)]"
    by (auto simp: charge_owner_def)
  have "consumes s owner (selector_of tx tv) (account\<lparr>balance := balance account - fee\<rparr>) account' b0"
    by (rule plan_owner_consumes [OF _ fin]) (use assms(2) acct in simp_all)
  moreover from this have "unat (balance account') + unat fee = unat (balance account)"
    using assms(3) by (simp add: consumes_def not_less unat_sub_le word_le_nat_alt)
  ultimately show ?thesis
    unfolding charged_def using b j acct
    by (intro exI [of _ b0] exI [of _ "account\<lparr>balance := balance account - fee\<rparr>"] exI [of _ account']) simp
qed

lemma charged_keys:
  "charged s owner sel paid b j \<Longrightarrow> op_key ` set b \<subseteq> {KAccount DRC owner, KTickets owner}"
  by (erule chargedE) (auto dest: consumes_keys)

lemma charged_frame:
  "charged s owner sel paid b j \<Longrightarrow> k \<noteq> KAccount DRC owner \<Longrightarrow> k \<noteq> KTickets owner \<Longrightarrow>
     get_cf (apply_batch b s') k = get_cf s' k"
  by (rule get_cf_frame) (use charged_keys in blast)

lemma charged_acct:
  assumes "charged s owner sel paid b j"
  obtains after where
    "unat (balance after) + paid = unat (balance (acct s DRC owner))"
    "\<And>asset a. acct (apply_batch b s) asset a = (if asset = DRC \<and> a = owner then after else acct s asset a)"
  using assms by (elim chargedE) (auto simp: consumes_acct)

lemma charged_total:
  assumes "charged s owner sel paid b j"
  shows "total_balance (apply_batch b s) DRC + paid = total_balance s DRC"
  using assms
proof (rule chargedE)
  fix b0 before after
  assume b: "b = b0 @ [Put (KAccount DRC owner) (VAccount after)]"
    and bal: "unat (balance after) + paid = unat (balance (acct s DRC owner))"
    and c: "consumes s owner sel before after b0"
  have acct0: "acct (apply_batch b0 s) = acct s" by (rule consumes_acct [OF c])
  then have "total_balance (apply_batch b0 s) DRC = total_balance s DRC" by (simp add: total_balance_def)
  with total_balance_put [of DRC owner after "apply_batch b0 s"] bal acct0 show ?thesis by (simp add: b)
qed

lemma charged_covers:
  "charged s owner sel paid b j \<Longrightarrow> journal_covers j b s"
  by (erule chargedE) (auto simp: journal_covers_def dest: consumes_keys)

lemma charged_revert:
  assumes "charged s owner sel paid b j" and "\<And>asset a. KAccount asset a \<notin> op_key ` set b'"
  shows "\<exists>r. revert_account_journal_into j = Ok r
    \<and> (\<forall>asset a. acct (apply_batch r (apply_batch (b @ b') s)) asset a = acct s asset a)"
proof -
  from charged_covers [OF assms(1)] have "journal_covers j (b @ b') s"
    using assms(2) unfolding journal_covers_def by (auto simp: image_Un)
  then show ?thesis by (rule journal_covers_revert) blast
qed

lemma policy_Ok:
  assumes "apply_drc_account_policy env s tx auth = Ok (b, j, p)"
  obtains b0 old where
    "verify_drc_account_policy_operation env s tx auth = Ok ()"
    "charged s (pt_account tx) (selector_of tx 4) (unat (pt_fee tx)) b0 j"
    "load_drc_account_policy s (pt_account tx) = Ok old" "p = update_policy (pt_action tx) old"
    "b = b0 @ policy_writes (pt_account tx) p"
proof -
  from assms obtain account ctx old b0 where
    ver: "verify_drc_account_policy_operation env s tx auth = Ok ()"
    and load: "load_account s DRC (pt_account tx) = Ok account"
    and plan: "plan_owner_sequence s (pt_account tx) tx 4 account ''bad DRC account-policy nonce'' = Ok ctx"
    and bal: "\<not> balance account < pt_fee tx"
    and old: "load_drc_account_policy s (pt_account tx) = Ok old"
    and charge: "charge_owner (pt_account tx) account (pt_fee tx) ctx ''DRC account-policy nonce overflow'' = Ok (b0, j)"
    and p: "p = update_policy (pt_action tx) old" and b: "b = b0 @ policy_writes (pt_account tx) p"
    by (auto simp: apply_drc_account_policy_def Let_def split: if_splits)
  from that [OF ver charge_owner_charged [OF load plan bal charge] old p b] show thesis .
qed

lemma preauth_Ok:
  assumes "apply_drc_deposit_preauth env s tx auth = Ok (b, j, r)"
  obtains b0 where
    "verify_drc_deposit_preauth_operation env s tx auth = Ok ()"
    "charged s (dpt_owner tx) (selector_of tx 2) (unat (dpt_fee tx)) b0 j"
    "b = b0 @ (case dpt_action tx of
        Authorize \<Rightarrow> [Put (KPreauth (dpt_owner tx) (dpt_source tx))
                        (VPreauth (new_deposit_preauth (dpt_owner tx) (dpt_source tx)))]
      | Unauthorize \<Rightarrow> [Delete (KPreauth (dpt_owner tx) (dpt_source tx))])"
    "r \<longleftrightarrow> dpt_action tx = Authorize"
proof -
  from assms obtain account ctx b0 where
    ver: "verify_drc_deposit_preauth_operation env s tx auth = Ok ()"
    and load: "load_account s DRC (dpt_owner tx) = Ok account"
    and plan: "plan_owner_sequence s (dpt_owner tx) tx 2 account ''bad DRC deposit-preauthorization nonce'' = Ok ctx"
    and bal: "\<not> balance account < dpt_fee tx"
    and charge: "charge_owner (dpt_owner tx) account (dpt_fee tx) ctx
                   ''DRC deposit-preauthorization nonce overflow'' = Ok (b0, j)"
    and b: "b = b0 @ (case dpt_action tx of
        Authorize \<Rightarrow> [Put (KPreauth (dpt_owner tx) (dpt_source tx))
                        (VPreauth (new_deposit_preauth (dpt_owner tx) (dpt_source tx)))]
      | Unauthorize \<Rightarrow> [Delete (KPreauth (dpt_owner tx) (dpt_source tx))])"
    and r: "r \<longleftrightarrow> dpt_action tx = Authorize"
    by (cases "dpt_action tx") (auto simp: apply_drc_deposit_preauth_def split: if_splits)
  from that [OF ver charge_owner_charged [OF load plan bal charge] b r] show thesis .
qed

lemma regular_key_Ok:
  assumes "apply_drc_regular_key env s tx auth = Ok (b, j, r)"
  obtains b0 where
    "verify_drc_regular_key_operation env s tx auth = Ok ()"
    "ensure_no_lockout_after_regular_key s tx = Ok ()"
    "charged s (rk_owner tx) (selector_of tx 2) (unat (rk_fee tx)) b0 j"
    "b = b0 @ (case rk_action tx of
        RegularSet \<Rightarrow> [Put (KRegularKey (rk_owner tx))
                        (VRegularKey (new_regular_key (rk_owner tx) (rk_regular_key tx)))]
      | RegularClear \<Rightarrow> [Delete (KRegularKey (rk_owner tx))])"
proof -
  from assms obtain account ctx b0 where
    ver: "verify_drc_regular_key_operation env s tx auth = Ok ()"
    and lock: "ensure_no_lockout_after_regular_key s tx = Ok ()"
    and load: "load_account s DRC (rk_owner tx) = Ok account"
    and plan: "plan_owner_sequence s (rk_owner tx) tx 2 account ''bad DRC regular-key nonce'' = Ok ctx"
    and bal: "\<not> balance account < rk_fee tx"
    and charge: "charge_owner (rk_owner tx) account (rk_fee tx) ctx ''DRC regular-key nonce overflow'' = Ok (b0, j)"
    and b: "b = b0 @ (case rk_action tx of
        RegularSet \<Rightarrow> [Put (KRegularKey (rk_owner tx))
                        (VRegularKey (new_regular_key (rk_owner tx) (rk_regular_key tx)))]
      | RegularClear \<Rightarrow> [Delete (KRegularKey (rk_owner tx))])"
    by (cases "rk_action tx") (auto simp: apply_drc_regular_key_def split: if_splits)
  from that [OF ver lock charge_owner_charged [OF load plan bal charge] b] show thesis .
qed

lemma signer_list_Ok:
  assumes "apply_drc_signer_list env s tx auth = Ok (b, j, r)"
  obtains b0 where
    "verify_drc_signer_list_operation env s tx auth = Ok ()"
    "ensure_no_lockout_after_signer_list s tx = Ok ()"
    "charged s (slt_owner tx) (selector_of tx 2) (unat (slt_fee tx)) b0 j"
    "b = b0 @ (case slt_action tx of
        ListSet \<Rightarrow> [Put (KSignerList (slt_owner tx)) (VSignerList (new_signer_list tx))]
      | ListDelete \<Rightarrow> [Delete (KSignerList (slt_owner tx))])"
    "slt_action tx = ListSet \<Longrightarrow> validate_account_signer_list (new_signer_list tx) = Ok ()"
proof -
  from assms obtain account ctx b0 where
    ver: "verify_drc_signer_list_operation env s tx auth = Ok ()"
    and lock: "ensure_no_lockout_after_signer_list s tx = Ok ()"
    and load: "load_account s DRC (slt_owner tx) = Ok account"
    and plan: "plan_owner_sequence s (slt_owner tx) tx 2 account ''bad DRC signer-list nonce'' = Ok ctx"
    and bal: "\<not> balance account < slt_fee tx"
    and charge: "charge_owner (slt_owner tx) account (slt_fee tx) ctx ''DRC signer-list nonce overflow'' = Ok (b0, j)"
    and b: "b = b0 @ (case slt_action tx of
        ListSet \<Rightarrow> [Put (KSignerList (slt_owner tx)) (VSignerList (new_signer_list tx))]
      | ListDelete \<Rightarrow> [Delete (KSignerList (slt_owner tx))])"
    and val: "slt_action tx = ListSet \<Longrightarrow> validate_account_signer_list (new_signer_list tx) = Ok ()"
    by (cases "slt_action tx") (auto simp: apply_drc_signer_list_def split: if_splits)
  from that [OF ver lock charge_owner_charged [OF load plan bal charge] b val] show thesis .
qed

section \<open>Authority\<close>

lemma envelope_authorised:
  "verify_envelope env s tx owner op auth forbidden = Ok () \<Longrightarrow>
     authorised env s owner (tx_public_key tx) (tx_signature tx) (tx_multisign tx) op auth"
  by (simp add: verify_envelope_def verify_multisign_or_single_sound)

lemma operator_authorised:
  assumes "verify_bound_secp256k1 env (tx_public_key tx) (tx_signature tx) op = Ok signer"
    and "authorize_drc_account_operator s owner signer = Ok ()" and "tx_multisign tx = None"
  shows "authorised env s owner (tx_public_key tx) (tx_signature tx) (tx_multisign tx) op auth"
  using assms
  by (auto simp: authorised_def verify_bound_Ok authorize_drc_account_operator_def
      dest: drc_master_key_disabled_Ok load_regular_key_of split: if_splits option.splits)

lemma ticket_create_authorised:
  "verify_drc_ticket_create_operation env s tx auth = Ok () \<Longrightarrow>
     authorised env s (tc_owner tx) (tx_public_key tx) (tx_signature tx) (tx_multisign tx)
       (ticket_create_signing_bytes env tx auth) auth"
  by (auto simp: verify_drc_ticket_create_operation_def Let_def dest: envelope_authorised)

lemma preauth_authorised:
  "verify_drc_deposit_preauth_operation env s tx auth = Ok () \<Longrightarrow>
     \<exists>op. preauth_signing_bytes env tx auth = Ok op \<and>
       authorised env s (dpt_owner tx) (tx_public_key tx) (tx_signature tx) (tx_multisign tx) op auth"
  by (auto simp: verify_drc_deposit_preauth_operation_def dest: envelope_authorised)

lemma regular_key_authorised:
  "verify_drc_regular_key_operation env s tx auth = Ok () \<Longrightarrow>
     \<exists>op. regular_key_signing_bytes env tx auth = Ok op \<and>
       authorised env s (rk_owner tx) (tx_public_key tx) (tx_signature tx) (tx_multisign tx) op auth"
  by (auto simp: verify_drc_regular_key_operation_def dest: envelope_authorised)

lemma signer_list_authorised:
  assumes "verify_drc_signer_list_operation env s tx auth = Ok ()"
  shows "\<exists>op. signer_list_signing_bytes env tx auth = Ok op \<and>
       authorised env s (slt_owner tx) (tx_public_key tx) (tx_signature tx) (tx_multisign tx) op auth"
proof (cases "tx_multisign tx = None")
  case True
  with assms obtain op signer where "signer_list_signing_bytes env tx auth = Ok op"
    "verify_bound_secp256k1 env (tx_public_key tx) (tx_signature tx) op = Ok signer"
    "authorize_drc_account_operator s (slt_owner tx) signer = Ok ()"
    by (auto simp: verify_drc_signer_list_operation_def)
  with True show ?thesis using operator_authorised by blast
next
  case False
  with assms show ?thesis
    by (auto simp: verify_drc_signer_list_operation_def dest: envelope_authorised)
qed

lemma master_disable_signer:
  assumes "verify_drc_account_policy_operation env s tx auth = Ok ()"
    and "pt_action tx = SetMasterKeyDisabled"
  obtains op where "policy_signing_bytes env tx auth = Ok op" "tx_multisign tx = None"
    "verify_bound_secp256k1 env (tx_public_key tx) (tx_signature tx) op = Ok (pt_account tx)"
    "\<not> master_disabled s (pt_account tx)"
    "regular_key_of s (pt_account tx) \<noteq> None \<or> signer_list_of s (pt_account tx) \<noteq> None"
  using assms
  by (auto simp: verify_drc_account_policy_operation_def dest!: drc_master_key_disabled_Ok
      has_alternate_recovery_Ok split: if_splits)

lemma policy_authorised:
  assumes "verify_drc_account_policy_operation env s tx auth = Ok ()"
  shows "\<exists>op. policy_signing_bytes env tx auth = Ok op \<and>
       authorised env s (pt_account tx) (tx_public_key tx) (tx_signature tx) (tx_multisign tx) op auth"
proof (cases "pt_action tx = SetMasterKeyDisabled")
  case True
  obtain op where "policy_signing_bytes env tx auth = Ok op" "tx_multisign tx = None"
    "verify_bound_secp256k1 env (tx_public_key tx) (tx_signature tx) op = Ok (pt_account tx)"
    "\<not> master_disabled s (pt_account tx)"
    by (rule master_disable_signer [OF assms True])
  then show ?thesis by (simp add: authorised_def verify_bound_Ok)
next
  case not_set: False
  from assms obtain op where op: "policy_signing_bytes env tx auth = Ok op"
    by (auto simp: verify_drc_account_policy_operation_def)
  show ?thesis
  proof (cases "pt_action tx = ClearMasterKeyDisabled \<and> tx_multisign tx = None")
    case True
    with assms op obtain signer where
      "verify_bound_secp256k1 env (tx_public_key tx) (tx_signature tx) op = Ok signer"
      "authorize_drc_account_operator s (pt_account tx) signer = Ok ()"
      by (auto simp: verify_drc_account_policy_operation_def split: if_splits)
    with True op show ?thesis using operator_authorised by blast
  next
    case False
    with assms op not_set have "verify_envelope env s tx (pt_account tx) op auth None = Ok ()"
      by (cases "pt_action tx") (auto simp: verify_drc_account_policy_operation_def split: if_splits)
    with op show ?thesis by (auto dest: envelope_authorised)
  qed
qed

section \<open>No lockout\<close>

definition recoverable :: "state_store \<Rightarrow> address \<Rightarrow> bool" where
  "recoverable s a \<longleftrightarrow>
     (master_disabled s a \<longrightarrow> regular_key_of s a \<noteq> None \<or> signer_list_of s a \<noteq> None)"

definition key_material :: "meta_key \<Rightarrow> bool" where
  "key_material k = (case k of KPolicy _ \<Rightarrow> True | KRegularKey _ \<Rightarrow> True | KSignerList _ \<Rightarrow> True | _ \<Rightarrow> False)"

lemma recoverable_cong:
  assumes "get_cf s' (KPolicy a) = get_cf s (KPolicy a)"
    and "get_cf s' (KRegularKey a) = get_cf s (KRegularKey a)"
    and "get_cf s' (KSignerList a) = get_cf s (KSignerList a)"
  shows "recoverable s' a = recoverable s a"
  using assms
  by (simp add: recoverable_def master_disabled_def regular_key_of_def signer_list_of_def stored_def)

lemma recoverable_frame:
  assumes "recoverable s a" and "\<And>k. k \<in> op_key ` set b \<Longrightarrow> \<not> key_material k"
  shows "recoverable (apply_batch b s) a"
proof -
  have "get_cf (apply_batch b s) k = get_cf s k" if "key_material k" for k
    using that assms(2) by (intro get_cf_frame) blast
  then have "recoverable (apply_batch b s) a = recoverable s a"
    by (intro recoverable_cong) (simp_all add: key_material_def)
  with assms(1) show ?thesis by simp
qed

lemma charged_not_key_material:
  "charged s owner sel paid b j \<Longrightarrow> k \<in> op_key ` set b \<Longrightarrow> \<not> key_material k"
  using charged_keys [of s owner sel paid b j] by (auto simp: key_material_def)

lemma charged_key_material:
  "charged s owner sel paid b j \<Longrightarrow> key_material k \<Longrightarrow> get_cf (apply_batch b s') k = get_cf s' k"
  by (rule get_cf_frame) (use charged_not_key_material in blast)

lemma update_policy_master:
  "ap_master_key_disabled (update_policy action p) =
     (case action of SetMasterKeyDisabled \<Rightarrow> True | ClearMasterKeyDisabled \<Rightarrow> False
                   | _ \<Rightarrow> ap_master_key_disabled p)"
  by (cases action) (simp_all add: update_policy_def Let_def)

lemma master_after_policy_writes:
  "get_cf (apply_batch (policy_writes account p) s) (KPolicy account)
     = (if ap_require_destination_tag p \<or> ap_deposit_auth_required p \<or> ap_master_key_disabled p
        then Some (VPolicy p) else None)"
  by (simp add: policy_writes_def)

lemma policy_recoverable:
  assumes "apply_drc_account_policy env s tx auth = Ok (b, j, p)" and "\<And>a. recoverable s a"
  shows "recoverable (apply_batch b s) a"
proof -
  from assms(1) obtain b0 old where
    ver: "verify_drc_account_policy_operation env s tx auth = Ok ()"
    and ch: "charged s (pt_account tx) (selector_of tx 4) (unat (pt_fee tx)) b0 j"
    and old: "load_drc_account_policy s (pt_account tx) = Ok old" and p: "p = update_policy (pt_action tx) old"
    and b: "b = b0 @ policy_writes (pt_account tx) p"
    by (rule policy_Ok)
  let ?s0 = "apply_batch b0 s" and ?s1 = "apply_batch b s"
  have rec0: "recoverable ?s0 x" for x
    using assms(2) charged_not_key_material [OF ch] by (intro recoverable_frame)
  have other: "get_cf ?s1 k = get_cf ?s0 k" if "k \<noteq> KPolicy (pt_account tx)" for k
    using that by (auto simp: b policy_writes_def)
  have same: "get_cf ?s0 k = get_cf s k" if "key_material k" for k
    by (rule charged_key_material [OF ch that])
  show ?thesis
  proof (cases "a = pt_account tx")
    case False
    then have "recoverable ?s1 a = recoverable ?s0 a" by (intro recoverable_cong) (auto intro: other)
    with rec0 show ?thesis by simp
  next
    case True
    have keys: "regular_key_of ?s1 a = regular_key_of s a" "signer_list_of ?s1 a = signer_list_of s a"
      using other same by (simp_all add: regular_key_of_def signer_list_of_def stored_def key_material_def)
    have dis: "master_disabled ?s1 a \<longleftrightarrow> ap_master_key_disabled p"
      using True by (auto simp: b master_after_policy_writes master_disabled_def stored_def)
    show ?thesis
    proof (cases "pt_action tx = SetMasterKeyDisabled")
      case set: True
      have "regular_key_of s (pt_account tx) \<noteq> None \<or> signer_list_of s (pt_account tx) \<noteq> None"
        by (rule master_disable_signer [OF ver set])
      with keys True show ?thesis by (simp add: recoverable_def)
    next
      case False
      then have "ap_master_key_disabled p \<Longrightarrow> master_disabled s a"
        using load_policy_master [OF old] True
        by (auto simp: p update_policy_master split: drc_account_policy_action.splits)
      with dis keys assms(2) [of a] show ?thesis by (auto simp: recoverable_def)
    qed
  qed
qed

lemma regular_key_recoverable:
  assumes "apply_drc_regular_key env s tx auth = Ok (b, j, r)" and "\<And>a. recoverable s a"
  shows "recoverable (apply_batch b s) a"
proof -
  from assms(1) obtain b0 where
    lock: "ensure_no_lockout_after_regular_key s tx = Ok ()"
    and ch: "charged s (rk_owner tx) (selector_of tx 2) (unat (rk_fee tx)) b0 j"
    and b: "b = b0 @ (case rk_action tx of
        RegularSet \<Rightarrow> [Put (KRegularKey (rk_owner tx))
                        (VRegularKey (new_regular_key (rk_owner tx) (rk_regular_key tx)))]
      | RegularClear \<Rightarrow> [Delete (KRegularKey (rk_owner tx))])"
    by (rule regular_key_Ok)
  have same: "get_cf (apply_batch b0 s) k = get_cf s k" if "key_material k" for k
    by (rule charged_key_material [OF ch that])
  have other: "get_cf (apply_batch b s) k = get_cf s k"
    if "key_material k" "k \<noteq> KRegularKey (rk_owner tx)" for k
    using that same by (auto simp: b split: drc_regular_key_action.split)
  have rk: "regular_key_of (apply_batch b s) (rk_owner tx)
      = (case rk_action tx of RegularSet \<Rightarrow> Some (rk_regular_key tx) | RegularClear \<Rightarrow> None)"
    by (auto simp: b regular_key_of_def stored_def new_regular_key_def split: drc_regular_key_action.split)
  have view: "master_disabled (apply_batch b s) x = master_disabled s x"
    "signer_list_of (apply_batch b s) x = signer_list_of s x"
    "x \<noteq> rk_owner tx \<Longrightarrow> regular_key_of (apply_batch b s) x = regular_key_of s x" for x
    using other by (simp_all add: master_disabled_def signer_list_of_def regular_key_of_def stored_def key_material_def)
  show ?thesis
  proof (cases "a = rk_owner tx")
    case False
    with view assms(2) [of a] show ?thesis by (simp add: recoverable_def)
  next
    case True
    with lock rk view show ?thesis
      by (auto simp: recoverable_def ensure_no_lockout_after_regular_key_def ensure_alternate_recovery_def
          dest!: drc_master_key_disabled_Ok load_signer_list_of(1) split: if_splits)
  qed
qed

lemma signer_list_recoverable:
  assumes "apply_drc_signer_list env s tx auth = Ok (b, j, r)" and "\<And>a. recoverable s a"
  shows "recoverable (apply_batch b s) a"
proof -
  from assms(1) obtain b0 where
    lock: "ensure_no_lockout_after_signer_list s tx = Ok ()"
    and ch: "charged s (slt_owner tx) (selector_of tx 2) (unat (slt_fee tx)) b0 j"
    and b: "b = b0 @ (case slt_action tx of
        ListSet \<Rightarrow> [Put (KSignerList (slt_owner tx)) (VSignerList (new_signer_list tx))]
      | ListDelete \<Rightarrow> [Delete (KSignerList (slt_owner tx))])"
    by (rule signer_list_Ok)
  have same: "get_cf (apply_batch b0 s) k = get_cf s k" if "key_material k" for k
    by (rule charged_key_material [OF ch that])
  have other: "get_cf (apply_batch b s) k = get_cf s k"
    if "key_material k" "k \<noteq> KSignerList (slt_owner tx)" for k
    using that same by (auto simp: b split: drc_signer_list_action.split)
  have sl: "signer_list_of (apply_batch b s) (slt_owner tx)
      = (case slt_action tx of ListSet \<Rightarrow> Some (new_signer_list tx) | ListDelete \<Rightarrow> None)"
    by (auto simp: b signer_list_of_def stored_def split: drc_signer_list_action.split)
  have view: "master_disabled (apply_batch b s) x = master_disabled s x"
    "regular_key_of (apply_batch b s) x = regular_key_of s x"
    "x \<noteq> slt_owner tx \<Longrightarrow> signer_list_of (apply_batch b s) x = signer_list_of s x" for x
    using other by (simp_all add: master_disabled_def signer_list_of_def regular_key_of_def stored_def key_material_def)
  show ?thesis
  proof (cases "a = slt_owner tx")
    case False
    with view assms(2) [of a] show ?thesis by (simp add: recoverable_def)
  next
    case True
    with lock sl view show ?thesis
      by (auto simp: recoverable_def ensure_no_lockout_after_signer_list_def ensure_alternate_recovery_def
          dest!: drc_master_key_disabled_Ok load_regular_key_of split: if_splits drc_signer_list_action.splits)
  qed
qed

section \<open>Properties\<close>

lemma version_order: "\<not> (2::u32) \<le> 1" "\<not> (3::u32) \<le> 1" "\<not> (3::u32) \<le> 2"
  by (simp_all add: word_le_nat_alt)

text \<open>
  The hand-written policy codec round-trips: a valid policy is written, and reading it
  back gives the same flags under the canonical version; two valid policies have the same encoding
  exactly when they have the same flags.
\<close>

theorem policy_codec_canonical:
  assumes "validate_account_policy p = Ok ()" and "validate_account_policy q = Ok ()"
  shows "\<exists>vs. policy_serialize p = Ok vs
    \<and> policy_deserialize vs = Ok (p\<lparr>ap_version := canonical_state_version p\<rparr>)
    \<and> (policy_serialize q = Ok vs \<longleftrightarrow>
         ap_require_destination_tag q = ap_require_destination_tag p
         \<and> ap_deposit_auth_required q = ap_deposit_auth_required p
         \<and> ap_master_key_disabled q = ap_master_key_disabled p)"
  using assms version_order
  by (cases p; cases q)
     (auto simp: policy_serialize_def policy_deserialize_def canonical_state_version_def borsh_bool_def Let_def)

theorem policy_codec_canonical_witness:
  "\<exists>vs. policy_serialize default_account_policy = Ok vs \<and> policy_deserialize vs = Ok default_account_policy"
  using policy_codec_canonical [of default_account_policy default_account_policy]
  by (auto simp: default_account_policy_def validate_account_policy_def canonical_state_version_def)

text \<open>
  Only the master key can switch itself off: an accepted \<open>SetMasterKeyDisabled\<close> carries a
  single signature of the account's own key over this operation, the key was enabled, and the
  account has a regular key or a signer list to fall back on. Afterwards the key is disabled.
\<close>

theorem master_key_disabled_by_master_only:
  assumes "apply_drc_account_policy env s tx auth = Ok (b, j, p)" and "pt_action tx = SetMasterKeyDisabled"
  shows "tx_multisign tx = None \<and> address_from_pubkey env (tx_public_key tx) = pt_account tx
    \<and> (\<exists>op. policy_signing_bytes env tx auth = Ok op \<and> secp_verify env (tx_public_key tx) op (tx_signature tx))
    \<and> \<not> master_disabled s (pt_account tx)
    \<and> (regular_key_of s (pt_account tx) \<noteq> None \<or> signer_list_of s (pt_account tx) \<noteq> None)
    \<and> master_disabled (apply_batch b s) (pt_account tx)"
proof -
  from assms(1) obtain b0 old where ver: "verify_drc_account_policy_operation env s tx auth = Ok ()"
    and p: "p = update_policy (pt_action tx) old" and b: "b = b0 @ policy_writes (pt_account tx) p"
    by (rule policy_Ok)
  obtain op where "policy_signing_bytes env tx auth = Ok op" "tx_multisign tx = None"
    "verify_bound_secp256k1 env (tx_public_key tx) (tx_signature tx) op = Ok (pt_account tx)"
    "\<not> master_disabled s (pt_account tx)"
    "regular_key_of s (pt_account tx) \<noteq> None \<or> signer_list_of s (pt_account tx) \<noteq> None"
    by (rule master_disable_signer [OF ver assms(2)])
  moreover have "ap_master_key_disabled p" by (simp add: p update_policy_master assms(2))
  then have "master_disabled (apply_batch b s) (pt_account tx)"
    by (simp add: b master_after_policy_writes master_disabled_def stored_def)
  ultimately show ?thesis by (simp add: verify_bound_Ok)
qed

definition keyed_store :: state_store where
  "keyed_store =
     [(KAccount DRC 7, VAccount \<lparr>balance = 100, nonce = 4\<rparr>),
      (KSignerList 7, VSignerList \<lparr>asl_version = 1, asl_owner = 7, asl_quorum = 1,
                                   asl_entries = [\<lparr>sl_signer = 8, sl_weight = 1\<rparr>]\<rparr>)]"

definition disable_tx :: drc_account_policy_tx where
  "disable_tx = \<lparr>tx_version = 3, tx_nonce = 4, tx_public_key = replicate 33 7, tx_signature = replicate 64 7,
     tx_multisign = None, tx_account_sequence = None, pt_account = 7, pt_action = SetMasterKeyDisabled,
     pt_fee = 2\<rparr>"

lemma disable_run:
  "apply_drc_account_policy demo_env keyed_store disable_tx demo_auth
     = Ok ([Put (KAccount DRC 7) (VAccount \<lparr>balance = 98, nonce = 5\<rparr>),
            Put (KPolicy 7) (VPolicy \<lparr>ap_version = 3, ap_require_destination_tag = False,
              ap_deposit_auth_required = False, ap_master_key_disabled = True\<rparr>)],
           [(DRC, 7, \<lparr>balance = 100, nonce = 4\<rparr>)],
           \<lparr>ap_version = 3, ap_require_destination_tag = False, ap_deposit_auth_required = False,
            ap_master_key_disabled = True\<rparr>)"
  by code_simp

theorem master_key_disabled_by_master_only_witness:
  "\<not> master_disabled keyed_store 7
   \<and> master_disabled (apply_batch [Put (KAccount DRC 7) (VAccount \<lparr>balance = 98, nonce = 5\<rparr>),
            Put (KPolicy 7) (VPolicy \<lparr>ap_version = 3, ap_require_destination_tag = False,
              ap_deposit_auth_required = False, ap_master_key_disabled = True\<rparr>)] keyed_store) 7"
  using master_key_disabled_by_master_only [OF disable_run] by (simp add: disable_tx_def)

text \<open>
  Property C16. A regular key installed through a multisign bundle need not belong to the public key
  the operation carries: the check that \<open>regular_key\<close> is the address of \<open>regular_key_public_key\<close> runs
  on the single-signature path only. In this run the address 9 is installed with the key of 5.
\<close>

definition mismatched_key_tx :: drc_regular_key_tx where
  "mismatched_key_tx = \<lparr>tx_version = 1, tx_nonce = 4, tx_public_key = [], tx_signature = [],
     tx_multisign = Some \<lparr>ma_version = 1, ma_signing_for = 7,
       ma_signatures = [\<lparr>me_signer = 8, me_public_key = replicate 33 8, me_signature = replicate 64 8\<rparr>]\<rparr>,
     tx_account_sequence = None, rk_owner = 7, rk_action = RegularSet, rk_regular_key = 9,
     rk_public_key = replicate 33 5, rk_fee = 0\<rparr>"

theorem multisign_regular_key_unbound:
  "apply_drc_regular_key demo_env keyed_store mismatched_key_tx demo_auth
     = Ok ([Put (KAccount DRC 7) (VAccount \<lparr>balance = 100, nonce = 5\<rparr>),
            Put (KRegularKey 7) (VRegularKey \<lparr>ark_version = 1, ark_owner = 7, ark_regular_key = 9\<rparr>)],
           [(DRC, 7, \<lparr>balance = 100, nonce = 4\<rparr>)], Some 9)
   \<and> address_from_pubkey demo_env (rk_public_key mismatched_key_tx) = 5"
  by code_simp

end
