(* ===== verification/Supply.thy ===== *)
theory Supply
  imports Drc_Policy
begin

text \<open>
  Monetary policy and per-asset supply counters (\<^verbatim>\<open>state-machine/src/monetary.rs\<close>, \<^verbatim>\<open>supply.rs\<close>,
  genesis credits of \<^verbatim>\<open>accounts/mod.rs\<close>, the reserve writers of \<^verbatim>\<open>staking/mod.rs\<close> that ignition uses
  and the schema constants of \<^verbatim>\<open>columns.rs\<close>).

  A counter is eight little-endian bytes: a value of another length is a value that is not a
  \<open>VU64\<close>. The results: ignition establishes the counters' invariant from any datadir, fee burning
  keeps it and never burns more than was issued, and the schema-19 migration happens exactly once.
\<close>

section \<open>Monetary policy\<close>

definition TLT_MAX_SUPPLY_BASE :: u64 where
  "TLT_MAX_SUPPLY_BASE = 10000000000000000"

definition OVL_MAX_SUPPLY_BASE :: u64 where
  "OVL_MAX_SUPPLY_BASE = 2100000000000000000"

definition DRC_MAX_SUPPLY_BASE :: u64 where
  "DRC_MAX_SUPPLY_BASE = 600000000000000000"

definition OVL_WORKING_RESERVE_BASE :: u64 where
  "OVL_WORKING_RESERVE_BASE = OVL_MAX_SUPPLY_BASE div 10"

definition DRC_WORKING_RESERVE_BASE :: u64 where
  "DRC_WORKING_RESERVE_BASE = DRC_MAX_SUPPLY_BASE div 10"

definition WORKING_EPOCH_RESERVE_DRIP :: u64 where
  "WORKING_EPOCH_RESERVE_DRIP = 1000000000"

datatype emission_kind = PowHalving u64 u64 | StakingReserve u64

record asset_monetary_policy =
  mp_asset :: native_asset_id
  mp_max_supply :: u64
  mp_decimals :: u8
  mp_mineable :: bool
  mp_genesis_allocation :: u64
  mp_treasury_allocation :: u64
  mp_emission :: emission_kind

definition tlt_default :: asset_monetary_policy where
  "tlt_default = \<lparr>mp_asset = TLT, mp_max_supply = TLT_MAX_SUPPLY_BASE, mp_decimals = 8, mp_mineable = True,
     mp_genesis_allocation = TLT_MAX_SUPPLY_BASE div 10, mp_treasury_allocation = 0,
     mp_emission = PowHalving 5000000000 210000\<rparr>"

definition ovl_default :: asset_monetary_policy where
  "ovl_default = \<lparr>mp_asset = OVL, mp_max_supply = OVL_MAX_SUPPLY_BASE, mp_decimals = 8, mp_mineable = False,
     mp_genesis_allocation = 0, mp_treasury_allocation = 0,
     mp_emission = StakingReserve OVL_WORKING_RESERVE_BASE\<rparr>"

definition drc_default :: asset_monetary_policy where
  "drc_default = \<lparr>mp_asset = DRC, mp_max_supply = DRC_MAX_SUPPLY_BASE, mp_decimals = 8, mp_mineable = False,
     mp_genesis_allocation = 0, mp_treasury_allocation = 0,
     mp_emission = StakingReserve DRC_WORKING_RESERVE_BASE\<rparr>"

definition validate_caps :: "asset_monetary_policy \<Rightarrow> string + unit" where
  "validate_caps p =
     (if mp_decimals p \<noteq> 8 then Err ''decimals must be 8 for v3''
      else if mp_mineable p \<noteq> is_mineable (mp_asset p) then Err ''mineable flag disagrees with protocol''
      else if mp_asset p \<noteq> TLT \<and> (case mp_emission p of PowHalving _ _ \<Rightarrow> True | StakingReserve _ \<Rightarrow> False)
      then Err ''cannot use PoW emission''
      else
      bind_result (ok_or (checked_add (mp_genesis_allocation p) (mp_treasury_allocation p))
          ''allocation overflow'') (\<lambda>reserved.
      bind_result (ok_or (checked_add reserved
            (case mp_emission p of PowHalving _ _ \<Rightarrow> 0 | StakingReserve r \<Rightarrow> r))
          ''emission reserve overflow'') (\<lambda>committed.
      if mp_max_supply p < committed then Err ''committed supply exceeds max'' else Ok ())))"

record trident_monetary_policy =
  tm_tlt :: asset_monetary_policy
  tm_ovl :: asset_monetary_policy
  tm_drc :: asset_monetary_policy

definition default_monetary_policy :: trident_monetary_policy where
  "default_monetary_policy = \<lparr>tm_tlt = tlt_default, tm_ovl = ovl_default, tm_drc = drc_default\<rparr>"

definition validate_monetary_policy :: "trident_monetary_policy \<Rightarrow> string + unit" where
  "validate_monetary_policy p =
     bind_result (validate_caps (tm_tlt p)) (\<lambda>_.
     bind_result (validate_caps (tm_ovl p)) (\<lambda>_.
     bind_result (validate_caps (tm_drc p)) (\<lambda>_.
     if mp_asset (tm_tlt p) \<noteq> TLT \<or> mp_asset (tm_ovl p) \<noteq> OVL \<or> mp_asset (tm_drc p) \<noteq> DRC
     then Err ''monetary policy asset ids must be TLT/OVL/DRC in order'' else Ok ())))"

fun policy_for :: "trident_monetary_policy \<Rightarrow> native_asset_id \<Rightarrow> asset_monetary_policy" where
  "policy_for p TLT = tm_tlt p"
| "policy_for p OVL = tm_ovl p"
| "policy_for p DRC = tm_drc p"

section \<open>Counters\<close>

definition SCHEMA_VERSION :: u32 where
  "SCHEMA_VERSION = 22"

definition DRC_FEE_BURN_SCHEMA_VERSION :: u32 where
  "DRC_FEE_BURN_SCHEMA_VERSION = 20"

definition ovl_evm_schema_active :: "u32 \<Rightarrow> bool" where
  "ovl_evm_schema_active schema \<longleftrightarrow> 22 \<le> schema"

record native_supply_state =
  ns_asset :: native_asset_id
  ns_maximum_supply :: u64
  ns_issued_supply :: u64
  ns_burned_supply :: u64
  ns_net_supply :: u64

definition load_schema_version :: "state_store \<Rightarrow> u32" where
  "load_schema_version s = (case stored as_u32 s KSchema of Some v \<Rightarrow> v | None \<Rightarrow> 1)"

definition load_issued_supply :: "state_store \<Rightarrow> native_asset_id \<Rightarrow> u64" where
  "load_issued_supply s asset =
     (case stored as_u64 s (KIssued asset) of
        Some v \<Rightarrow> v
      | None \<Rightarrow> if asset = TLT
                then (case stored as_u64 s KIssuedLegacy of Some v \<Rightarrow> v | None \<Rightarrow> 0) else 0)"

definition load_burned_supply :: "state_store \<Rightarrow> native_asset_id \<Rightarrow> u64 res" where
  "load_burned_supply s asset =
     (case get_cf s (KBurned asset) of
        None \<Rightarrow> if DRC_FEE_BURN_SCHEMA_VERSION \<le> load_schema_version s
                then Err (Storage (''schema is missing the '' @ ticker asset @ '' burned-supply counter''))
                else Ok 0
      | Some v \<Rightarrow> ok_or (as_u64 v) (Storage (''malformed '' @ ticker asset @ '' burned-supply counter'')))"

definition put_burned_supply_into :: "native_asset_id \<Rightarrow> u64 \<Rightarrow> write_batch" where
  "put_burned_supply_into asset burned = [Put (KBurned asset) (VU64 burned)]"

definition put_issued_supply_into :: "native_asset_id \<Rightarrow> u64 \<Rightarrow> write_batch" where
  "put_issued_supply_into asset issued =
     Put (KIssued asset) (VU64 issued)
       # (if asset = TLT then [Put KIssuedLegacy (VU64 issued)] else [])"

definition load_max_supply :: "state_store \<Rightarrow> native_asset_id \<Rightarrow> u64" where
  "load_max_supply s asset =
     (if asset = TLT
      then (case stored as_u64 s KMaxSupplyLegacy of Some v \<Rightarrow> v | None \<Rightarrow> TLT_MAX_SUPPLY_BASE)
      else (case stored as_u64 s (KMaxSupply asset) of
              Some v \<Rightarrow> v | None \<Rightarrow> mp_max_supply (policy_for default_monetary_policy asset)))"

definition put_max_supply_into :: "native_asset_id \<Rightarrow> u64 \<Rightarrow> write_batch" where
  "put_max_supply_into asset m =
     Put (KMaxSupply asset) (VU64 m) # (if asset = TLT then [Put KMaxSupplyLegacy (VU64 m)] else [])"

definition load_native_supply_state :: "state_store \<Rightarrow> native_asset_id \<Rightarrow> native_supply_state res" where
  "load_native_supply_state s asset =
     (let issued = load_issued_supply s asset in
      bind_result (load_burned_supply s asset) (\<lambda>burned.
      bind_result (ok_or (checked_sub issued burned) BurnedSupplyExceedsIssued) (\<lambda>net.
      Ok \<lparr>ns_asset = asset, ns_maximum_supply = load_max_supply s asset, ns_issued_supply = issued,
          ns_burned_supply = burned, ns_net_supply = net\<rparr>)))"

definition burn_drc_fee_into :: "state_store \<Rightarrow> u64 \<Rightarrow> write_batch res" where
  "burn_drc_fee_into s fee =
     (let schema = load_schema_version s in
      if \<not> (DRC_FEE_BURN_SCHEMA_VERSION \<le> schema \<and> schema \<le> SCHEMA_VERSION)
      then Err (InvalidTx ''DRC fee burning requires a supported schema'')
      else if fee = 0 then Ok []
      else
      bind_result (load_burned_supply s DRC) (\<lambda>burned.
      bind_result (ok_or (checked_add burned fee) (InvalidTx ''DRC burned-supply overflow'')) (\<lambda>next.
      if load_issued_supply s DRC < next then Err BurnedSupplyExceedsIssued
      else Ok (put_burned_supply_into DRC next))))"

definition burn_tlt_fee_into :: "state_store \<Rightarrow> u64 \<Rightarrow> write_batch res" where
  "burn_tlt_fee_into s fee =
     (if fee = 0 then Ok []
      else
      bind_result (load_burned_supply s TLT) (\<lambda>burned.
      bind_result (ok_or (checked_add burned fee) (InvalidTx ''TLT burned-supply overflow'')) (\<lambda>next.
      if load_issued_supply s TLT < next then Err BurnedSupplyExceedsIssued
      else Ok (put_burned_supply_into TLT next))))"

definition native_supply_root :: "crypto_env \<Rightarrow> state_store \<Rightarrow> hash res" where
  "native_supply_root env s =
     bind_result (fold_result (\<lambda>entries asset.
         bind_result (load_native_supply_state s asset) (\<lambda>st.
           Ok (entries @ [BList [BTag (ticker (ns_asset st)), BU64 (ns_maximum_supply st),
                                 BU64 (ns_issued_supply st), BU64 (ns_burned_supply st),
                                 BU64 (ns_net_supply st)]]))) [] all_assets)
       (\<lambda>entries. Ok (hash_borsh env [BStr ''agora-native-supply-root-v1'', BList entries]))"

definition cap_is_live :: "native_asset_id \<Rightarrow> u32 \<Rightarrow> bool" where
  "cap_is_live asset schema \<longleftrightarrow> \<not> (asset = OVL \<and> ovl_evm_schema_active schema)"

definition verify_supply_invariants :: "state_store \<Rightarrow> unit res" where
  "verify_supply_invariants s =
     (let schema = load_schema_version s in
      fold_result (\<lambda>_ asset.
        bind_result (load_native_supply_state s asset) (\<lambda>st.
          if cap_is_live asset schema \<and> ns_maximum_supply st < ns_issued_supply st
          then Err SupplyCapExceeded else Ok ())) () all_assets)"

definition put_schema_version_into :: "u32 \<Rightarrow> write_batch" where
  "put_schema_version_into version =
     Put KSchema (VU32 version) # (if 21 \<le> version then [Put KLedgerIndexMarker VMarker] else [])"

definition migrate_drc_fee_burn_schema :: "state_store \<Rightarrow> state_store res" where
  "migrate_drc_fee_burn_schema s =
     (let version = load_schema_version s in
      if DRC_FEE_BURN_SCHEMA_VERSION \<le> version \<and> version \<le> SCHEMA_VERSION
      then if list_ex (\<lambda>asset. get_cf s (KBurned asset) = None) all_assets
           then Err (Storage ''schema is missing the burned-supply counter'')
           else bind_result (verify_supply_invariants s) (\<lambda>_. Ok s)
      else if SCHEMA_VERSION < version then Err (Storage ''unsupported future datadir schema'')
      else if version \<noteq> DRC_FEE_BURN_SCHEMA_VERSION - 1
      then Err (Storage ''DRC fee-burn migration requires schema 19'')
      else if list_ex (\<lambda>asset. get_cf s (KBurned asset) \<noteq> None) all_assets
      then Err (Storage ''schema 19 unexpectedly contains a burned-supply counter'')
      else
      bind_result (verify_supply_invariants s) (\<lambda>_.
      Ok (apply_batch (concat (map (\<lambda>asset. put_burned_supply_into asset 0) all_assets)
            @ put_schema_version_into DRC_FEE_BURN_SCHEMA_VERSION) s)))"

definition put_staking_reserve_remaining_into :: "native_asset_id \<Rightarrow> u64 \<Rightarrow> write_batch" where
  "put_staking_reserve_remaining_into asset amt = [Put (KReserve asset) (VU64 amt)]"

definition init_staking_reserve_into :: "native_asset_id \<Rightarrow> u64 \<Rightarrow> write_batch res" where
  "init_staking_reserve_into asset reserve =
     (if asset = TLT then Err (InvalidTx ''staking reserve only for OVL/DRC'')
      else Ok (put_staking_reserve_remaining_into asset reserve))"

definition ignite_asset :: "trident_monetary_policy \<Rightarrow> native_asset_id \<Rightarrow> write_batch res" where
  "ignite_asset policy asset =
     (let p = policy_for policy asset;
          issued = saturating_add (mp_genesis_allocation p) (mp_treasury_allocation p)
      in if mp_max_supply p < issued then Err SupplyCapExceeded
         else
         bind_result (case mp_emission p of
             StakingReserve r \<Rightarrow> init_staking_reserve_into asset r | PowHalving _ _ \<Rightarrow> Ok []) (\<lambda>b.
         Ok (put_max_supply_into asset (mp_max_supply p) @ put_issued_supply_into asset issued
             @ put_burned_supply_into asset 0 @ b)))"

definition ignite_trident_supply :: "trident_monetary_policy \<Rightarrow> write_batch res" where
  "ignite_trident_supply policy =
     bind_result (map_err InvalidTx (validate_monetary_policy policy)) (\<lambda>_.
     bind_result (fold_result (\<lambda>b asset. bind_result (ignite_asset policy asset) (\<lambda>b'. Ok (b @ b')))
         [] all_assets) (\<lambda>b.
     Ok (b @ put_schema_version_into SCHEMA_VERSION)))"

definition genesis_credit ::
    "state_store \<Rightarrow> native_asset_id \<Rightarrow> address \<Rightarrow> amount \<Rightarrow> write_batch res" where
  "genesis_credit s asset a amt =
     bind_result (credit_account_into s asset a amt) (\<lambda>b.
     bind_result (ok_or (checked_add (load_issued_supply s asset) amt) SupplyCapExceeded) (\<lambda>next.
     Ok (b @ put_issued_supply_into asset next)))"

section \<open>Views and invariant\<close>

definition burned_of :: "state_store \<Rightarrow> native_asset_id \<Rightarrow> u64" where
  "burned_of s asset = (case stored as_u64 s (KBurned asset) of Some v \<Rightarrow> v | None \<Rightarrow> 0)"

definition supply_ok :: "state_store \<Rightarrow> native_asset_id \<Rightarrow> bool" where
  "supply_ok s asset \<longleftrightarrow>
     load_burned_supply s asset = Ok (burned_of s asset)
     \<and> burned_of s asset \<le> load_issued_supply s asset
     \<and> (cap_is_live asset (load_schema_version s) \<longrightarrow> load_issued_supply s asset \<le> load_max_supply s asset)"

lemma load_burned_of: "load_burned_supply s asset = Ok v \<Longrightarrow> v = burned_of s asset"
  by (auto simp: load_burned_supply_def burned_of_def stored_def split: option.splits if_splits)

lemma fold_result_unit:
  "fold_result (\<lambda>_. f) (u::unit) xs = Ok v \<longleftrightarrow> (\<forall>x\<in>set xs. f x = Ok ())"
  by (induction xs arbitrary: u) auto

lemma net_supply_state:
  assumes "supply_ok s asset"
  shows "load_native_supply_state s asset
    = Ok \<lparr>ns_asset = asset, ns_maximum_supply = load_max_supply s asset,
          ns_issued_supply = load_issued_supply s asset, ns_burned_supply = burned_of s asset,
          ns_net_supply = load_issued_supply s asset - burned_of s asset\<rparr>"
  using assms by (simp add: supply_ok_def load_native_supply_state_def checked_sub_def Let_def)

lemma verify_supply_iff:
  "verify_supply_invariants s = Ok u \<longleftrightarrow> (\<forall>asset. supply_ok s asset)"
proof -
  have "bind_result (load_native_supply_state s asset) (\<lambda>st.
          if cap_is_live asset (load_schema_version s) \<and> ns_maximum_supply st < ns_issued_supply st
          then Err SupplyCapExceeded else Ok ()) = Ok () \<longleftrightarrow> supply_ok s asset"
    (is "?check = _ \<longleftrightarrow> _") for asset
  proof
    assume "?check = Ok ()"
    then show "supply_ok s asset"
      using load_burned_of [of s asset]
      by (auto simp: load_native_supply_state_def supply_ok_def checked_sub_def not_less Let_def split: if_splits)
  qed (simp add: net_supply_state supply_ok_def not_less)
  then show ?thesis
    by (simp add: verify_supply_invariants_def Let_def fold_result_unit set_all_assets del: bind_result_Ok)
qed

lemma stored_update [simp]:
  "stored f (AList.update k v s) k' = (if k' = k then f v else stored f s k')"
  by (simp add: stored_def get_cf_def update_conv')

lemma stored_apply_op:
  "stored f (apply_op op s) k = (if op_key op = k then (case op of Put _ v \<Rightarrow> f v | Delete _ \<Rightarrow> None) else stored f s k)"
  by (cases op) (simp_all add: stored_def)

text \<open>The counters read only their own keys.\<close>

lemma counters_frame:
  assumes "\<And>k. k \<in> {KSchema, KIssued asset, KIssuedLegacy, KBurned asset, KMaxSupply asset, KMaxSupplyLegacy}
      \<Longrightarrow> get_cf s' k = get_cf s k"
  shows "load_schema_version s' = load_schema_version s"
    and "load_issued_supply s' asset = load_issued_supply s asset"
    and "load_burned_supply s' asset = load_burned_supply s asset"
    and "burned_of s' asset = burned_of s asset"
    and "load_max_supply s' asset = load_max_supply s asset"
    and "supply_ok s' asset = supply_ok s asset"
  using assms
  by (simp_all add: load_schema_version_def load_issued_supply_def load_burned_supply_def burned_of_def
      load_max_supply_def supply_ok_def stored_def cong: option.case_cong)

lemma counters_after_burn:
  "load_schema_version (apply_batch (put_burned_supply_into a v) s) = load_schema_version s"
  "load_issued_supply (apply_batch (put_burned_supply_into a v) s) asset = load_issued_supply s asset"
  "load_max_supply (apply_batch (put_burned_supply_into a v) s) asset = load_max_supply s asset"
  "load_burned_supply (apply_batch (put_burned_supply_into a v) s) asset
     = (if asset = a then Ok v else load_burned_supply s asset)"
  "burned_of (apply_batch (put_burned_supply_into a v) s) asset = (if asset = a then v else burned_of s asset)"
  by (simp_all add: put_burned_supply_into_def load_schema_version_def load_issued_supply_def
      load_burned_supply_def burned_of_def load_max_supply_def cong: option.case_cong)

lemma burn_next:
  assumes "supply_ok s asset"
  shows "unat fee \<le> unat (load_issued_supply s asset) - unat (burned_of s asset)
    \<longleftrightarrow> (\<exists>next. checked_add (burned_of s asset) fee = Some next \<and> next \<le> load_issued_supply s asset)"
proof -
  have "unat (burned_of s asset) \<le> unat (load_issued_supply s asset)"
    using assms by (simp add: supply_ok_def word_le_nat_alt)
  moreover have "unat (load_issued_supply s asset) < 2 ^ 64" using unat_lt_u64 by simp
  ultimately show ?thesis
    by (auto simp: checked_add_def word_le_nat_alt unat_word_ariths)
qed

text \<open>
  Burning a DRC fee. In a datadir whose schema burns fees and whose counters are valid, a
  fee can be burnt exactly when it does not exceed the net supply; then the burned counter rises and
  the net supply falls by exactly the fee, nothing else about any asset changes, and the counters
  stay valid.
\<close>

theorem drc_fee_burn:
  assumes valid: "verify_supply_invariants s = Ok ()"
    and schema: "20 \<le> load_schema_version s" "load_schema_version s \<le> 22"
  shows "if unat fee \<le> unat (load_issued_supply s DRC) - unat (burned_of s DRC)
    then \<exists>b. burn_drc_fee_into s fee = Ok b
      \<and> verify_supply_invariants (apply_batch b s) = Ok ()
      \<and> unat (burned_of (apply_batch b s) DRC) = unat (burned_of s DRC) + unat fee
      \<and> load_issued_supply (apply_batch b s) DRC = load_issued_supply s DRC
      \<and> (\<forall>asset. asset \<noteq> DRC \<longrightarrow> load_native_supply_state (apply_batch b s) asset = load_native_supply_state s asset)
    else burn_drc_fee_into s fee \<in> {Err (InvalidTx ''DRC burned-supply overflow''), Err BurnedSupplyExceedsIssued}"
proof -
  have ok: "supply_ok s asset" for asset using valid verify_supply_iff by blast
  have burned: "load_burned_supply s DRC = Ok (burned_of s DRC)" using ok [of DRC] by (simp add: supply_ok_def)
  note run = burn_drc_fee_into_def [of s] DRC_FEE_BURN_SCHEMA_VERSION_def SCHEMA_VERSION_def burned Let_def
  show ?thesis
  proof (cases "unat fee \<le> unat (load_issued_supply s DRC) - unat (burned_of s DRC)")
    case True
    then obtain next' where add: "checked_add (burned_of s DRC) fee = Some next'"
      and le: "next' \<le> load_issued_supply s DRC" using burn_next [OF ok] by blast
    show ?thesis
    proof (cases "fee = 0")
      case True
      with schema have "burn_drc_fee_into s fee = Ok []" by (simp add: run)
      with valid True show ?thesis by simp
    next
      case False
      define b where "b = put_burned_supply_into DRC next'"
      have "supply_ok (apply_batch b s) asset" for asset
        using ok [of asset] le by (auto simp: supply_ok_def b_def counters_after_burn)
      moreover have "burn_drc_fee_into s fee = Ok b" using False schema add le by (simp add: run b_def)
      ultimately show ?thesis
        using True checked_add_Some [OF add]
        by (auto simp: verify_supply_iff b_def counters_after_burn load_native_supply_state_def)
    qed
  next
    case False
    then have "fee \<noteq> 0" by auto
    moreover have "\<not> (\<exists>n. checked_add (burned_of s DRC) fee = Some n \<and> n \<le> load_issued_supply s DRC)"
      using False burn_next [OF ok] by blast
    ultimately show ?thesis using False schema
      by (cases "checked_add (burned_of s DRC) fee") (auto simp: run)
  qed
qed

definition demo_supply_store :: state_store where
  "demo_supply_store = [(KSchema, VU32 22), (KIssued TLT, VU64 50), (KBurned TLT, VU64 0), (KBurned OVL, VU64 0),
     (KIssued DRC, VU64 1000), (KBurned DRC, VU64 40)]"

theorem drc_fee_burn_witness:
  "verify_supply_invariants demo_supply_store = Ok ()
   \<and> load_schema_version demo_supply_store = 22
   \<and> burn_drc_fee_into demo_supply_store 7 = Ok [Put (KBurned DRC) (VU64 47)]
   \<and> verify_supply_invariants (apply_batch [Put (KBurned DRC) (VU64 47)] demo_supply_store) = Ok ()"
proof -
  have 1: "verify_supply_invariants demo_supply_store = Ok ()" by code_simp
  have 2: "load_schema_version demo_supply_store = 22" by code_simp
  have 3: "burn_drc_fee_into demo_supply_store 7 = Ok [Put (KBurned DRC) (VU64 47)]" by code_simp
  have 4: "unat (load_issued_supply demo_supply_store DRC) - unat (burned_of demo_supply_store DRC) = 960"
    by code_simp
  from drc_fee_burn [OF 1, of 7] 1 2 3 4 show ?thesis by simp
qed

section \<open>Ignition and migration\<close>

lemma validate_caps_Ok:
  assumes "validate_caps p = Ok ()"
  shows "unat (saturating_add (mp_genesis_allocation p) (mp_treasury_allocation p))
       + unat (case mp_emission p of PowHalving _ _ \<Rightarrow> 0 | StakingReserve r \<Rightarrow> r) \<le> unat (mp_max_supply p)"
    and "unat (saturating_add (mp_genesis_allocation p) (mp_treasury_allocation p))
       = unat (mp_genesis_allocation p) + unat (mp_treasury_allocation p)"
proof -
  from assms obtain r c where
    r: "checked_add (mp_genesis_allocation p) (mp_treasury_allocation p) = Some r"
    and c: "checked_add r (case mp_emission p of PowHalving _ _ \<Rightarrow> 0 | StakingReserve r \<Rightarrow> r) = Some c"
    and le: "c \<le> mp_max_supply p"
    by (auto simp: validate_caps_def not_less split: if_splits)
  from r have "saturating_add (mp_genesis_allocation p) (mp_treasury_allocation p) = r"
    by (auto simp: checked_add_def saturating_add_def split: if_splits)
  with checked_add_Some [OF r] checked_add_Some [OF c] le
  show "unat (saturating_add (mp_genesis_allocation p) (mp_treasury_allocation p))
       + unat (case mp_emission p of PowHalving _ _ \<Rightarrow> 0 | StakingReserve r \<Rightarrow> r) \<le> unat (mp_max_supply p)"
    and "unat (saturating_add (mp_genesis_allocation p) (mp_treasury_allocation p))
       = unat (mp_genesis_allocation p) + unat (mp_treasury_allocation p)"
    by (simp_all add: word_le_nat_alt)
qed

lemma validate_policy_caps:
  "validate_monetary_policy p = Ok () \<Longrightarrow> validate_caps (policy_for p asset) = Ok ()"
  by (cases asset) (auto simp: validate_monetary_policy_def)

text \<open>What ignition writes for one asset, read back through the counters.\<close>

lemma ignite_batch:
  assumes "ignite_trident_supply p = Ok b"
  obtains bt bo bd where "ignite_asset p TLT = Ok bt" "ignite_asset p OVL = Ok bo" "ignite_asset p DRC = Ok bd"
    and "b = bt @ bo @ bd @ put_schema_version_into SCHEMA_VERSION" and "validate_monetary_policy p = Ok ()"
  using assms by (auto simp: ignite_trident_supply_def all_assets_def)

lemma ignite_asset_Ok:
  assumes "ignite_asset p asset = Ok b"
  shows "b = put_max_supply_into asset (mp_max_supply (policy_for p asset))
           @ put_issued_supply_into asset (saturating_add (mp_genesis_allocation (policy_for p asset))
                                                        (mp_treasury_allocation (policy_for p asset)))
           @ put_burned_supply_into asset 0
           @ (case mp_emission (policy_for p asset) of
                StakingReserve r \<Rightarrow> [Put (KReserve asset) (VU64 r)] | PowHalving _ _ \<Rightarrow> [])"
  using assms
  by (auto simp: ignite_asset_def Let_def init_staking_reserve_into_def put_staking_reserve_remaining_into_def
      split: if_splits emission_kind.splits)

lemmas counter_writers = put_max_supply_into_def put_issued_supply_into_def put_burned_supply_into_def
  put_schema_version_into_def SCHEMA_VERSION_def

lemma ignite_stored:
  assumes "ignite_trident_supply p = Ok b"
  shows "get_cf (apply_batch b s) (KIssued asset)
       = Some (VU64 (saturating_add (mp_genesis_allocation (policy_for p asset))
                                   (mp_treasury_allocation (policy_for p asset))))"
    and "get_cf (apply_batch b s) (KMaxSupply asset) = Some (VU64 (mp_max_supply (policy_for p asset)))"
    and "get_cf (apply_batch b s) KMaxSupplyLegacy = Some (VU64 (mp_max_supply (policy_for p TLT)))"
    and "get_cf (apply_batch b s) (KBurned asset) = Some (VU64 0)"
    and "get_cf (apply_batch b s) KSchema = Some (VU32 22)"
proof -
  from ignite_batch [OF assms] obtain bt bo bd where
    "ignite_asset p TLT = Ok bt" "ignite_asset p OVL = Ok bo" "ignite_asset p DRC = Ok bd"
    and b: "b = bt @ bo @ bd @ put_schema_version_into SCHEMA_VERSION" by metis
  note w = this(1-3) [THEN ignite_asset_Ok]
  show "get_cf (apply_batch b s) (KIssued asset)
       = Some (VU64 (saturating_add (mp_genesis_allocation (policy_for p asset))
                                   (mp_treasury_allocation (policy_for p asset))))"
    and "get_cf (apply_batch b s) (KMaxSupply asset) = Some (VU64 (mp_max_supply (policy_for p asset)))"
    and "get_cf (apply_batch b s) KMaxSupplyLegacy = Some (VU64 (mp_max_supply (policy_for p TLT)))"
    and "get_cf (apply_batch b s) (KBurned asset) = Some (VU64 0)"
    and "get_cf (apply_batch b s) KSchema = Some (VU32 22)"
    by (cases asset; simp add: b w counter_writers split: emission_kind.split)+
qed

text \<open>
  Property C11. Ignition. Whatever the datadir held, committing the batch of a successful ignition
  leaves valid supply counters: every asset's issued supply is exactly its genesis plus treasury
  allocation, nothing is burnt, and issued supply plus the staking reserve still to be paid out fit
  under the maximum.
\<close>

theorem ignition_establishes_supply:
  assumes run: "ignite_trident_supply p = Ok b"
  shows "verify_supply_invariants (apply_batch b s) = Ok ()
    \<and> load_schema_version (apply_batch b s) = 22
    \<and> (\<forall>asset. unat (load_issued_supply (apply_batch b s) asset)
          = unat (mp_genesis_allocation (policy_for p asset)) + unat (mp_treasury_allocation (policy_for p asset))
        \<and> load_burned_supply (apply_batch b s) asset = Ok 0
        \<and> (\<forall>r. mp_emission (policy_for p asset) = StakingReserve r \<longrightarrow>
            unat (load_issued_supply (apply_batch b s) asset) + unat r
              \<le> unat (load_max_supply (apply_batch b s) asset)))"
proof -
  have valid: "validate_caps (policy_for p a) = Ok ()" for a
    using ignite_batch [OF run] validate_policy_caps by metis
  note st = ignite_stored [OF run, of s]
  have issued: "load_issued_supply (apply_batch b s) a
      = saturating_add (mp_genesis_allocation (policy_for p a)) (mp_treasury_allocation (policy_for p a))" for a
    by (simp add: load_issued_supply_def stored_def st)
  have mx: "load_max_supply (apply_batch b s) a = mp_max_supply (policy_for p a)" for a
    by (cases a) (simp_all add: load_max_supply_def stored_def st)
  have burned: "load_burned_supply (apply_batch b s) a = Ok 0" "burned_of (apply_batch b s) a = 0" for a
    by (simp_all add: load_burned_supply_def burned_of_def stored_def st)
  have "supply_ok (apply_batch b s) a" for a
    using validate_caps_Ok(1) [OF valid [of a]]
    by (simp add: supply_ok_def burned issued mx word_le_nat_alt)
  then have "verify_supply_invariants (apply_batch b s) = Ok ()" by (simp add: verify_supply_iff)
  moreover have "load_schema_version (apply_batch b s) = 22" by (simp add: load_schema_version_def stored_def st)
  moreover have "unat (load_issued_supply (apply_batch b s) a) + unat r \<le> unat (load_max_supply (apply_batch b s) a)"
    if "mp_emission (policy_for p a) = StakingReserve r" for a r
    using validate_caps_Ok(1) [OF valid [of a]] that by (simp add: issued mx)
  ultimately show ?thesis using validate_caps_Ok(2) [OF valid] by (simp add: issued burned)
qed

definition default_ignition :: write_batch where
  "default_ignition = (case ignite_trident_supply default_monetary_policy of Inr b \<Rightarrow> b | Inl _ \<Rightarrow> [])"

lemma default_ignition_Ok: "ignite_trident_supply default_monetary_policy = Ok default_ignition"
  by code_simp

theorem ignition_establishes_supply_witness:
  "verify_supply_invariants (apply_batch default_ignition demo_store) = Ok ()
   \<and> unat (load_issued_supply (apply_batch default_ignition demo_store) TLT) = 1000000000000000
   \<and> unat (load_issued_supply (apply_batch default_ignition demo_store) DRC) + 60000000000000000
       \<le> unat (load_max_supply (apply_batch default_ignition demo_store) DRC)"
proof -
  note run = ignition_establishes_supply [OF default_ignition_Ok, of demo_store]
  show ?thesis
    using run [THEN conjunct1] run [THEN conjunct2, THEN conjunct2, rule_format, of TLT]
      run [THEN conjunct2, THEN conjunct2, rule_format, of DRC]
    by (simp add: default_monetary_policy_def tlt_default_def drc_default_def TLT_MAX_SUPPLY_BASE_def
        DRC_WORKING_RESERVE_BASE_def DRC_MAX_SUPPLY_BASE_def)
qed

text \<open>
  The fee-burn migration is a one-time step: when it succeeds the datadir is at a
  fee-burning schema with valid counters and the issued supply it had, and running it again
  succeeds and changes nothing.
\<close>

theorem fee_burn_migration_once:
  assumes run: "migrate_drc_fee_burn_schema s = Ok s'"
  shows "migrate_drc_fee_burn_schema s' = Ok s' \<and> verify_supply_invariants s' = Ok ()
    \<and> 20 \<le> load_schema_version s' \<and> load_issued_supply s' asset = load_issued_supply s asset"
proof -
  consider (kept) "s' = s" "20 \<le> load_schema_version s" "verify_supply_invariants s = Ok ()"
    | (fresh) "verify_supply_invariants s = Ok ()" "load_schema_version s = 19"
        "s' = apply_batch (concat (map (\<lambda>asset. put_burned_supply_into asset 0) all_assets)
            @ put_schema_version_into 20) s"
  proof (cases "DRC_FEE_BURN_SCHEMA_VERSION \<le> load_schema_version s \<and> load_schema_version s \<le> SCHEMA_VERSION")
    case True
    with run have "s' = s" "verify_supply_invariants s = Ok ()"
      unfolding migrate_drc_fee_burn_schema_def Let_def by (auto split: if_splits)
    with True that(1) show ?thesis unfolding DRC_FEE_BURN_SCHEMA_VERSION_def by blast
  next
    case False
    define w where "w = concat (map (\<lambda>asset. put_burned_supply_into asset 0) all_assets)
            @ put_schema_version_into DRC_FEE_BURN_SCHEMA_VERSION"
    from run False have "verify_supply_invariants s = Ok ()"
      and "load_schema_version s = DRC_FEE_BURN_SCHEMA_VERSION - 1" and "s' = apply_batch w s"
      unfolding migrate_drc_fee_burn_schema_def Let_def w_def [symmetric]
      by (auto simp del: not_le split: if_splits)
    then have "verify_supply_invariants s = Ok ()" "load_schema_version s = DRC_FEE_BURN_SCHEMA_VERSION - 1"
      "s' = apply_batch (concat (map (\<lambda>asset. put_burned_supply_into asset 0) all_assets)
            @ put_schema_version_into DRC_FEE_BURN_SCHEMA_VERSION) s"
      by (simp_all only: w_def)
    with that(2) show ?thesis unfolding DRC_FEE_BURN_SCHEMA_VERSION_def by simp
  qed
  then show ?thesis
  proof cases
    case kept
    then show ?thesis using run
      by (auto simp: migrate_drc_fee_burn_schema_def Let_def DRC_FEE_BURN_SCHEMA_VERSION_def split: if_splits)
  next
    case fresh
    have schema: "load_schema_version s' = 20"
      by (simp add: fresh(3) load_schema_version_def stored_def all_assets_def counter_writers)
    have issued: "load_issued_supply s' a = load_issued_supply s a" for a
      by (simp add: fresh(3) load_issued_supply_def all_assets_def counter_writers cong: option.case_cong)
    have mx: "load_max_supply s' a = load_max_supply s a" for a
      by (simp add: fresh(3) load_max_supply_def all_assets_def counter_writers cong: option.case_cong)
    have stored: "get_cf s' (KBurned a) = Some (VU64 0)" for a
      by (cases a) (simp_all add: fresh(3) all_assets_def counter_writers)
    have "supply_ok s' a" for a
      using fresh(1,2) verify_supply_iff [of s]
      by (auto simp: supply_ok_def load_burned_supply_def burned_of_def stored_def stored issued mx schema
          cap_is_live_def ovl_evm_schema_active_def)
    then have "verify_supply_invariants s' = Ok ()" by (simp add: verify_supply_iff)
    then show ?thesis
      by (simp add: schema issued stored migrate_drc_fee_burn_schema_def DRC_FEE_BURN_SCHEMA_VERSION_def
          SCHEMA_VERSION_def all_assets_def)
  qed
qed

definition schema_19_store :: state_store where
  "schema_19_store = [(KSchema, VU32 19), (KIssued DRC, VU64 1000)]"

definition schema_20_store :: state_store where
  "schema_20_store = (case migrate_drc_fee_burn_schema schema_19_store of Inr s \<Rightarrow> s | Inl _ \<Rightarrow> [])"

theorem fee_burn_migration_once_witness:
  "migrate_drc_fee_burn_schema schema_19_store = Ok schema_20_store
   \<and> migrate_drc_fee_burn_schema schema_20_store = Ok schema_20_store
   \<and> verify_supply_invariants schema_20_store = Ok ()"
proof -
  have run: "migrate_drc_fee_burn_schema schema_19_store = Ok schema_20_store" by code_simp
  from fee_burn_migration_once [OF run] run show ?thesis by blast
qed

end
