(* ===== verification/Staking.thy ===== *)
theory Staking
  imports Supply
begin

text \<open>
  Staking for the two validator sets (\<^verbatim>\<open>state-machine/src/staking/mod.rs\<close>): bonding, delegation,
  unbonding, validator-set snapshots, epoch advance with reserve drip and pro-rata rewards,
  slashing, and the signed stake operation.

  Additions written with plain \<open>+\<close> and \<open>sum\<close> in the source wrap in a release build; they wrap here too.
  A walk over the column family visits the store's entries in the store's order and stops at the
  first undecodable record, as the callback's \<open>?\<close> does.
\<close>

section \<open>Parameters\<close>

definition MAX_VALIDATOR_COMMISSION_BPS :: u16 where
  "MAX_VALIDATOR_COMMISSION_BPS = 10000"

record staking_params =
  sp_asset :: native_asset_id
  sp_max_validators :: u32
  sp_min_self_bond :: u64
  sp_unbonding_period_epochs :: u64
  sp_max_commission_bps :: u16
  sp_max_concentration_bps :: u16
  sp_epoch_reserve_drip :: u64

definition ovl_staking_default :: staking_params where
  "ovl_staking_default = \<lparr>sp_asset = OVL, sp_max_validators = 100, sp_min_self_bond = 1000000,
     sp_unbonding_period_epochs = 7, sp_max_commission_bps = 5000, sp_max_concentration_bps = 3000,
     sp_epoch_reserve_drip = WORKING_EPOCH_RESERVE_DRIP\<rparr>"

definition drc_staking_default :: staking_params where
  "drc_staking_default = \<lparr>sp_asset = DRC, sp_max_validators = 100, sp_min_self_bond = 1000000,
     sp_unbonding_period_epochs = 7, sp_max_commission_bps = 5000, sp_max_concentration_bps = 3000,
     sp_epoch_reserve_drip = WORKING_EPOCH_RESERVE_DRIP\<rparr>"

definition validate_asset :: "staking_params \<Rightarrow> unit res" where
  "validate_asset p = (if sp_asset p = TLT then Err (InvalidTx ''staking only for OVL or DRC'') else Ok ())"

definition validate_staking_params :: "staking_params \<Rightarrow> unit res" where
  "validate_staking_params p =
     bind_result (validate_asset p) (\<lambda>_.
     if MAX_VALIDATOR_COMMISSION_BPS < sp_max_commission_bps p
     then Err (InvalidTx ''maximum commission exceeds global basis-point limit'')
     else if sp_max_concentration_bps p = 0 \<or> MAX_VALIDATOR_COMMISSION_BPS < sp_max_concentration_bps p
     then Err (InvalidTx ''validator concentration basis-point policy is invalid'')
     else Ok ())"

definition params_for_asset :: "native_asset_id \<Rightarrow> staking_params" where
  "params_for_asset asset =
     (case asset of OVL \<Rightarrow> ovl_staking_default | DRC \<Rightarrow> drc_staking_default | TLT \<Rightarrow> ovl_staking_default)"

text \<open>
  \<open>parse_key\<close> stands for the secp256k1 point check of \<^verbatim>\<open>parse_compressed_public_key\<close>.
\<close>

definition validate_genesis_registration ::
    "(bytes \<Rightarrow> bool) \<Rightarrow> crypto_env \<Rightarrow> validator_record \<Rightarrow> staking_params \<Rightarrow> unit res" where
  "validate_genesis_registration parse_key env v p =
     bind_result (validate_staking_params p) (\<lambda>_.
     if \<not> parse_key (vr_consensus_pubkey v) then Err (InvalidTx ''invalid consensus pubkey'')
     else if address_from_pubkey env (vr_consensus_pubkey v) \<noteq> vr_operator v
     then Err (InvalidTx ''validator operator does not match consensus pubkey'')
     else if vr_self_bond v < sp_min_self_bond p then Err (InvalidTx ''self-bond below minimum'')
     else if vr_delegated v \<noteq> 0 \<or> vr_status v \<noteq> Bonded \<or> vr_jailed_until_epoch v \<noteq> 0
     then Err (InvalidTx ''genesis validator must begin bonded without delegated or jailed state'')
     else if sp_max_commission_bps p < vr_commission_bps v \<or> MAX_VALIDATOR_COMMISSION_BPS < vr_commission_bps v
     then Err (InvalidTx ''commission too high'')
     else if vr_metadata_hash v = 0 then Err (InvalidTx ''genesis validator metadata hash must be nonzero'')
     else Ok ())"

section \<open>Stored values\<close>

fun as_validator :: "meta_val \<Rightarrow> validator_record option" where
  "as_validator (VValidator x) = Some x"
| "as_validator _ = None"

fun as_delegation :: "meta_val \<Rightarrow> delegation_record option" where
  "as_delegation (VDelegation x) = Some x"
| "as_delegation _ = None"

fun as_unbonding :: "meta_val \<Rightarrow> unbonding_entry option" where
  "as_unbonding (VUnbonding x) = Some x"
| "as_unbonding _ = None"

fun as_snapshot :: "meta_val \<Rightarrow> validator_set_snapshot option" where
  "as_snapshot (VSnapshot x) = Some x"
| "as_snapshot _ = None"

definition load_staking_reserve_remaining :: "state_store \<Rightarrow> native_asset_id \<Rightarrow> u64" where
  "load_staking_reserve_remaining s asset =
     (case stored as_u64 s (KReserve asset) of Some v \<Rightarrow> v | None \<Rightarrow> 0)"

definition load_reward_pool :: "state_store \<Rightarrow> native_asset_id \<Rightarrow> u64" where
  "load_reward_pool s asset = (case stored as_u64 s (KRewardPool asset) of Some v \<Rightarrow> v | None \<Rightarrow> 0)"

definition put_reward_pool_into :: "native_asset_id \<Rightarrow> u64 \<Rightarrow> write_batch" where
  "put_reward_pool_into asset amt = [Put (KRewardPool asset) (VU64 amt)]"

definition credit_reward_pool_into ::
    "state_store \<Rightarrow> native_asset_id \<Rightarrow> u64 \<Rightarrow> (write_batch \<times> u64) res" where
  "credit_reward_pool_into s asset amt =
     (if asset = TLT then Err (InvalidTx ''reward pool only for OVL/DRC'')
      else bind_result (ok_or (checked_add (load_reward_pool s asset) amt) (InvalidTx ''reward pool overflow''))
             (\<lambda>next. Ok (put_reward_pool_into asset next, next)))"

definition credit_fee_share_to_reward_pool ::
    "state_store \<Rightarrow> native_asset_id \<Rightarrow> u64 \<Rightarrow> (write_batch \<times> u64) res" where
  "credit_fee_share_to_reward_pool s asset amt =
     (if asset \<noteq> OVL
      then Err (InvalidTx ''fee-share reward pool only accepts OVL; accepted DRC fees burn'')
      else credit_reward_pool_into s asset amt)"

definition drip_staking_reserve ::
    "state_store \<Rightarrow> native_asset_id \<Rightarrow> u64 \<Rightarrow> (write_batch \<times> u64) res" where
  "drip_staking_reserve s asset amt =
     (if amt = 0 then Ok ([], 0)
      else if asset = TLT then Err (InvalidTx ''cannot drip TLT staking reserve'')
      else let remaining = load_staking_reserve_remaining s asset; drip = min amt remaining
      in if drip = 0 then Ok ([], 0)
      else
      bind_result (ok_or (checked_add (load_issued_supply s asset) drip) (InvalidTx ''issued overflow''))
        (\<lambda>next_issued.
      if cap_is_live asset (load_schema_version s) \<and> load_max_supply s asset < next_issued
      then Err SupplyCapExceeded
      else bind_result (credit_reward_pool_into s asset drip) (\<lambda>(b, _).
        Ok (put_staking_reserve_remaining_into asset (remaining - drip)
            @ put_issued_supply_into asset next_issued @ b, drip))))"

definition load_epoch :: "state_store \<Rightarrow> native_asset_id \<Rightarrow> u64" where
  "load_epoch s asset = (case stored as_u64 s (KEpoch asset) of Some v \<Rightarrow> v | None \<Rightarrow> 0)"

definition put_epoch_into :: "native_asset_id \<Rightarrow> u64 \<Rightarrow> write_batch" where
  "put_epoch_into asset epoch = [Put (KEpoch asset) (VU64 epoch)]"

definition load_validator :: "state_store \<Rightarrow> native_asset_id \<Rightarrow> address \<Rightarrow> validator_record option res" where
  "load_validator s asset op =
     (case get_cf s (KValidator asset op) of
        None \<Rightarrow> Ok None
      | Some v \<Rightarrow> bind_result (decode_as as_validator v) (\<lambda>r. Ok (Some r)))"

definition put_validator_into :: "native_asset_id \<Rightarrow> validator_record \<Rightarrow> write_batch" where
  "put_validator_into asset r = [Put (KValidator asset (vr_operator r)) (VValidator r)]"

definition load_delegation ::
    "state_store \<Rightarrow> native_asset_id \<Rightarrow> address \<Rightarrow> address \<Rightarrow> delegation_record option res" where
  "load_delegation s asset delegator validator =
     (case get_cf s (KDelegation asset delegator validator) of
        None \<Rightarrow> Ok None
      | Some v \<Rightarrow> bind_result (decode_as as_delegation v) (\<lambda>r. Ok (Some r)))"

definition put_delegation_into :: "native_asset_id \<Rightarrow> delegation_record \<Rightarrow> write_batch" where
  "put_delegation_into asset d = [Put (KDelegation asset (dr_delegator d) (dr_validator d)) (VDelegation d)]"

definition load_snapshot :: "state_store \<Rightarrow> native_asset_id \<Rightarrow> u64 \<Rightarrow> validator_set_snapshot option res" where
  "load_snapshot s asset epoch =
     (case get_cf s (KSnapshot asset epoch) of
        None \<Rightarrow> Ok None
      | Some v \<Rightarrow> bind_result (decode_as as_snapshot v) (\<lambda>r. Ok (Some r)))"

definition debit_liquid :: "state_store \<Rightarrow> native_asset_id \<Rightarrow> address \<Rightarrow> u64 \<Rightarrow> write_batch res" where
  "debit_liquid s asset owner amt =
     bind_result (load_account s asset owner) (\<lambda>account.
     if balance account < amt then Err (InvalidTx ''insufficient liquid stake funds'')
     else put_account_into asset owner (account\<lparr>balance := balance account - amt\<rparr>))"

definition credit_liquid :: "state_store \<Rightarrow> native_asset_id \<Rightarrow> address \<Rightarrow> u64 \<Rightarrow> write_batch res" where
  "credit_liquid s asset owner amt =
     bind_result (load_account s asset owner) (\<lambda>account.
     bind_result (ok_or (checked_add (balance account) amt) (InvalidTx ''balance overflow'')) (\<lambda>b.
     put_account_into asset owner (account\<lparr>balance := b\<rparr>)))"

definition stake_meta_keys_touched :: "signed_stake_tx \<Rightarrow> meta_key list" where
  "stake_meta_keys_touched tx =
     [KValidator (st_asset tx) (st_validator tx), KDelegation (st_asset tx) (st_actor tx) (st_validator tx),
      KUnbonding (st_asset tx) (st_actor tx), KRewardPool (st_asset tx)]
     @ (if st_actor tx \<noteq> st_validator tx
        then [KValidator (st_asset tx) (st_actor tx), KUnbonding (st_asset tx) (st_validator tx)] else [])"

definition snapshot_meta_keys :: "state_store \<Rightarrow> meta_key list \<Rightarrow> (meta_key \<times> meta_val option) list" where
  "snapshot_meta_keys s keys = map (\<lambda>k. (k, get_cf s k)) keys"

section \<open>Snapshots\<close>

definition unjail :: "u64 \<Rightarrow> validator_record \<Rightarrow> validator_record" where
  "unjail epoch r =
     (if vr_status r = Jailed \<and> vr_jailed_until_epoch r \<le> epoch then r\<lparr>vr_status := Bonded\<rparr> else r)"

definition snapshot_visit ::
    "native_asset_id \<Rightarrow> u64 \<Rightarrow> (address \<times> u64) list \<Rightarrow> meta_key \<times> meta_val \<Rightarrow> (address \<times> u64) list res" where
  "snapshot_visit asset epoch vs = (\<lambda>(k, v).
     case k of
       KValidator asset' op \<Rightarrow>
         if asset' = asset
         then bind_result (decode_as as_validator v) (\<lambda>record.
                let r = unjail epoch record; pw = voting_power r
                in Ok (if 0 < pw then vs @ [(vr_operator r, pw)] else vs))
         else Ok vs
     | _ \<Rightarrow> Ok vs)"

definition build_snapshot :: "state_store \<Rightarrow> native_asset_id \<Rightarrow> u64 \<Rightarrow> validator_set_snapshot res" where
  "build_snapshot s asset epoch =
     bind_result (fold_result (snapshot_visit asset epoch) [] s) (\<lambda>vs.
     let validators = sort_key fst vs
     in Ok \<lparr>vs_epoch = epoch, vs_asset = asset, vs_validators = validators,
            vs_total_active_stake = sum_list (map snd validators)\<rparr>)"

definition signed_stake_for :: "validator_set_snapshot \<Rightarrow> address list \<Rightarrow> u64" where
  "signed_stake_for snap signers = fold (\<lambda>a tot. saturating_add tot (power_of snap a)) signers 0"

definition validator_key_matches :: "state_store \<Rightarrow> checkpoint_attestation \<Rightarrow> bool res" where
  "validator_key_matches s att =
     bind_result (load_validator s (ca_set att) (ca_validator att)) (\<lambda>v.
     Ok (case v of None \<Rightarrow> False
         | Some r \<Rightarrow> vr_consensus_pubkey r = ca_public_key att \<and> vr_status r = Bonded))"

section \<open>Stake operations\<close>

definition bond_validator ::
    "state_store \<Rightarrow> staking_params \<Rightarrow> address \<Rightarrow> bytes \<Rightarrow> address \<Rightarrow> u64 \<Rightarrow> u16 \<Rightarrow> hash \<Rightarrow> write_batch res" where
  "bond_validator s p operator consensus_pubkey withdrawal self_bond commission_bps metadata_hash =
     bind_result (validate_staking_params p) (\<lambda>_.
     if self_bond < sp_min_self_bond p then Err (InvalidTx ''self-bond below minimum'')
     else if sp_max_commission_bps p < commission_bps then Err (InvalidTx ''commission too high'')
     else if length consensus_pubkey \<noteq> 33 then Err (InvalidTx ''consensus pubkey must be 33 bytes'')
     else
     bind_result (load_validator s (sp_asset p) operator) (\<lambda>existing.
     if (case existing of Some r \<Rightarrow> vr_status r = Tombstoned | None \<Rightarrow> False)
     then Err (InvalidTx ''tombstoned validator'')
     else
     bind_result (build_snapshot s (sp_asset p) (load_epoch s (sp_asset p))) (\<lambda>snap.
     if sp_max_validators p \<le> of_nat (length (vs_validators snap)) \<and> existing = None
     then Err (InvalidTx ''validator set full'')
     else
     bind_result (debit_liquid s (sp_asset p) operator self_bond) (\<lambda>b.
     Ok (b @ put_validator_into (sp_asset p)
               \<lparr>vr_operator = operator, vr_consensus_pubkey = consensus_pubkey, vr_withdrawal = withdrawal,
                vr_self_bond = self_bond, vr_delegated = 0, vr_commission_bps = commission_bps,
                vr_status = Bonded, vr_jailed_until_epoch = 0, vr_metadata_hash = metadata_hash\<rparr>)))))"

definition concentration_bps :: "u64 \<Rightarrow> u64 \<Rightarrow> u16" where
  "concentration_bps pw tot = ucast ((ucast pw :: u128) * 10000 div ucast tot)"

definition delegate ::
    "state_store \<Rightarrow> staking_params \<Rightarrow> address \<Rightarrow> address \<Rightarrow> u64 \<Rightarrow> write_batch res" where
  "delegate s p delegator validator amt =
     bind_result (validate_asset p) (\<lambda>_.
     if amt = 0 then Err (InvalidTx ''zero delegation'')
     else
     bind_result (load_validator s (sp_asset p) validator) (\<lambda>found.
     bind_result (ok_or found (InvalidTx ''unknown validator'')) (\<lambda>val.
     if vr_status val \<noteq> Bonded then Err (InvalidTx ''validator not active'')
     else
     bind_result (build_snapshot s (sp_asset p) (load_epoch s (sp_asset p))) (\<lambda>snap.
     let new_power = saturating_add (voting_power val) amt;
         new_total = saturating_add (vs_total_active_stake snap) amt;
         other_stake = saturating_sub (vs_total_active_stake snap) (voting_power val)
     in if 0 < other_stake \<and> 0 < new_total
           \<and> sp_max_concentration_bps p < concentration_bps new_power new_total
     then Err (InvalidTx ''delegation would exceed concentration limit'')
     else
     bind_result (debit_liquid s (sp_asset p) delegator amt) (\<lambda>b1.
     bind_result (ok_or (checked_add (vr_delegated val) amt) (InvalidTx ''delegated overflow'')) (\<lambda>d.
     bind_result (load_delegation s (sp_asset p) delegator validator) (\<lambda>old.
     let del = (case old of Some r \<Rightarrow> r
                | None \<Rightarrow> \<lparr>dr_delegator = delegator, dr_validator = validator, dr_amount = 0\<rparr>)
     in bind_result (ok_or (checked_add (dr_amount del) amt) (InvalidTx ''delegation overflow'')) (\<lambda>a.
        Ok (b1 @ put_validator_into (sp_asset p) (val\<lparr>vr_delegated := d\<rparr>)
            @ put_delegation_into (sp_asset p) (del\<lparr>dr_amount := a\<rparr>))))))))))"

definition begin_unbond_self :: "state_store \<Rightarrow> staking_params \<Rightarrow> address \<Rightarrow> write_batch res" where
  "begin_unbond_self s p operator =
     bind_result (validate_asset p) (\<lambda>_.
     bind_result (load_validator s (sp_asset p) operator) (\<lambda>found.
     bind_result (ok_or found (InvalidTx ''unknown validator'')) (\<lambda>val.
     if vr_status val = Tombstoned then Err (InvalidTx ''tombstoned'')
     else Ok (put_validator_into (sp_asset p) (val\<lparr>vr_self_bond := 0, vr_status := Unbonding\<rparr>)
              @ [Put (KUnbonding (sp_asset p) operator)
                   (VUnbonding \<lparr>ue_owner = operator, ue_amount = vr_self_bond val,
                      ue_release_epoch = saturating_add (load_epoch s (sp_asset p))
                                           (sp_unbonding_period_epochs p)\<rparr>)]))))"

definition withdraw_unbonded ::
    "state_store \<Rightarrow> staking_params \<Rightarrow> address \<Rightarrow> (write_batch \<times> u64) res" where
  "withdraw_unbonded s p owner =
     bind_result (validate_asset p) (\<lambda>_.
     case get_cf s (KUnbonding (sp_asset p) owner) of
       None \<Rightarrow> Ok ([], 0)
     | Some v \<Rightarrow>
         bind_result (decode_as as_unbonding v) (\<lambda>entry.
         if load_epoch s (sp_asset p) < ue_release_epoch entry
         then Err (InvalidTx ''unbonding period not elapsed'')
         else bind_result (credit_liquid s (sp_asset p) owner (ue_amount entry)) (\<lambda>b.
           Ok (b @ [Delete (KUnbonding (sp_asset p) owner)], ue_amount entry))))"

definition stake_effect ::
    "state_store \<Rightarrow> signed_stake_tx \<Rightarrow> staking_params \<Rightarrow> account_state \<Rightarrow> (write_batch \<times> account_state) res" where
  "stake_effect s tx p account =
     (case st_kind tx of
        Bond \<Rightarrow>
          if st_actor tx \<noteq> st_validator tx then Err (InvalidTx ''bond actor must equal validator'')
          else
          bind_result (bond_validator s p (st_actor tx) (st_consensus_pubkey tx) (st_withdrawal tx)
              (st_amount tx) (st_commission_bps tx) (st_metadata_hash tx)) (\<lambda>b.
          bind_result (ok_or (checked_sub (balance account) (st_amount tx))
              (InvalidTx ''insufficient liquid stake funds'')) (\<lambda>v.
          Ok (b, account\<lparr>balance := v\<rparr>)))
      | Delegate \<Rightarrow>
          bind_result (delegate s p (st_actor tx) (st_validator tx) (st_amount tx)) (\<lambda>b.
          bind_result (ok_or (checked_sub (balance account) (st_amount tx))
              (InvalidTx ''insufficient liquid stake funds'')) (\<lambda>v.
          Ok (b, account\<lparr>balance := v\<rparr>)))
      | UnbondSelf \<Rightarrow>
          bind_result (begin_unbond_self s p (st_actor tx)) (\<lambda>b. Ok (b, account))
      | Withdraw \<Rightarrow>
          bind_result (withdraw_unbonded s p (st_actor tx)) (\<lambda>(b, credited).
          bind_result (ok_or (checked_add (balance account) credited) (InvalidTx ''balance overflow'')) (\<lambda>v.
          Ok (b, account\<lparr>balance := v\<rparr>))))"

definition apply_signed_stake_tx ::
    "crypto_env \<Rightarrow> state_store \<Rightarrow> signed_stake_tx \<Rightarrow> tx_auth_context \<Rightarrow> staking_params \<Rightarrow> write_batch res" where
  "apply_signed_stake_tx env s tx auth p =
     bind_result (validate_asset p) (\<lambda>_.
     if st_asset tx \<noteq> sp_asset p then Err (InvalidTx ''stake asset mismatch'')
     else
     bind_result (verify_drc_stake_operation env s tx auth) (\<lambda>_.
     bind_result (load_account s (st_asset tx) (st_actor tx)) (\<lambda>account.
     if 2 \<le> tx_version tx \<and> st_asset tx \<noteq> DRC
     then Err (InvalidTx ''ticket-aware stake version requires DRC'')
     else
     bind_result (if st_asset tx = DRC then plan_drc_sequence s (st_actor tx) tx 2
                  else plan_nonce account (tx_nonce tx) ''bad stake nonce'') (\<lambda>ctx.
     bind_result (stake_effect s tx p account) (\<lambda>(b, after).
     bind_result (finish_sequence (st_actor tx) after ctx ''nonce overflow'') (\<lambda>(b0, after').
     bind_result (put_account_into (st_asset tx) (st_actor tx) after') (\<lambda>b1.
     Ok (b @ b0 @ b1))))))))"

section \<open>Rewards and slashing\<close>

definition mul_div :: "u64 \<Rightarrow> u64 \<Rightarrow> u64 \<Rightarrow> u64" where
  "mul_div a b c = ucast ((ucast a :: u128) * ucast b div ucast c)"

definition add_credit :: "address \<Rightarrow> u64 \<Rightarrow> (address \<times> u64) list \<Rightarrow> (address \<times> u64) list" where
  "add_credit a amt credits =
     (case map_of credits a of
        Some v \<Rightarrow> AList.update a (saturating_add v amt) credits
      | None \<Rightarrow> AList.update a amt credits)"

definition delegator_visit ::
    "native_asset_id \<Rightarrow> address \<Rightarrow> u64 \<Rightarrow> u64 \<Rightarrow> (address \<times> u64) list \<times> u64
     \<Rightarrow> meta_key \<times> meta_val \<Rightarrow> ((address \<times> u64) list \<times> u64) res" where
  "delegator_visit asset op after_commission bonded = (\<lambda>(dels, paid) (k, v).
     case k of
       KDelegation asset' _ op' \<Rightarrow>
         if asset' = asset \<and> op' = op
         then bind_result (decode_as as_delegation v) (\<lambda>del.
                if dr_amount del = 0 then Ok (dels, paid)
                else let piece = mul_div after_commission (dr_amount del) bonded
                     in Ok (if 0 < piece then (dels @ [(dr_delegator del, piece)], saturating_add paid piece)
                            else (dels, paid)))
         else Ok (dels, paid)
     | _ \<Rightarrow> Ok (dels, paid))"

definition reward_validator ::
    "state_store \<Rightarrow> native_asset_id \<Rightarrow> validator_set_snapshot \<Rightarrow> u64 \<Rightarrow> u64 \<times> (address \<times> u64) list
     \<Rightarrow> address \<times> u64 \<Rightarrow> (u64 \<times> (address \<times> u64) list) res" where
  "reward_validator s asset snap pool = (\<lambda>(remaining, credits) (op, pw).
     if pw = 0 then Ok (remaining, credits)
     else
     let share = mul_div pool pw (vs_total_active_stake snap) in
     if share = 0 then Ok (remaining, credits)
     else
     bind_result (load_validator s asset op) (\<lambda>found.
     case found of
       None \<Rightarrow> Ok (remaining, credits)
     | Some val \<Rightarrow>
         let commission = mul_div share (ucast (vr_commission_bps val)) (ucast MAX_VALIDATOR_COMMISSION_BPS);
             after_commission = saturating_sub share commission;
             bonded = max (saturating_add (vr_self_bond val) (vr_delegated val)) 1;
             op_stake_share = mul_div after_commission (vr_self_bond val) bonded
         in bind_result (fold_result (delegator_visit asset op after_commission bonded) ([], 0) s)
              (\<lambda>(del_credits, del_paid).
            let credits1 = fold (\<lambda>(a, amt). add_credit a amt) del_credits credits;
                unpaid = saturating_sub after_commission (op_stake_share + del_paid);
                to_operator = saturating_add (saturating_add commission op_stake_share) unpaid;
                credits2 = (if 0 < to_operator then add_credit (vr_withdrawal val) to_operator credits1 else credits1)
            in Ok (saturating_sub remaining share, credits2))))"

definition credit_all :: "state_store \<Rightarrow> native_asset_id \<Rightarrow> (address \<times> u64) list \<Rightarrow> write_batch res" where
  "credit_all s asset credits =
     fold_result (\<lambda>b (a, amt). bind_result (credit_liquid s asset a amt) (\<lambda>b'. Ok (b @ b'))) [] credits"

definition distribute_reward_pool_amount ::
    "state_store \<Rightarrow> native_asset_id \<Rightarrow> validator_set_snapshot \<Rightarrow> u64 \<Rightarrow> (write_batch \<times> u64) res" where
  "distribute_reward_pool_amount s asset snap pool =
     (if pool = 0 \<or> vs_total_active_stake snap = 0 then Ok ([], 0)
      else
      bind_result (fold_result (reward_validator s asset snap pool) (pool, []) (vs_validators snap))
        (\<lambda>(remaining, credits).
      bind_result (credit_all s asset (sort_key fst credits)) (\<lambda>b.
      Ok (b @ put_reward_pool_into asset remaining, saturating_sub pool remaining))))"

definition distribute_reward_pool ::
    "state_store \<Rightarrow> native_asset_id \<Rightarrow> validator_set_snapshot \<Rightarrow> (write_batch \<times> u64) res" where
  "distribute_reward_pool s asset snap = distribute_reward_pool_amount s asset snap (load_reward_pool s asset)"

definition advance_epoch_with_params ::
    "state_store \<Rightarrow> staking_params \<Rightarrow> (write_batch \<times> validator_set_snapshot) res" where
  "advance_epoch_with_params s p =
     bind_result (validate_asset p) (\<lambda>_.
     bind_result (if 0 < sp_epoch_reserve_drip p
                  then drip_staking_reserve s (sp_asset p) (sp_epoch_reserve_drip p) else Ok ([], 0))
       (\<lambda>(b1, dripped).
     let epoch = saturating_add (load_epoch s (sp_asset p)) 1 in
     bind_result (build_snapshot s (sp_asset p) epoch) (\<lambda>snap.
     let pool = saturating_add (load_reward_pool s (sp_asset p)) dripped in
     bind_result (distribute_reward_pool_amount s (sp_asset p) snap pool) (\<lambda>(b2, _).
     Ok (b1 @ put_epoch_into (sp_asset p) epoch
           @ [Put (KSnapshot (sp_asset p) epoch) (VSnapshot snap)] @ b2, snap)))))"

definition advance_epoch ::
    "state_store \<Rightarrow> native_asset_id \<Rightarrow> (write_batch \<times> validator_set_snapshot) res" where
  "advance_epoch s asset = advance_epoch_with_params s (params_for_asset asset)"

definition slash_validator :: "u64 \<Rightarrow> bool \<Rightarrow> u64 \<Rightarrow> u64 \<Rightarrow> validator_record \<Rightarrow> validator_record" where
  "slash_validator slash tombstone jail_epochs epoch val =
     (let from_self = min slash (vr_self_bond val);
          from_del = min (slash - from_self) (vr_delegated val);
          v1 = val\<lparr>vr_self_bond := vr_self_bond val - from_self, vr_delegated := vr_delegated val - from_del\<rparr>
      in if tombstone then v1\<lparr>vr_status := Tombstoned\<rparr>
         else if 0 < jail_epochs
         then v1\<lparr>vr_status := Jailed, vr_jailed_until_epoch := saturating_add epoch jail_epochs\<rparr>
         else v1)"

definition apply_evidence ::
    "state_store \<Rightarrow> validator_evidence \<Rightarrow> slash_policy \<Rightarrow> (write_batch \<times> u64) res" where
  "apply_evidence s ev pol =
     (if ve_set ev = TLT then Err (InvalidTx ''bad evidence set'')
      else
      bind_result (load_validator s (ve_set ev) (ve_validator ev)) (\<lambda>found.
      bind_result (ok_or found (InvalidTx ''unknown validator'')) (\<lambda>val.
      let bonded = saturating_add (vr_self_bond val) (vr_delegated val) in
      case penalty_for pol (ve_kind ev) bonded of (slash, tombstone, jail_epochs) \<Rightarrow>
      let b = put_validator_into (ve_set ev)
                (slash_validator slash tombstone jail_epochs (load_epoch s (ve_set ev)) val)
      in if 0 < slash
         then bind_result (credit_reward_pool_into s (ve_set ev) slash) (\<lambda>(b', _). Ok (b @ b', slash))
         else Ok (b, slash))))"

section \<open>Sums over stored records\<close>

definition sum_stored :: "(meta_val \<Rightarrow> 'r option) \<Rightarrow> ('k::finite \<Rightarrow> meta_key) \<Rightarrow> ('r \<Rightarrow> nat) \<Rightarrow> state_store \<Rightarrow> nat" where
  "sum_stored f key g s = (\<Sum>a\<in>UNIV. case stored f s (key a) of Some r \<Rightarrow> g r | None \<Rightarrow> 0)"

lemma sum_stored_upd:
  assumes "inj key" and "\<And>a'. stored f s' (key a') = ((\<lambda>a'. stored f s (key a'))(a := v)) a'"
  shows "sum_stored f key g s' + (case stored f s (key a) of Some r \<Rightarrow> g r | None \<Rightarrow> 0)
       = sum_stored f key g s + (case v of Some r \<Rightarrow> g r | None \<Rightarrow> 0)"
proof -
  have "(\<Sum>x\<in>UNIV. case stored f s' (key x) of Some r \<Rightarrow> g r | None \<Rightarrow> 0)
      = (\<Sum>x\<in>UNIV. ((\<lambda>x. case stored f s (key x) of Some r \<Rightarrow> g r | None \<Rightarrow> 0)
           (a := (case v of Some r \<Rightarrow> g r | None \<Rightarrow> 0))) x)"
    by (intro sum.cong) (auto simp: assms(2))
  then show ?thesis
    using sum_fun_upd [of "\<lambda>x. case stored f s (key x) of Some r \<Rightarrow> g r | None \<Rightarrow> 0" a
        "case v of Some r \<Rightarrow> g r | None \<Rightarrow> 0"]
    by (simp only: sum_stored_def)
qed

lemma sum_stored_cong:
  "(\<And>a. stored f s' (key a) = stored f s (key a)) \<Longrightarrow> sum_stored f key g s' = sum_stored f key g s"
  by (simp add: sum_stored_def)

lemma stored_frame: "k \<notin> op_key ` set b \<Longrightarrow> stored f (apply_batch b s) k = stored f s k"
  by (simp add: stored_def get_cf_frame)

lemma stored_delete [simp]:
  "stored f (AList.delete k s) k' = (if k' = k then None else stored f s k')"
  by (simp add: stored_def)

lemma total_balance_upd:
  assumes "\<And>a. acct s' asset a = ((acct s asset)(x := st)) a"
  shows "total_balance s' asset + unat (balance (acct s asset x)) = total_balance s asset + unat (balance st)"
proof -
  have "(\<Sum>a\<in>UNIV. unat (balance (acct s' asset a)))
      = (\<Sum>a\<in>UNIV. ((\<lambda>a. unat (balance (acct s asset a)))(x := unat (balance st))) a)"
    by (intro sum.cong) (auto simp: assms)
  then show ?thesis
    using sum_fun_upd [of "\<lambda>a. unat (balance (acct s asset a))" x "unat (balance st)"]
    by (simp only: total_balance_def)
qed

section \<open>Where the stake is\<close>

definition validator_at :: "state_store \<Rightarrow> native_asset_id \<Rightarrow> address \<Rightarrow> validator_record option" where
  "validator_at s asset a = stored as_validator s (KValidator asset a)"

definition bonded_stake :: "validator_record \<Rightarrow> nat" where
  "bonded_stake r = unat (vr_self_bond r) + unat (vr_delegated r)"

definition staked :: "state_store \<Rightarrow> native_asset_id \<Rightarrow> nat" where
  "staked s asset = sum_stored as_validator (KValidator asset) bonded_stake s"

definition unbonding_at :: "state_store \<Rightarrow> native_asset_id \<Rightarrow> address \<Rightarrow> nat" where
  "unbonding_at s asset a = (case stored as_unbonding s (KUnbonding asset a) of Some e \<Rightarrow> unat (ue_amount e) | None \<Rightarrow> 0)"

definition unbonding :: "state_store \<Rightarrow> native_asset_id \<Rightarrow> nat" where
  "unbonding s asset = sum_stored as_unbonding (KUnbonding asset) (\<lambda>e. unat (ue_amount e)) s"

definition bonded_at :: "state_store \<Rightarrow> native_asset_id \<Rightarrow> address \<Rightarrow> nat" where
  "bonded_at s asset a = (case validator_at s asset a of Some r \<Rightarrow> bonded_stake r | None \<Rightarrow> 0)"

definition stake_total :: "state_store \<Rightarrow> native_asset_id \<Rightarrow> nat" where
  "stake_total s asset = total_balance s asset + staked s asset + unbonding s asset"

definition keyed_records :: "state_store \<Rightarrow> native_asset_id \<Rightarrow> bool" where
  "keyed_records s asset \<longleftrightarrow>
     (\<forall>a r. validator_at s asset a = Some r \<longrightarrow> vr_operator r = a)
     \<and> (\<forall>d a r. stored as_delegation s (KDelegation asset d a) = Some r \<longrightarrow> dr_delegator r = d \<and> dr_validator r = a)"

lemma as_stake_simps [simp]:
  "as_validator v = Some r \<longleftrightarrow> v = VValidator r"
  "as_delegation v = Some d \<longleftrightarrow> v = VDelegation d"
  "as_unbonding v = Some u \<longleftrightarrow> v = VUnbonding u"
  "as_snapshot v = Some n \<longleftrightarrow> v = VSnapshot n"
  by (cases v; simp)+

lemma load_validator_Ok:
  "load_validator s asset a = Ok r \<Longrightarrow> validator_at s asset a = r"
  by (auto simp: load_validator_def validator_at_def stored_def split: option.splits)

lemma load_delegation_Ok:
  "load_delegation s asset d a = Ok r \<Longrightarrow> stored as_delegation s (KDelegation asset d a) = r"
  by (auto simp: load_delegation_def stored_def split: option.splits)

lemma debit_liquid_Ok:
  "debit_liquid s asset a amt = Ok b \<longleftrightarrow>
     (\<exists>st. load_account s asset a = Ok st \<and> amt \<le> balance st
        \<and> b = [Put (KAccount asset a) (VAccount (st\<lparr>balance := balance st - amt\<rparr>))])"
  by (auto simp: debit_liquid_def not_less dest: load_account_Ok)

lemma credit_liquid_Ok:
  "credit_liquid s asset a amt = Ok b \<longleftrightarrow>
     (\<exists>st v. load_account s asset a = Ok st \<and> checked_add (balance st) amt = Some v
        \<and> b = [Put (KAccount asset a) (VAccount (st\<lparr>balance := v\<rparr>))])"
  by (auto simp: credit_liquid_def dest: load_account_Ok)

text \<open>
  What an accepted stake operation does to its own records: which keys its batch may touch, what the
  validator and unbonding records of the store become, and the balance it leaves. \<open>written\<close> is the batch
  before the sequence is consumed and the account is written.
\<close>

definition stake_keys :: "signed_stake_tx \<Rightarrow> meta_key set" where
  "stake_keys tx = {KAccount (st_asset tx) (st_actor tx), KValidator (st_asset tx) (st_actor tx),
     KValidator (st_asset tx) (st_validator tx), KDelegation (st_asset tx) (st_actor tx) (st_validator tx),
     KUnbonding (st_asset tx) (st_actor tx)}"

definition stake_lost :: "state_store \<Rightarrow> signed_stake_tx \<Rightarrow> nat" where
  "stake_lost s tx =
     (case st_kind tx of
        Bond \<Rightarrow> bonded_at s (st_asset tx) (st_actor tx)
      | UnbondSelf \<Rightarrow> unbonding_at s (st_asset tx) (st_actor tx)
      | _ \<Rightarrow> 0)"

lemma inj_keys [simp]: "inj (KValidator asset)" "inj (KUnbonding asset)" "inj (KAccount asset)"
  by (auto simp: inj_def)

lemma bondE:
  assumes "bond_validator s p a pk w amt com meta = Ok b"
  obtains st where "load_account s (sp_asset p) a = Ok st" "amt \<le> balance st"
    "b = [Put (KAccount (sp_asset p) a) (VAccount (st\<lparr>balance := balance st - amt\<rparr>)),
          Put (KValidator (sp_asset p) a) (VValidator
            \<lparr>vr_operator = a, vr_consensus_pubkey = pk, vr_withdrawal = w,
             vr_self_bond = amt, vr_delegated = 0, vr_commission_bps = com,
             vr_status = Bonded, vr_jailed_until_epoch = 0, vr_metadata_hash = meta\<rparr>)]"
    "\<And>r. validator_at s (sp_asset p) a = Some r \<Longrightarrow> vr_status r \<noteq> Tombstoned"
  using assms
  by (auto simp: bond_validator_def debit_liquid_Ok put_validator_into_def split: if_splits option.splits
      dest!: load_validator_Ok)

lemma delegateE:
  assumes "delegate s p d a amt = Ok b" and "keyed_records s (sp_asset p)"
  obtains st val n del m where "load_account s (sp_asset p) d = Ok st" "amt \<le> balance st" "amt \<noteq> 0"
    "validator_at s (sp_asset p) a = Some val" "vr_operator val = a" "vr_status val = Bonded"
    "checked_add (vr_delegated val) amt = Some n" "checked_add (dr_amount del) amt = Some m"
    "del = (case stored as_delegation s (KDelegation (sp_asset p) d a) of Some r \<Rightarrow> r
             | None \<Rightarrow> \<lparr>dr_delegator = d, dr_validator = a, dr_amount = 0\<rparr>)"
    "dr_delegator del = d" "dr_validator del = a"
    "b = [Put (KAccount (sp_asset p) d) (VAccount (st\<lparr>balance := balance st - amt\<rparr>)),
          Put (KValidator (sp_asset p) a) (VValidator (val\<lparr>vr_delegated := n\<rparr>)),
          Put (KDelegation (sp_asset p) d a) (VDelegation (del\<lparr>dr_amount := m\<rparr>))]"
proof -
  from assms(1) obtain st val n old m where *: "load_account s (sp_asset p) d = Ok st" "amt \<le> balance st" "amt \<noteq> 0"
    "load_validator s (sp_asset p) a = Ok (Some val)" "vr_status val = Bonded"
    "checked_add (vr_delegated val) amt = Some n" "load_delegation s (sp_asset p) d a = Ok old"
    "checked_add (dr_amount (case old of Some r \<Rightarrow> r
             | None \<Rightarrow> \<lparr>dr_delegator = d, dr_validator = a, dr_amount = 0\<rparr>)) amt = Some m"
    "b = [Put (KAccount (sp_asset p) d) (VAccount (st\<lparr>balance := balance st - amt\<rparr>))]
         @ put_validator_into (sp_asset p) (val\<lparr>vr_delegated := n\<rparr>)
         @ put_delegation_into (sp_asset p) ((case old of Some r \<Rightarrow> r
             | None \<Rightarrow> \<lparr>dr_delegator = d, dr_validator = a, dr_amount = 0\<rparr>)\<lparr>dr_amount := m\<rparr>)"
    unfolding delegate_def Let_def by (auto simp: debit_liquid_Ok split: if_splits)
  note keyed = assms(2) [unfolded keyed_records_def]
  note v = load_validator_Ok [OF *(4)] and o = load_delegation_Ok [OF *(7)]
  have "vr_operator val = a" using keyed v by blast
  moreover have "dr_delegator (case old of Some r \<Rightarrow> r | None \<Rightarrow> \<lparr>dr_delegator = d, dr_validator = a, dr_amount = 0\<rparr>) = d"
    "dr_validator (case old of Some r \<Rightarrow> r | None \<Rightarrow> \<lparr>dr_delegator = d, dr_validator = a, dr_amount = 0\<rparr>) = a"
    using keyed o by (cases old; auto)+
  ultimately show ?thesis
    using * v o by (intro that [of st val n _ m]) (simp_all add: put_validator_into_def put_delegation_into_def)
qed

lemma unbondE:
  assumes "begin_unbond_self s p a = Ok b" and "keyed_records s (sp_asset p)"
  obtains val where "validator_at s (sp_asset p) a = Some val" "vr_operator val = a" "vr_status val \<noteq> Tombstoned"
    "b = [Put (KValidator (sp_asset p) a) (VValidator (val\<lparr>vr_self_bond := 0, vr_status := Unbonding\<rparr>)),
          Put (KUnbonding (sp_asset p) a) (VUnbonding \<lparr>ue_owner = a, ue_amount = vr_self_bond val,
             ue_release_epoch = saturating_add (load_epoch s (sp_asset p)) (sp_unbonding_period_epochs p)\<rparr>)]"
  using assms
  by (auto simp: begin_unbond_self_def put_validator_into_def keyed_records_def split: if_splits
      dest!: load_validator_Ok)

lemma withdrawE:
  assumes "withdraw_unbonded s p a = Ok (b, n)"
  obtains (nothing) "b = []" "n = 0" "get_cf s (KUnbonding (sp_asset p) a) = None"
  | (matured) e st v where "get_cf s (KUnbonding (sp_asset p) a) = Some (VUnbonding e)" "n = ue_amount e"
      "ue_release_epoch e \<le> load_epoch s (sp_asset p)" "load_account s (sp_asset p) a = Ok st"
      "checked_add (balance st) n = Some v"
      "b = [Put (KAccount (sp_asset p) a) (VAccount (st\<lparr>balance := v\<rparr>)), Delete (KUnbonding (sp_asset p) a)]"
  using assms
  by (auto simp: withdraw_unbonded_def credit_liquid_Ok not_less split: if_splits option.splits)

lemmas stake_sums = staked_def unbonding_def unbonding_at_def bonded_at_def validator_at_def

lemma staked_upd:
  assumes "\<And>a'. stored as_validator s' (KValidator asset a')
      = ((\<lambda>a'. stored as_validator s (KValidator asset a'))(a := Some r)) a'"
  shows "staked s' asset + bonded_at s asset a = staked s asset + bonded_stake r"
  using sum_stored_upd [of "KValidator asset" as_validator s' s a "Some r" bonded_stake] assms
  by (simp add: stake_sums)

lemma unbonding_upd:
  assumes "\<And>a'. stored as_unbonding s' (KUnbonding asset a')
      = ((\<lambda>a'. stored as_unbonding s (KUnbonding asset a'))(a := e)) a'"
  shows "unbonding s' asset + unbonding_at s asset a
       = unbonding s asset + (case e of Some e \<Rightarrow> unat (ue_amount e) | None \<Rightarrow> 0)"
  using sum_stored_upd [of "KUnbonding asset" as_unbonding s' s a e "\<lambda>e. unat (ue_amount e)"] assms
  by (simp add: stake_sums)

lemma staked_cong:
  "(\<And>a'. stored as_validator s' (KValidator asset a') = stored as_validator s (KValidator asset a'))
     \<Longrightarrow> staked s' asset = staked s asset"
  by (simp add: staked_def sum_stored_def)

lemma unbonding_cong:
  "(\<And>a'. stored as_unbonding s' (KUnbonding asset a') = stored as_unbonding s (KUnbonding asset a'))
     \<Longrightarrow> unbonding s' asset = unbonding s asset"
  by (simp add: unbonding_def sum_stored_def)

text \<open>What the part of the batch written by the operation itself achieves.\<close>

definition effect_ok ::
    "state_store \<Rightarrow> staking_params \<Rightarrow> signed_stake_tx \<Rightarrow> account_state \<Rightarrow> write_batch \<Rightarrow> account_state \<Rightarrow> bool" where
  "effect_ok s p tx account b after \<longleftrightarrow>
     op_key ` set b \<subseteq> stake_keys tx \<and> nonce after = nonce account
     \<and> staked (apply_batch b s) (sp_asset p) + unbonding (apply_batch b s) (sp_asset p)
           + unat (balance after) + stake_lost s tx
         = staked s (sp_asset p) + unbonding s (sp_asset p) + unat (balance account)
     \<and> keyed_records (apply_batch b s) (sp_asset p)"

lemma bond_effect:
  assumes bond: "bond_validator s p (st_actor tx) pk w (st_amount tx) com meta = Ok b"
    and v: "checked_sub (balance account) (st_amount tx) = Some v"
    and tx: "st_asset tx = sp_asset p" "st_kind tx = Bond" and keyed: "keyed_records s (sp_asset p)"
  shows "effect_ok s p tx account b (account\<lparr>balance := v\<rparr>)"
proof -
  let ?s = "apply_batch b s" and ?A = "sp_asset p" and ?a = "st_actor tx"
  from bond obtain st r where b: "b = [Put (KAccount ?A ?a) (VAccount st), Put (KValidator ?A ?a) (VValidator r)]"
    and r: "vr_operator r = ?a" "bonded_stake r = unat (st_amount tx)"
    by (rule bondE) (auto simp: bonded_stake_def)
  have "staked ?s ?A + bonded_at s ?A ?a = staked s ?A + unat (st_amount tx)"
    using staked_upd [of ?s ?A s ?a r] by (simp add: b r)
  moreover have "unbonding ?s ?A = unbonding s ?A" by (rule unbonding_cong) (simp add: b)
  moreover have "keyed_records ?s ?A" using keyed r by (simp add: keyed_records_def b validator_at_def)
  ultimately show ?thesis using checked_sub_Some [OF v] tx
    by (simp add: effect_ok_def stake_lost_def stake_keys_def b)
qed

lemma delegate_effect:
  assumes del: "delegate s p (st_actor tx) (st_validator tx) (st_amount tx) = Ok b"
    and v: "checked_sub (balance account) (st_amount tx) = Some v"
    and tx: "st_asset tx = sp_asset p" "st_kind tx = Delegate" and keyed: "keyed_records s (sp_asset p)"
  shows "effect_ok s p tx account b (account\<lparr>balance := v\<rparr>)"
proof -
  let ?s = "apply_batch b s" and ?A = "sp_asset p" and ?a = "st_actor tx"
  from del keyed obtain st val n d where
    b: "b = [Put (KAccount ?A ?a) (VAccount st), Put (KValidator ?A (st_validator tx)) (VValidator (val\<lparr>vr_delegated := n\<rparr>)),
             Put (KDelegation ?A ?a (st_validator tx)) (VDelegation d)]"
    and val: "validator_at s ?A (st_validator tx) = Some val" "vr_operator val = st_validator tx"
    and n: "checked_add (vr_delegated val) (st_amount tx) = Some n"
    and d: "dr_delegator d = ?a" "dr_validator d = st_validator tx"
    by (rule delegateE) auto
  have "staked ?s ?A = staked s ?A + unat (st_amount tx)"
    using staked_upd [of ?s ?A s "st_validator tx" "val\<lparr>vr_delegated := n\<rparr>"] checked_add_Some [OF n] val
    by (simp add: b bonded_at_def bonded_stake_def)
  moreover have "unbonding ?s ?A = unbonding s ?A" by (rule unbonding_cong) (simp add: b)
  moreover have "keyed_records ?s ?A" using keyed val d by (simp add: keyed_records_def b validator_at_def)
  ultimately show ?thesis using checked_sub_Some [OF v] tx
    by (simp add: effect_ok_def stake_lost_def stake_keys_def b)
qed

lemma unbond_effect:
  assumes ub: "begin_unbond_self s p (st_actor tx) = Ok b"
    and tx: "st_asset tx = sp_asset p" "st_kind tx = UnbondSelf" and keyed: "keyed_records s (sp_asset p)"
  shows "effect_ok s p tx account b account"
proof -
  let ?s = "apply_batch b s" and ?A = "sp_asset p" and ?a = "st_actor tx"
  from ub keyed obtain val e where val: "validator_at s ?A ?a = Some val" "vr_operator val = ?a"
    and b: "b = [Put (KValidator ?A ?a) (VValidator (val\<lparr>vr_self_bond := 0, vr_status := Unbonding\<rparr>)),
                 Put (KUnbonding ?A ?a) (VUnbonding e)]" and e: "ue_amount e = vr_self_bond val"
    by (rule unbondE) auto
  have "staked ?s ?A + unat (vr_self_bond val) = staked s ?A"
    using staked_upd [of ?s ?A s ?a "val\<lparr>vr_self_bond := 0, vr_status := Unbonding\<rparr>"] val
    by (simp add: b bonded_at_def bonded_stake_def)
  moreover have "unbonding ?s ?A + unbonding_at s ?A ?a = unbonding s ?A + unat (vr_self_bond val)"
    using unbonding_upd [of ?s ?A s ?a "Some e"] e by (simp add: b)
  moreover have "keyed_records ?s ?A" using keyed val by (simp add: keyed_records_def b validator_at_def)
  ultimately show ?thesis using tx by (simp add: effect_ok_def stake_lost_def stake_keys_def b)
qed

lemma withdraw_effect:
  assumes wd: "withdraw_unbonded s p (st_actor tx) = Ok (b, n)" and v: "checked_add (balance account) n = Some v"
    and tx: "st_asset tx = sp_asset p" "st_kind tx = Withdraw" and keyed: "keyed_records s (sp_asset p)"
  shows "effect_ok s p tx account b (account\<lparr>balance := v\<rparr>)"
  using wd
proof (cases rule: withdrawE)
  case nothing
  then show ?thesis using checked_add_Some [OF v] tx keyed
    by (simp add: effect_ok_def stake_lost_def stake_keys_def)
next
  case (matured e st w)
  let ?s = "apply_batch b s" and ?A = "sp_asset p"
  have "staked ?s ?A = staked s ?A" by (rule staked_cong) (simp add: matured)
  moreover have "unbonding ?s ?A + unat n = unbonding s ?A"
    using unbonding_upd [of ?s ?A s "st_actor tx" None] by (simp add: matured unbonding_at_def stored_def)
  moreover have "keyed_records ?s ?A" using keyed by (simp add: keyed_records_def matured validator_at_def)
  ultimately show ?thesis using checked_add_Some [OF v] tx matured
    by (simp add: effect_ok_def stake_lost_def stake_keys_def)
qed

lemma stake_effect_Ok:
  assumes "stake_effect s tx p account = Ok (b, after)"
    and "st_asset tx = sp_asset p" and "keyed_records s (sp_asset p)"
  shows "effect_ok s p tx account b after"
  using assms bond_effect delegate_effect unbond_effect withdraw_effect
  by (cases "st_kind tx") (auto simp: stake_effect_def split: if_splits)

lemma stake_Ok:
  assumes "apply_signed_stake_tx env s tx auth p = Ok b" and "keyed_records s (sp_asset p)"
  obtains b1 after b0 account' where
    "sp_asset p \<noteq> TLT" "st_asset tx = sp_asset p" "verify_drc_stake_operation env s tx auth = Ok ()"
    "b = b1 @ b0 @ [Put (KAccount (sp_asset p) (st_actor tx)) (VAccount account')]"
    "effect_ok s p tx (acct s (sp_asset p) (st_actor tx)) b1 after"
    "op_key ` set b0 \<subseteq> {KTickets (st_actor tx)}" "balance account' = balance after"
    "sp_asset p = DRC \<Longrightarrow> consumes s (st_actor tx) (selector_of tx 2) after account' b0"
    "sp_asset p \<noteq> DRC \<Longrightarrow> b0 = [] \<and> nonce (acct s (sp_asset p) (st_actor tx)) = tx_nonce tx
       \<and> unat (nonce account') = unat (tx_nonce tx) + 1"
proof -
  let ?A = "sp_asset p" and ?a = "st_actor tx"
  from assms(1) obtain account ctx b1 after b0 account' where
    asset: "?A \<noteq> TLT" "st_asset tx = ?A" and ver: "verify_drc_stake_operation env s tx auth = Ok ()"
    and acc: "load_account s ?A ?a = Ok account"
    and plan: "(if ?A = DRC then plan_drc_sequence s ?a tx 2
                else plan_nonce account (tx_nonce tx) ''bad stake nonce'') = Ok ctx"
    and eff: "stake_effect s tx p account = Ok (b1, after)"
    and fin: "finish_sequence ?a after ctx ''nonce overflow'' = Ok (b0, account')"
    and b: "b = b1 @ b0 @ [Put (KAccount ?A ?a) (VAccount account')]"
    by (auto simp: apply_signed_stake_tx_def validate_asset_def split: if_splits)
  note acct = load_account_Ok [OF acc, THEN conjunct2]
  have eff_ok: "effect_ok s p tx (acct s ?A ?a) b1 after"
    using stake_effect_Ok [OF eff asset(2) assms(2)] acct by simp
  then have n: "nonce after = nonce account" using acct by (simp add: effect_ok_def)
  have drc: "consumes s ?a (selector_of tx 2) after account' b0" if "?A = DRC"
    using plan_drc_consumes [OF _ fin] plan that by simp
  have other: "nonce account = tx_nonce tx \<and> b0 = [] \<and> balance account' = balance after
      \<and> unat (nonce account') = unat (tx_nonce tx) + 1" if "?A \<noteq> DRC"
    using plan_nonce_consumes [OF _ fin n] plan that by simp
  have "op_key ` set b0 \<subseteq> {KTickets ?a}" and "balance account' = balance after"
    using other drc consumes_keys [OF drc] by (cases "?A = DRC"; simp add: consumes_def)+
  then show ?thesis
    using asset ver b eff_ok drc other acct by (intro that [of b1 b0 account' after]) simp_all
qed

lemma stake_total_after:
  assumes "apply_signed_stake_tx env s tx auth p = Ok b" and "keyed_records s (sp_asset p)"
  shows "stake_total (apply_batch b s) (sp_asset p) + stake_lost s tx = stake_total s (sp_asset p)"
    and "keyed_records (apply_batch b s) (sp_asset p)"
proof -
  let ?A = "sp_asset p" and ?a = "st_actor tx"
  from assms obtain b1 after b0 account' where tx: "st_asset tx = ?A"
    and b: "b = b1 @ b0 @ [Put (KAccount ?A ?a) (VAccount account')]"
    and eff: "effect_ok s p tx (acct s ?A ?a) b1 after"
    and b0: "op_key ` set b0 \<subseteq> {KTickets ?a}" and bal: "balance account' = balance after"
    by (rule stake_Ok)
  let ?s1 = "apply_batch b1 s" and ?s2 = "apply_batch b0 (apply_batch b1 s)"
  have keys: "op_key ` set b1 \<subseteq> stake_keys tx" using eff by (simp add: effect_ok_def)
  have rest: "stored f ?s2 k = stored f ?s1 k" if "k \<noteq> KTickets ?a" for f k
    using b0 that by (intro stored_frame) auto
  have "acct (apply_batch b s) ?A a = ((acct s ?A)(?a := account')) a" for a
  proof (cases "a = ?a")
    case False
    then have "KAccount ?A a \<notin> op_key ` set b1" using keys tx by (auto simp: stake_keys_def)
    then have "acct ?s1 ?A a = acct s ?A a" by (rule acct_frame)
    with False rest [of "KAccount ?A a" as_account] show ?thesis by (simp add: b acct_def)
  qed (simp add: b)
  then have "total_balance (apply_batch b s) ?A + unat (balance (acct s ?A ?a))
      = total_balance s ?A + unat (balance account')" by (rule total_balance_upd)
  moreover have "staked (apply_batch b s) ?A = staked ?s1 ?A"
    "unbonding (apply_batch b s) ?A = unbonding ?s1 ?A"
    by (rule staked_cong unbonding_cong; simp add: b rest)+
  ultimately show "stake_total (apply_batch b s) ?A + stake_lost s tx = stake_total s ?A"
    using eff bal by (simp add: stake_total_def effect_ok_def)
  show "keyed_records (apply_batch b s) ?A"
    using eff by (simp add: b effect_ok_def keyed_records_def validator_at_def rest)
qed


text \<open>
  Property C12. Where the stake goes. An accepted stake operation moves stake between the liquid
  balances, the validator records and the unbonding queue of its asset without creating any; the
  only stake that disappears is what \<open>stake_lost\<close> names: bonding over an existing validator record
  drops what that record held, and unbonding over a pending unbonding entry drops that entry.
\<close>

theorem signed_stake_conserves:
  assumes "apply_signed_stake_tx env s tx auth p = Ok b" and "keyed_records s (sp_asset p)"
  shows "stake_total (apply_batch b s) (sp_asset p) + stake_lost s tx = stake_total s (sp_asset p)
    \<and> keyed_records (apply_batch b s) (sp_asset p)
    \<and> (st_kind tx = Bond \<and> validator_at s (sp_asset p) (st_actor tx) = None \<longrightarrow> stake_lost s tx = 0)
    \<and> (st_kind tx \<in> {Delegate, Withdraw} \<longrightarrow> stake_lost s tx = 0)"
proof -
  from assms have "st_asset tx = sp_asset p" by (rule stake_Ok)
  then show ?thesis using stake_total_after [OF assms] by (auto simp: stake_lost_def bonded_at_def)
qed

definition demo_validator :: validator_record where
  "demo_validator = \<lparr>vr_operator = 7, vr_consensus_pubkey = replicate 33 2, vr_withdrawal = 7, vr_self_bond = 2000000,
     vr_delegated = 300000, vr_commission_bps = 1000, vr_status = Bonded, vr_jailed_until_epoch = 0,
     vr_metadata_hash = 1\<rparr>"

definition demo_stake_store :: state_store where
  "demo_stake_store = [(KAccount OVL 7, VAccount \<lparr>balance = 5000000, nonce = 4\<rparr>),
     (KValidator OVL 7, VValidator demo_validator)]"

definition demo_stake_tx :: "stake_op_kind \<Rightarrow> u64 \<Rightarrow> signed_stake_tx" where
  "demo_stake_tx kind amt = \<lparr>tx_version = 1, tx_nonce = 4, tx_public_key = replicate 33 7, tx_signature = replicate 64 7,
     tx_multisign = None, tx_account_sequence = None, st_asset = OVL, st_kind = kind, st_actor = 7, st_validator = 7,
     st_amount = amt, st_consensus_pubkey = replicate 33 2, st_withdrawal = 7, st_commission_bps = 500,
     st_metadata_hash = 1\<rparr>"


definition demo_rebond :: write_batch where
  "demo_rebond = (case apply_signed_stake_tx demo_env demo_stake_store (demo_stake_tx Bond 1000000) demo_auth
     ovl_staking_default of Inr b \<Rightarrow> b | Inl _ \<Rightarrow> [])"

lemma demo_stake_keyed: "keyed_records demo_stake_store OVL"
  by (auto simp: keyed_records_def validator_at_def stored_def demo_stake_store_def get_cf_def demo_validator_def
      split: if_splits)

theorem signed_stake_conserves_witness:
  "apply_signed_stake_tx demo_env demo_stake_store (demo_stake_tx Bond 1000000) demo_auth ovl_staking_default
     = Ok demo_rebond
   \<and> stake_total (apply_batch demo_rebond demo_stake_store) OVL + 2300000 = stake_total demo_stake_store OVL"
proof -
  have run: "apply_signed_stake_tx demo_env demo_stake_store (demo_stake_tx Bond 1000000) demo_auth ovl_staking_default
     = Ok demo_rebond" by code_simp
  have "stake_lost demo_stake_store (demo_stake_tx Bond 1000000) = 2300000"
    by (simp add: stake_lost_def demo_stake_tx_def bonded_at_def validator_at_def stored_def demo_stake_store_def
        get_cf_def demo_validator_def bonded_stake_def)
  moreover have "sp_asset ovl_staking_default = OVL" by (simp add: ovl_staking_default_def)
  ultimately show ?thesis
    using signed_stake_conserves [OF run] demo_stake_keyed run by simp
qed

definition bps_ok :: "slash_policy \<Rightarrow> bool" where
  "bps_ok pol \<longleftrightarrow> equivocation_slash_bps pol \<le> 10000 \<and> invalid_state_slash_bps pol \<le> 10000
     \<and> downtime_slash_bps pol \<le> 10000"

lemma penalty_le:
  assumes "bps_ok pol" and "penalty_for pol kind bonded = (slash, tomb, jail)"
  shows "slash \<le> bonded"
  using assms by (cases kind) (auto simp: bps_ok_def slash_amount_le)

lemma slash_validator_bonded:
  assumes "slash \<le> saturating_add (vr_self_bond val) (vr_delegated val)"
  shows "bonded_stake (slash_validator slash tomb jail epoch val) + unat slash = bonded_stake val"
proof -
  have le: "unat slash \<le> unat (vr_self_bond val) + unat (vr_delegated val)"
    using assms by (simp add: word_le_nat_alt unat_saturating_add)
  have "bonded_stake (slash_validator slash tomb jail epoch val)
      = unat (vr_self_bond val - min slash (vr_self_bond val))
        + unat (vr_delegated val - min (slash - min slash (vr_self_bond val)) (vr_delegated val))"
    by (simp add: slash_validator_def bonded_stake_def Let_def)
  also have "\<dots> + unat slash = bonded_stake val"
    using le by (auto simp: bonded_stake_def min_def unat_sub_le word_le_nat_alt)
  finally show ?thesis .
qed

lemma slash_validator_operator [simp]:
  "vr_operator (slash_validator slash tomb jail epoch val) = vr_operator val"
  by (simp add: slash_validator_def Let_def)

text \<open>
  Property C13. Slashing moves stake, it does not burn or create it: the amount taken from the
  validator's self-bond and delegations is exactly the amount credited to the reward pool, it never
  exceeds what was bonded, liquid balances and the unbonding queue keep their totals, and a
  tombstoned or jailed validator has no voting power left.
\<close>

theorem slashing_conserves:
  assumes run: "apply_evidence s ev pol = Ok (b, slash)" and keyed: "keyed_records s (ve_set ev)"
    and pol: "bps_ok pol"
  shows "staked (apply_batch b s) (ve_set ev) + unat slash = staked s (ve_set ev)
    \<and> unat (load_reward_pool (apply_batch b s) (ve_set ev)) = unat (load_reward_pool s (ve_set ev)) + unat slash
    \<and> unat slash \<le> bonded_at s (ve_set ev) (ve_validator ev)
    \<and> total_balance (apply_batch b s) (ve_set ev) = total_balance s (ve_set ev)
    \<and> unbonding (apply_batch b s) (ve_set ev) = unbonding s (ve_set ev)
    \<and> (\<exists>r. validator_at (apply_batch b s) (ve_set ev) (ve_validator ev) = Some r
        \<and> (ve_kind ev \<in> {DoubleCheckpointSignature, ConflictingCheckpointSignature, ExtendedDowntime, KeyCompromiseReport}
            \<longrightarrow> voting_power r = 0))"
proof -
  let ?A = "ve_set ev" and ?a = "ve_validator ev"
  from run obtain val where val: "load_validator s ?A ?a = Ok (Some val)" and asset: "?A \<noteq> TLT"
    by (auto simp: apply_evidence_def split: if_splits)
  obtain slash' tomb jail where
    pen': "penalty_for pol (ve_kind ev) (saturating_add (vr_self_bond val) (vr_delegated val)) = (slash', tomb, jail)"
    by (metis prod.exhaust)
  have slash: "slash' = slash" using run val asset pen'
    by (auto simp: apply_evidence_def Let_def split: if_splits)
  note pen = pen' [unfolded slash]
  define r where "r = slash_validator slash tomb jail (load_epoch s ?A) val"
  have at: "validator_at s ?A ?a = Some val" using load_validator_Ok [OF val] .
  then have op: "vr_operator val = ?a" using keyed by (simp add: keyed_records_def)
  obtain b' where b: "b = Put (KValidator ?A ?a) (VValidator r) # b'"
    and b': "if slash = 0 then b' = []
             else \<exists>n. checked_add (load_reward_pool s ?A) slash = Some n \<and> b' = [Put (KRewardPool ?A) (VU64 n)]"
    using run val pen op
    by (auto simp: apply_evidence_def Let_def r_def put_validator_into_def credit_reward_pool_into_def
        put_reward_pool_into_def word_gt_0 split: if_splits)
  have keep: "stored f (apply_batch b s) k = stored f s k" if "k \<noteq> KValidator ?A ?a" "k \<noteq> KRewardPool ?A" for f k
    using b' that by (intro stored_frame) (auto simp: b split: if_splits)
  have here: "stored as_validator (apply_batch b s) (KValidator ?A a')
      = ((\<lambda>a'. stored as_validator s (KValidator ?A a'))(?a := Some r)) a'" for a'
    using b' by (auto simp: b split: if_splits)
  note bonded = slash_validator_bonded [OF penalty_le [OF pol pen], of tomb jail "load_epoch s ?A"]
  have "staked (apply_batch b s) ?A + unat slash = staked s ?A"
    using staked_upd [OF here] bonded by (simp add: bonded_at_def at r_def)
  moreover have "unat (load_reward_pool (apply_batch b s) ?A) = unat (load_reward_pool s ?A) + unat slash"
    using b' by (auto simp: b load_reward_pool_def dest!: checked_add_Some split: if_splits)
  moreover have "unat slash \<le> bonded_at s ?A ?a" using bonded by (simp add: bonded_at_def at)
  moreover have "total_balance (apply_batch b s) ?A = total_balance s ?A"
    by (rule total_balance_cong) (simp add: acct_def keep)
  moreover have "unbonding (apply_batch b s) ?A = unbonding s ?A" by (rule unbonding_cong) (simp add: keep)
  moreover have "validator_at (apply_batch b s) ?A ?a = Some r" using here [of ?a] by (simp add: validator_at_def)
  moreover have "voting_power r = 0"
    if "ve_kind ev \<in> {DoubleCheckpointSignature, ConflictingCheckpointSignature, ExtendedDowntime, KeyCompromiseReport}"
    using that pen by (auto simp: r_def slash_validator_def voting_power_def Let_def)
  ultimately show ?thesis by blast
qed

definition demo_evidence :: validator_evidence where
  "demo_evidence = \<lparr>ve_kind = DoubleCheckpointSignature, ve_set = OVL, ve_validator = 7, ve_epoch = 0,
     ve_attestation_a = None, ve_attestation_b = None, ve_note_hash = 0\<rparr>"

definition demo_slash :: write_batch where
  "demo_slash = (case apply_evidence demo_stake_store demo_evidence default_slash_policy of
     Inr (b, _) \<Rightarrow> b | Inl _ \<Rightarrow> [])"

theorem slashing_conserves_witness:
  "apply_evidence demo_stake_store demo_evidence default_slash_policy = Ok (demo_slash, 115000)
   \<and> staked (apply_batch demo_slash demo_stake_store) OVL + 115000 = staked demo_stake_store OVL
   \<and> unat (load_reward_pool (apply_batch demo_slash demo_stake_store) OVL) = 115000"
proof -
  have run: "apply_evidence demo_stake_store demo_evidence default_slash_policy = Ok (demo_slash, 115000)" by code_simp
  have set_eq: "ve_set demo_evidence = OVL" by (simp add: demo_evidence_def)
  have "bps_ok default_slash_policy" by code_simp
  moreover have "load_reward_pool demo_stake_store OVL = 0" by code_simp
  ultimately show ?thesis
    using slashing_conserves [OF run, unfolded set_eq, OF demo_stake_keyed] run by simp
qed


end
