(* ===== verification/Staking_Rewards.thy ===== *)
theory Staking_Rewards
  imports Staking
begin

text \<open>
  Validator-set snapshots, reward distribution and the epoch step of \<^verbatim>\<open>staking/mod.rs\<close>: a snapshot is a
  function of the stored validators (not of the order a walk visits them in), and an epoch step
  neither creates nor destroys units as long as every validator's delegation records add up to
  what its record says is delegated.
\<close>

section \<open>Walks over the store\<close>

text \<open>
  A walk that adds up a quantity over the entries of one key family computes the sum over the
  family's index, whatever the order of the store.
\<close>

lemma sum_walk:
  fixes key :: "'k::finite \<Rightarrow> meta_key"
  assumes "distinct (map fst s)" and "inj key" and "\<And>k v. k \<notin> range key \<Longrightarrow> h k v = 0"
  shows "sum_list (map (\<lambda>(k, v). h k v) s)
       = (\<Sum>d\<in>UNIV. case map_of s (key d) of Some v \<Rightarrow> h (key d) v | None \<Rightarrow> (0::nat))"
  using assms(1)
proof (induction s)
  case (Cons x s)
  obtain k v where x: "x = (k, v)" by fastforce
  let ?f = "\<lambda>d. case map_of s (key d) of Some v \<Rightarrow> h (key d) v | None \<Rightarrow> 0"
  have none: "map_of s k = None" using Cons.prems x by (simp add: map_of_eq_None_iff)
  show ?case
  proof (cases "k \<in> range key")
    case True
    then obtain d where d: "k = key d" by blast
    have "(\<Sum>d'\<in>UNIV. case map_of (x # s) (key d') of Some v \<Rightarrow> h (key d') v | None \<Rightarrow> 0)
        = (\<Sum>d'\<in>UNIV. (?f(d := h k v)) d')"
      using assms(2) by (intro sum.cong) (auto simp: x d inj_eq)
    then show ?thesis
      using sum_fun_upd [of ?f d "h k v"] none Cons d by (simp add: x)
  next
    case False
    then have "(\<Sum>d'\<in>UNIV. case map_of (x # s) (key d') of Some v \<Rightarrow> h (key d') v | None \<Rightarrow> 0) = (\<Sum>d'\<in>UNIV. ?f d')"
      by (intro sum.cong) (auto simp: x)
    then show ?thesis using Cons assms(3) [OF False] by (simp add: x)
  qed
qed simp

lemma sum_floors:
  "sum_list (map (\<lambda>x. a * f x div t) xs) \<le> a * sum_list (map f xs) div (t::nat)"
proof (induction xs)
  case (Cons x xs)
  have "a * f x div t + a * sum_list (map f xs) div t \<le> (a * f x + a * sum_list (map f xs)) div t"
    using div_add1_eq [of "a * f x" "a * sum_list (map f xs)" t] by simp
  with Cons show ?case by (simp add: distrib_left)
qed simp

lemma unat_mul_div:
  assumes "b \<le> c" and "c \<noteq> 0"
  shows "unat (mul_div a b c) = unat a * unat b div unat c"
proof -
  have le: "unat a * unat b \<le> unat a * unat c" using assms(1) by (simp add: word_le_nat_alt)
  have "unat a * unat b \<le> unat a * 2 ^ 64" using unat_lt_u64 [of b] by (intro mult_le_mono2) simp
  also have "\<dots> < 2 ^ 64 * 2 ^ 64" using unat_lt_u64 [of a] by simp
  finally have fits: "unat a * unat b < 2 ^ 128" by simp
  have "unat ((ucast a :: u128) * ucast b) = unat a * unat b"
    using fits by (simp add: unat_word_ariths unat_ucast_up)
  then have d: "unat ((ucast a :: u128) * ucast b div ucast c) = unat a * unat b div unat c"
    by (simp add: unat_div_distrib unat_ucast_up)
  have "unat a * unat b div unat c \<le> unat a * unat c div unat c" using le by (rule div_le_mono)
  also have "\<dots> \<le> unat a" by simp
  finally have "unat a * unat b div unat c < 2 ^ 64" using unat_lt_u64 [of a] by simp
  then show ?thesis by (simp add: mul_div_def unsigned_ucast_eq d take_bit_nat_eq_self)
qed

lemma mul_div_le: "b \<le> c \<Longrightarrow> c \<noteq> 0 \<Longrightarrow> unat (mul_div a b c) \<le> unat a"
proof -
  assume *: "b \<le> c" "c \<noteq> 0"
  then have "unat a * unat b div unat c \<le> unat a * unat c div unat c"
    by (intro div_le_mono) (simp add: word_le_nat_alt)
  also have "\<dots> \<le> unat a" by simp
  finally show ?thesis using * by (simp add: unat_mul_div)
qed

section \<open>Snapshots are deterministic\<close>

definition effective_power :: "state_store \<Rightarrow> native_asset_id \<Rightarrow> u64 \<Rightarrow> address \<Rightarrow> u64" where
  "effective_power s asset epoch a =
     (case validator_at s asset a of Some r \<Rightarrow> voting_power (unjail epoch r) | None \<Rightarrow> 0)"

definition active_stake :: "state_store \<Rightarrow> native_asset_id \<Rightarrow> u64 \<Rightarrow> nat" where
  "active_stake s asset epoch = (\<Sum>a\<in>UNIV. unat (effective_power s asset epoch a))"

definition contribution :: "native_asset_id \<Rightarrow> u64 \<Rightarrow> meta_key \<times> meta_val \<Rightarrow> (address \<times> u64) option" where
  "contribution asset epoch = (\<lambda>(k, v).
     case k of
       KValidator asset' _ \<Rightarrow>
         if asset' = asset
         then Option.bind (as_validator v) (\<lambda>r.
                if 0 < voting_power (unjail epoch r) then Some (vr_operator r, voting_power (unjail epoch r)) else None)
         else None
     | _ \<Rightarrow> None)"

lemma contribution_Some:
  "contribution asset epoch (k, v) = Some c \<longleftrightarrow>
     (\<exists>a r. k = KValidator asset a \<and> v = VValidator r \<and> 0 < voting_power (unjail epoch r)
        \<and> c = (vr_operator r, voting_power (unjail epoch r)))"
  by (cases k) (auto simp: contribution_def bind_eq_Some_conv)

lemma unjail_operator [simp]: "vr_operator (unjail epoch r) = vr_operator r"
  by (simp add: unjail_def)

lemma snapshot_visit_Ok:
  "snapshot_visit asset epoch vs e = Ok ws \<Longrightarrow>
     ws = vs @ (case contribution asset epoch e of Some c \<Rightarrow> [c] | None \<Rightarrow> [])"
  by (cases e; cases "fst e") (auto simp: snapshot_visit_def contribution_def Let_def split: if_splits)

lemma snapshot_fold:
  "fold_result (snapshot_visit asset epoch) vs s = Ok ws \<Longrightarrow>
     ws = vs @ List.map_filter (contribution asset epoch) s"
proof (induction s arbitrary: vs)
  case (Cons e s)
  then obtain us where us: "snapshot_visit asset epoch vs e = Ok us"
    and ws: "fold_result (snapshot_visit asset epoch) us s = Ok ws" by auto
  show ?case using Cons.IH [OF ws] snapshot_visit_Ok [OF us]
    by (auto simp: map_filter_simps split: option.splits)
qed (simp add: map_filter_simps)

lemma store_mem: "wf_store s \<Longrightarrow> (k, v) \<in> set s \<longleftrightarrow> get_cf s k = Some v"
  by (simp add: wf_store_def get_cf_def)

definition keyed_validators :: "state_store \<Rightarrow> native_asset_id \<Rightarrow> bool" where
  "keyed_validators s asset \<longleftrightarrow> (\<forall>a r. validator_at s asset a = Some r \<longrightarrow> vr_operator r = a)"

lemma keyed_records_validators: "keyed_records s asset \<Longrightarrow> keyed_validators s asset"
  by (simp add: keyed_records_def keyed_validators_def)

lemma keyed_validator:
  "keyed_validators s asset \<Longrightarrow> get_cf s (KValidator asset a) = Some (VValidator r) \<Longrightarrow> vr_operator r = a"
  by (simp add: keyed_validators_def validator_at_def stored_def)

lemma contribution_entry:
  assumes "wf_store s" and "keyed_validators s asset"
  shows "(a, pw) \<in> set (List.map_filter (contribution asset epoch) s)
    \<longleftrightarrow> pw = effective_power s asset epoch a \<and> 0 < pw"
proof -
  note mem = store_mem [OF assms(1)] and op = keyed_validator [OF assms(2)]
  have "(a, pw) \<in> set (List.map_filter (contribution asset epoch) s)
      \<longleftrightarrow> (\<exists>k v. get_cf s k = Some v \<and> contribution asset epoch (k, v) = Some (a, pw))"
    unfolding map_filter_def using mem by (force simp: image_iff)
  also have "\<dots> \<longleftrightarrow> (\<exists>r. get_cf s (KValidator asset a) = Some (VValidator r)
      \<and> pw = voting_power (unjail epoch r) \<and> 0 < pw)"
    using op by (auto simp: contribution_Some) blast
  also have "\<dots> \<longleftrightarrow> pw = effective_power s asset epoch a \<and> 0 < pw"
    by (auto simp: effective_power_def validator_at_def stored_def bind_eq_Some_conv split: option.splits)
  finally show ?thesis .
qed

lemma contribution_keys:
  assumes "\<And>k v a pw. (k, v) \<in> set s \<Longrightarrow> contribution asset epoch (k, v) = Some (a, pw) \<Longrightarrow> k = KValidator asset a"
  shows "map (KValidator asset) (map fst (List.map_filter (contribution asset epoch) s))
    = map fst (filter (\<lambda>e. contribution asset epoch e \<noteq> None) s)"
  using assms
proof (induction s)
  case (Cons e s)
  obtain k v where e: "e = (k, v)" by fastforce
  have "map (KValidator asset) (map fst (List.map_filter (contribution asset epoch) s))
      = map fst (filter (\<lambda>e. contribution asset epoch e \<noteq> None) s)"
    using Cons.prems by (intro Cons.IH) auto
  moreover have "k = KValidator asset a" if "contribution asset epoch e = Some (a, pw)" for a pw
    using Cons.prems [of k v a pw] that e by simp
  ultimately show ?case
    by (cases "contribution asset epoch e") (auto simp: map_filter_simps e)
qed (simp add: map_filter_simps)

lemma contribution_distinct:
  assumes "wf_store s" and "keyed_validators s asset"
  shows "distinct (map fst (List.map_filter (contribution asset epoch) s))"
proof -
  have "k = KValidator asset a" if "(k, v) \<in> set s" "contribution asset epoch (k, v) = Some (a, pw)" for k v a pw
    using that keyed_validator [OF assms(2)] by (auto simp: contribution_Some store_mem [OF assms(1)])
  note keys = contribution_keys [of s asset epoch, OF this]
  have "distinct (map fst (filter (\<lambda>e. contribution asset epoch e \<noteq> None) s))"
    using assms(1) by (simp add: wf_store_def distinct_map_filter)
  then have "distinct (map (KValidator asset) (map fst (List.map_filter (contribution asset epoch) s)))"
    by (simp only: keys)
  then show ?thesis by (simp only: distinct_map)
qed

lemma snapshot_spec:
  assumes "build_snapshot s asset epoch = Ok snap" and "wf_store s" and "keyed_validators s asset"
  shows "set (vs_validators snap) = {(a, pw). pw = effective_power s asset epoch a \<and> 0 < pw}"
    and "sorted_wrt (\<lambda>x y. fst x < fst y) (vs_validators snap)"
    and "distinct (map fst (vs_validators snap))"
    and "vs_total_active_stake snap = sum_list (map snd (vs_validators snap))"
    and "vs_epoch snap = epoch" and "vs_asset snap = asset"
proof -
  from assms(1) obtain vs where vs: "fold_result (snapshot_visit asset epoch) [] s = Ok vs"
    and snap: "snap = \<lparr>vs_epoch = epoch, vs_asset = asset, vs_validators = sort_key fst vs,
            vs_total_active_stake = sum_list (map snd (sort_key fst vs))\<rparr>"
    by (auto simp: build_snapshot_def Let_def)
  have eq: "vs = List.map_filter (contribution asset epoch) s" using snapshot_fold [OF vs] by simp
  show "set (vs_validators snap) = {(a, pw). pw = effective_power s asset epoch a \<and> 0 < pw}"
    using contribution_entry [OF assms(2,3)] by (auto simp: snap eq)
  have d: "distinct (map fst vs)" using contribution_distinct [OF assms(2,3)] by (simp add: eq)
  show "sorted_wrt (\<lambda>x y. fst x < fst y) (vs_validators snap)"
    using sort_key_strict [OF d] by (simp add: snap)
  show "distinct (map fst (vs_validators snap))" using d by (simp add: snap distinct_map)
  show "vs_total_active_stake snap = sum_list (map snd (vs_validators snap))"
    "vs_epoch snap = epoch" "vs_asset snap = asset" by (simp_all add: snap)
qed

lemma unat_sum_list:
  "sum_list (map unat xs) < 2 ^ LENGTH('a) \<Longrightarrow> unat (sum_list (xs :: 'a::len word list)) = sum_list (map unat xs)"
  by (induction xs) (auto simp: unat_word_ariths)

lemma snapshot_total:
  assumes "build_snapshot s asset epoch = Ok snap" and "wf_store s" and "keyed_validators s asset"
  shows "sum_list (map (unat \<circ> snd) (vs_validators snap)) = active_stake s asset epoch"
    and "active_stake s asset epoch < 2 ^ 64 \<Longrightarrow> unat (vs_total_active_stake snap) = active_stake s asset epoch"
proof -
  note spec = snapshot_spec [OF assms]
  let ?e = "effective_power s asset epoch"
  have "distinct (vs_validators snap)" using spec(3) by (simp add: distinct_map)
  then have "sum_list (map (unat \<circ> snd) (vs_validators snap)) = (\<Sum>x\<in>set (vs_validators snap). unat (snd x))"
    by (simp add: sum_list_distinct_conv_sum_set)
  also have "\<dots> = (\<Sum>x\<in>(\<lambda>a. (a, ?e a)) ` {a. 0 < ?e a}. unat (snd x))"
    by (rule sum.cong) (auto simp: spec(1))
  also have "\<dots> = (\<Sum>a\<in>{a. 0 < ?e a}. unat (?e a))" by (simp add: sum.reindex inj_on_def)
  also have "\<dots> = active_stake s asset epoch"
    unfolding active_stake_def by (rule sum.mono_neutral_left) (auto simp: word_gt_0)
  finally show total: "sum_list (map (unat \<circ> snd) (vs_validators snap)) = active_stake s asset epoch" .
  show "unat (vs_total_active_stake snap) = active_stake s asset epoch" if "active_stake s asset epoch < 2 ^ 64"
    using unat_sum_list [of "map snd (vs_validators snap)"] total that by (simp add: spec(4))
qed

lemma snapshot_fold_total:
  assumes "\<And>a v. (KValidator asset a, v) \<in> set s \<Longrightarrow> as_validator v \<noteq> None"
  shows "\<exists>ws. fold_result (snapshot_visit asset epoch) vs s = Ok ws"
  using assms
proof (induction s arbitrary: vs)
  case (Cons e s)
  obtain k v where e: "e = (k, v)" by fastforce
  have "\<exists>us. snapshot_visit asset epoch vs e = Ok us"
    using Cons.prems [of _ v] by (cases k) (auto simp: e snapshot_visit_def decode_as_def Let_def)
  then show ?case using Cons by fastforce
qed simp

lemma snapshot_fold_decodes:
  assumes "fold_result (snapshot_visit asset epoch) vs s = Ok ws" and "(KValidator asset a, v) \<in> set s"
  shows "as_validator v \<noteq> None"
  using assms
proof (induction s arbitrary: vs)
  case (Cons e s)
  then show ?case by (auto simp: snapshot_visit_def)
qed simp

lemma validators_determined:
  assumes "build_snapshot s asset epoch = Ok snap" and "wf_store s" and "keyed_validators s asset"
  shows "vs_validators snap = map (\<lambda>a. (a, effective_power s asset epoch a))
    (sorted_list_of_set {a. 0 < effective_power s asset epoch a})"
proof -
  note spec = snapshot_spec [OF assms]
  let ?e = "effective_power s asset epoch"
  have "set (map fst (vs_validators snap)) = {a. 0 < ?e a}" by (force simp: spec(1) image_iff)
  moreover have "sorted (map fst (vs_validators snap))"
    using spec(2) by (auto simp: sorted_map intro: sorted_wrt_mono_rel [rotated])
  ultimately have "map fst (vs_validators snap) = sorted_list_of_set {a. 0 < ?e a}"
    using spec(3) by (metis sorted_list_of_set.idem_if_sorted_distinct)
  moreover have "vs_validators snap = map (\<lambda>a. (a, ?e a)) (map fst (vs_validators snap))"
    unfolding map_map by (rule map_idI [symmetric]) (use spec(1) in auto)
  ultimately show ?thesis by simp
qed

text \<open>
  Property C14. A validator-set snapshot depends on the stored validators only. It gives every address
  its effective voting power (zero without a bonded record, restored once the jail epoch has
  passed), lists the active validators in strictly increasing address order, sums to the active
  stake when that fits 64 bits, and a store with the same records in another order, or with other
  records besides, gives the same snapshot.
\<close>

theorem snapshot_deterministic:
  assumes run: "build_snapshot s asset epoch = Ok snap" and wf: "wf_store s" and keyed: "keyed_validators s asset"
    and other: "wf_store s'" "\<forall>a. get_cf s' (KValidator asset a) = get_cf s (KValidator asset a)"
  shows "build_snapshot s' asset epoch = Ok snap
    \<and> power_of snap a = effective_power s asset epoch a
    \<and> sorted_wrt (<) (map fst (vs_validators snap))
    \<and> (active_stake s asset epoch < 2 ^ 64 \<longrightarrow> unat (vs_total_active_stake snap) = active_stake s asset epoch)"
proof -
  note spec = snapshot_spec [OF run wf keyed]
  let ?e = "effective_power s asset epoch"
  from run obtain vs where vs: "fold_result (snapshot_visit asset epoch) [] s = Ok vs"
    by (auto simp: build_snapshot_def)
  have "as_validator v \<noteq> None" if "(KValidator asset a, v) \<in> set s'" for a v
    using that snapshot_fold_decodes [OF vs] store_mem [OF wf] store_mem [OF other(1)] other(2) by auto
  then obtain snap' where run': "build_snapshot s' asset epoch = Ok snap'"
    using snapshot_fold_total [of asset s' epoch "[]"] by (auto simp: build_snapshot_def Let_def)
  have eq: "effective_power s' asset epoch = ?e" "validator_at s' asset = validator_at s asset"
    using other(2) by (auto simp: effective_power_def validator_at_def stored_def fun_eq_iff)
  have keyed': "keyed_validators s' asset" using keyed eq by (simp add: keyed_validators_def)
  have "vs_validators snap' = vs_validators snap"
    using validators_determined [OF run wf keyed] validators_determined [OF run' other(1) keyed'] eq by simp
  then have "snap' = snap"
    using spec(4-6) snapshot_spec(4-6) [OF run' other(1) keyed'] by simp
  moreover have "power_of snap a = ?e a"
  proof (cases "0 < ?e a")
    case True
    then have "map_of (vs_validators snap) a = Some (?e a)" using spec(1,3) by (simp add: map_of_eq_Some_iff)
    then show ?thesis by (simp add: power_of_def)
  next
    case False
    then have "map_of (vs_validators snap) a = None" using spec(1) by (force simp: map_of_eq_None_iff)
    then show ?thesis using False by (simp add: power_of_def word_gt_0)
  qed
  moreover have "sorted_wrt (<) (map fst (vs_validators snap))" using spec(2) by (simp add: sorted_wrt_map)
  ultimately show ?thesis using run' snapshot_total(2) [OF run wf keyed] by simp
qed

definition demo_snapshot :: validator_set_snapshot where
  "demo_snapshot = \<lparr>vs_epoch = 3, vs_asset = OVL, vs_validators = [(7, 2300000)], vs_total_active_stake = 2300000\<rparr>"

theorem snapshot_deterministic_witness:
  "build_snapshot demo_stake_store OVL 3 = Ok demo_snapshot
   \<and> build_snapshot (rev demo_stake_store) OVL 3 = Ok demo_snapshot
   \<and> power_of demo_snapshot 7 = effective_power demo_stake_store OVL 3 7"
proof -
  have run: "build_snapshot demo_stake_store OVL 3 = Ok demo_snapshot" by code_simp
  have "wf_store demo_stake_store" "wf_store (rev demo_stake_store)" by code_simp+
  moreover have "get_cf (rev demo_stake_store) (KValidator OVL a) = get_cf demo_stake_store (KValidator OVL a)" for a
    by (simp add: demo_stake_store_def get_cf_def)
  ultimately show ?thesis
    using snapshot_deterministic [OF run _ keyed_records_validators [OF demo_stake_keyed],
        of "rev demo_stake_store" 7] run by simp
qed

section \<open>Reward distribution\<close>

definition credit_sum :: "(address \<times> u64) list \<Rightarrow> nat" where
  "credit_sum credits = sum_list (map (unat \<circ> snd) credits)"

lemma credit_sum_update:
  assumes "distinct (map fst credits)"
  shows "credit_sum (AList.update a v credits) + (case map_of credits a of Some w \<Rightarrow> unat w | None \<Rightarrow> 0)
       = credit_sum credits + unat v"
  using assms
proof (induction credits)
  case (Cons c credits)
  then show ?case
    by (cases c; cases "fst c = a")
      (auto simp: credit_sum_def map_of_eq_None_iff [THEN iffD2] split: option.splits)
qed (simp add: credit_sum_def)

lemma add_credit_ok:
  assumes "distinct (map fst credits)" and "credit_sum credits + unat amt < 2 ^ 64"
  shows "distinct (map fst (add_credit a amt credits))"
    and "credit_sum (add_credit a amt credits) = credit_sum credits + unat amt"
proof -
  show "distinct (map fst (add_credit a amt credits))"
    using assms(1) by (simp add: add_credit_def distinct_update split: option.split)
  show "credit_sum (add_credit a amt credits) = credit_sum credits + unat amt"
  proof (cases "map_of credits a")
    case (Some v)
    have "v \<in> snd ` set credits" using Some by (force dest: map_of_SomeD)
    then have "unat v \<le> credit_sum credits"
      unfolding credit_sum_def by (force intro!: member_le_sum_list)
    then have "unat (saturating_add v amt) = unat v + unat amt"
      using assms(2) by (simp add: unat_saturating_add min_def)
    then show ?thesis using credit_sum_update [OF assms(1), of a "saturating_add v amt"] Some
      by (simp add: add_credit_def)
  qed (use credit_sum_update [OF assms(1), of a amt] in \<open>simp add: add_credit_def\<close>)
qed

lemma add_credits_ok:
  assumes "distinct (map fst credits)" and "credit_sum credits + credit_sum dels < 2 ^ 64"
  shows "distinct (map fst (fold (\<lambda>(a, amt). add_credit a amt) dels credits))
    \<and> credit_sum (fold (\<lambda>(a, amt). add_credit a amt) dels credits) = credit_sum credits + credit_sum dels"
  using assms
proof (induction dels arbitrary: credits)
  case (Cons d dels)
  obtain a amt where d: "d = (a, amt)" by fastforce
  have "credit_sum credits + unat amt < 2 ^ 64" using Cons.prems(2) by (simp add: credit_sum_def d)
  note one = add_credit_ok [OF Cons.prems(1) this, of a]
  show ?case
    using Cons.IH [of "add_credit a amt credits"] Cons.prems(2) one by (simp add: credit_sum_def d)
qed (simp add: credit_sum_def)

text \<open>The delegators of one validator: their pieces and what they were paid.\<close>

fun piece :: "native_asset_id \<Rightarrow> address \<Rightarrow> u64 \<Rightarrow> u64 \<Rightarrow> meta_key \<Rightarrow> meta_val \<Rightarrow> nat" where
  "piece asset op ac bonded (KDelegation asset' d op') v =
     (if asset' = asset \<and> op' = op
      then (case as_delegation v of Some del \<Rightarrow> unat (mul_div ac (dr_amount del) bonded) | None \<Rightarrow> 0) else 0)"
| "piece asset op ac bonded _ v = 0"

lemma delegators_fold:
  assumes "fold_result (delegator_visit asset op ac bonded) (dels, paid) s = Ok (dels', paid')"
    and "unat paid = credit_sum dels"
    and "credit_sum dels + sum_list (map (\<lambda>(k, v). piece asset op ac bonded k v) s) < 2 ^ 64"
  shows "credit_sum dels' = credit_sum dels + sum_list (map (\<lambda>(k, v). piece asset op ac bonded k v) s)
    \<and> unat paid' = credit_sum dels'"
  using assms
proof (induction s arbitrary: dels paid)
  case (Cons e s)
  obtain k v where e: "e = (k, v)" by fastforce
  from Cons.prems(1) obtain dels1 paid1 where
    one: "delegator_visit asset op ac bonded (dels, paid) e = Ok (dels1, paid1)"
    and rest: "fold_result (delegator_visit asset op ac bonded) (dels1, paid1) s = Ok (dels', paid')"
    by (auto simp: bind_result_def split: sum.splits)
  have "credit_sum dels1 = credit_sum dels + piece asset op ac bonded k v \<and> unat paid1 = credit_sum dels1"
  proof (cases "\<exists>d. k = KDelegation asset d op")
    case True
    then obtain d where k: "k = KDelegation asset d op" by blast
    with one obtain del where v: "as_delegation v = Some del" by (auto simp: delegator_visit_def e)
    define pc where "pc = mul_div ac (dr_amount del) bonded"
    have zero: "pc = 0" if "dr_amount del = 0" using that by (simp add: pc_def mul_div_def)
    have fits: "unat paid + unat pc < 2 ^ 64"
      using Cons.prems(2,3) v by (simp add: e k pc_def)
    from one v k zero have "(dels1, paid1) = (if pc = 0 then (dels, paid)
        else (dels @ [(dr_delegator del, pc)], saturating_add paid pc))"
      by (auto simp: delegator_visit_def e Let_def pc_def [symmetric] word_gt_0 split: if_splits)
    then show ?thesis using Cons.prems(2) fits v k
      by (auto simp: credit_sum_def pc_def [symmetric] unat_saturating_add min_def split: if_splits)
  next
    case False
    then have "piece asset op ac bonded k v = 0" by (cases k) auto
    moreover have "(dels1, paid1) = (dels, paid)" using one False
      by (cases k) (auto simp: delegator_visit_def e split: if_splits)
    ultimately show ?thesis using Cons.prems(2) by simp
  qed
  with Cons.IH [OF rest] Cons.prems(3) show ?case by (simp add: e)
qed simp

definition stake_backed :: "state_store \<Rightarrow> native_asset_id \<Rightarrow> bool" where
  "stake_backed s asset \<longleftrightarrow>
     (\<forall>a r. validator_at s asset a = Some r \<longrightarrow>
        bonded_stake r < 2 ^ 64 \<and> vr_commission_bps r \<le> 10000
        \<and> sum_stored as_delegation (\<lambda>d. KDelegation asset d a) (\<lambda>d. unat (dr_amount d)) s \<le> unat (vr_delegated r))"

lemma sum_floors_set:
  "finite A \<Longrightarrow> (\<Sum>x\<in>A. a * f x div t) \<le> a * (\<Sum>x\<in>A. f x) div (t::nat)"
proof (induction A rule: finite_induct)
  case (insert x A)
  have "a * f x div t + a * sum f A div t \<le> (a * f x + a * sum f A) div t"
    using div_add1_eq [of "a * f x" "a * sum f A" t] by simp
  with insert show ?case by (simp add: distrib_left)
qed simp

lemma pieces_le:
  assumes wf: "wf_store s"
    and del: "sum_stored as_delegation (\<lambda>d. KDelegation asset d op) (\<lambda>d. unat (dr_amount d)) s \<le> dd"
    and dd: "dd \<le> unat bonded" and pos: "bonded \<noteq> 0"
  shows "sum_list (map (\<lambda>(k, v). piece asset op ac bonded k v) s) \<le> unat ac * dd div unat bonded"
proof -
  let ?amt = "\<lambda>d. case stored as_delegation s (KDelegation asset d op) of Some del \<Rightarrow> unat (dr_amount del) | None \<Rightarrow> 0"
  have le: "?amt d \<le> unat bonded" for d
  proof -
    have "?amt d \<le> (\<Sum>d\<in>UNIV. ?amt d)" by (rule member_le_sum) auto
    then show ?thesis using del dd by (simp add: sum_stored_def)
  qed
  have "inj (\<lambda>d. KDelegation asset d op)" by (simp add: inj_def)
  moreover have "piece asset op ac bonded k v = 0" if "k \<notin> range (\<lambda>d. KDelegation asset d op)" for k v
    using that by (cases k) auto
  ultimately have "sum_list (map (\<lambda>(k, v). piece asset op ac bonded k v) s)
      = (\<Sum>d\<in>UNIV. case map_of s (KDelegation asset d op) of
           Some v \<Rightarrow> piece asset op ac bonded (KDelegation asset d op) v | None \<Rightarrow> 0)"
    using wf by (intro sum_walk) (auto simp: wf_store_def)
  also have "\<dots> = (\<Sum>d\<in>UNIV. unat ac * ?amt d div unat bonded)"
  proof (rule sum.cong)
    fix d
    show "(case map_of s (KDelegation asset d op) of
           Some v \<Rightarrow> piece asset op ac bonded (KDelegation asset d op) v | None \<Rightarrow> 0) = unat ac * ?amt d div unat bonded"
      using le [of d] pos
      by (auto simp: stored_def get_cf_def unat_mul_div word_le_nat_alt split: option.splits)
  qed simp
  also have "\<dots> \<le> unat ac * (\<Sum>d\<in>UNIV. ?amt d) div unat bonded" by (rule sum_floors_set) simp
  also have "\<dots> \<le> unat ac * dd div unat bonded"
    using del by (intro div_le_mono mult_le_mono2) (simp add: sum_stored_def)
  finally show ?thesis .
qed

text \<open>
  The split of one validator's share: commission, the part of the self-bond, the delegators' pieces
  and the rounding remainder add up to the share.
\<close>

lemma share_split:
  fixes share :: u64 and bps :: u16
  assumes "self + del < 2 ^ 64" and "unat self' = self" "unat del' = del" and "bps \<le> 10000"
    and "bonded = max (saturating_add self' del') 1"
    and "c = mul_div share (ucast bps) (ucast MAX_VALIDATOR_COMMISSION_BPS)"
    and "ac = saturating_sub share c" and "os = mul_div ac self' bonded"
    and "dp \<le> unat ac * del div unat bonded"
  shows "del \<le> unat bonded" and "bonded \<noteq> 0" and "unat c + unat ac = unat share"
    and "unat os + dp \<le> unat ac"
proof -
  show pos: "bonded \<noteq> 0" unfolding assms(5) by (auto simp: max_def)
  have "unat (saturating_add self' del') = self + del" using assms(1-3) by (simp add: unat_saturating_add)
  then have b: "self + del \<le> unat bonded" and self: "self' \<le> bonded" "del' \<le> bonded"
    using assms(2,3) unfolding assms(5) by (auto simp: max_def word_le_nat_alt)
  then show "del \<le> unat bonded" by simp
  have "(ucast bps :: u64) \<le> ucast MAX_VALIDATOR_COMMISSION_BPS"
    using assms(4) by (simp add: word_le_nat_alt unat_ucast_up MAX_VALIDATOR_COMMISSION_BPS_def)
  then have "unat c \<le> unat share" unfolding assms(6)
    by (intro mul_div_le) (simp_all add: MAX_VALIDATOR_COMMISSION_BPS_def)
  then show "unat c + unat ac = unat share" unfolding assms(7) by (simp add: unat_saturating_sub)
  have "unat os = unat ac * self div unat bonded"
    unfolding assms(8) using self pos assms(2) by (simp add: unat_mul_div)
  then have "unat os + dp \<le> unat ac * self div unat bonded + unat ac * del div unat bonded"
    using assms(9) by simp
  also have "\<dots> \<le> unat ac * (self + del) div unat bonded"
    using div_add1_eq [of "unat ac * self" "unat ac * del" "unat bonded"] by (simp add: distrib_left)
  also have "\<dots> \<le> unat ac * unat bonded div unat bonded" using b by (intro div_le_mono mult_le_mono2)
  finally show "unat os + dp \<le> unat ac" by (simp split: if_splits)
qed

lemma reward_step:
  assumes step: "reward_validator s asset snap pool (rem, cs) (op, pw) = Ok (rem', cs')"
    and wf: "wf_store s" and backed: "stake_backed s asset"
    and tot: "pw \<le> vs_total_active_stake snap" "vs_total_active_stake snap \<noteq> 0"
    and room: "unat pool * unat pw div unat (vs_total_active_stake snap) \<le> unat rem"
    and cs: "distinct (map fst cs)" "credit_sum cs + unat rem < 2 ^ 64"
  shows "distinct (map fst cs')" and "credit_sum cs' + unat rem' = credit_sum cs + unat rem"
    and "unat rem \<le> unat rem' + unat pool * unat pw div unat (vs_total_active_stake snap)"
proof -
  let ?T = "vs_total_active_stake snap"
  define share where "share = mul_div pool pw ?T"
  have share: "unat share = unat pool * unat pw div unat ?T" unfolding share_def using tot by (rule unat_mul_div)
  have goal: "distinct (map fst cs') \<and> credit_sum cs' + unat rem' = credit_sum cs + unat rem
      \<and> unat rem \<le> unat rem' + unat share"
  proof (cases "pw = 0 \<or> share = 0 \<or> load_validator s asset op = Ok None")
    case True
    then have "(rem', cs') = (rem, cs)"
      using step by (auto simp: reward_validator_def share_def Let_def split: if_splits)
    then show ?thesis using cs by simp
  next
    case False
    with step obtain val where val: "load_validator s asset op = Ok (Some val)"
      by (auto simp: reward_validator_def Let_def share_def split: if_splits option.splits)
    note bk = backed [unfolded stake_backed_def, rule_format, OF load_validator_Ok [OF val]]
    define c where "c = mul_div share (ucast (vr_commission_bps val)) (ucast MAX_VALIDATOR_COMMISSION_BPS)"
    define ac where "ac = saturating_sub share c"
    define bonded where "bonded = max (saturating_add (vr_self_bond val) (vr_delegated val)) 1"
    define os where "os = mul_div ac (vr_self_bond val) bonded"
    note split = share_split [OF bk [THEN conjunct1, unfolded bonded_stake_def] refl refl
        bk [THEN conjunct2, THEN conjunct1] bonded_def c_def ac_def os_def]
    from step val False obtain dels paid where
      fold: "fold_result (delegator_visit asset op ac bonded) ([], 0) s = Ok (dels, paid)"
      and out: "rem' = saturating_sub rem share"
        "cs' = (let cs1 = fold (\<lambda>(a, amt). add_credit a amt) dels cs;
                    to_op = saturating_add (saturating_add c os) (saturating_sub ac (os + paid))
                in if 0 < to_op then add_credit (vr_withdrawal val) to_op cs1 else cs1)"
      by (auto simp: reward_validator_def Let_def share_def [symmetric] c_def [symmetric] ac_def [symmetric]
          bonded_def [symmetric] os_def [symmetric])
    let ?P = "sum_list (map (\<lambda>(k, v). piece asset op ac bonded k v) s)"
    have P: "?P \<le> unat ac * unat (vr_delegated val) div unat bonded"
      using split(1,2) [of 0] bk by (intro pieces_le [OF wf]) auto
    note s4 = split(4) [OF P] and s3 = split(3) [OF P]
    have paid: "credit_sum dels = ?P" "unat paid = ?P"
      using delegators_fold [OF fold] s4 unat_lt_u64 [of ac] by (simp_all add: credit_sum_def)
    have rem_ge: "unat share \<le> unat rem" using room share by simp
    have wrap: "unat (os + paid) = unat os + ?P"
      using s4 unat_lt_u64 [of ac] paid by (simp add: unat_word_ariths)
    have to_op: "unat (saturating_add (saturating_add c os) (saturating_sub ac (os + paid))) + ?P = unat share"
      using s3 s4 wrap unat_lt_u64 [of share] by (simp add: unat_saturating_add unat_saturating_sub)
    have "credit_sum cs + credit_sum dels < 2 ^ 64" using paid to_op rem_ge cs by simp
    note cs1 = add_credits_ok [OF cs(1) this]
    show ?thesis
      using cs1 paid to_op rem_ge cs(2) out
        add_credit_ok [of "fold (\<lambda>(a, amt). add_credit a amt) dels cs"
          "saturating_add (saturating_add c os) (saturating_sub ac (os + paid))" "vr_withdrawal val"]
      by (auto simp: Let_def word_gt_0 unat_saturating_sub split: if_splits)
  qed
  then show "distinct (map fst cs')" "credit_sum cs' + unat rem' = credit_sum cs + unat rem"
    "unat rem \<le> unat rem' + unat pool * unat pw div unat ?T" using share by simp_all
qed

lemma reward_fold:
  assumes "fold_result (reward_validator s asset snap pool) (rem, cs) vs = Ok (rem', cs')"
    and "wf_store s" and "stake_backed s asset" and "vs_total_active_stake snap \<noteq> 0"
    and "\<And>op pw. (op, pw) \<in> set vs \<Longrightarrow> pw \<le> vs_total_active_stake snap"
    and "sum_list (map (\<lambda>x. unat pool * (unat \<circ> snd) x div unat (vs_total_active_stake snap)) vs) \<le> unat rem"
    and "distinct (map fst cs)" and "credit_sum cs + unat rem < 2 ^ 64"
  shows "distinct (map fst cs') \<and> credit_sum cs' + unat rem' = credit_sum cs + unat rem"
  using assms(1,5-)
proof (induction vs arbitrary: rem cs)
  case (Cons v vs)
  obtain op pw where v: "v = (op, pw)" by fastforce
  from Cons.prems(1) obtain rem1 cs1 where
    one: "reward_validator s asset snap pool (rem, cs) (op, pw) = Ok (rem1, cs1)"
    and rest: "fold_result (reward_validator s asset snap pool) (rem1, cs1) vs = Ok (rem', cs')"
    unfolding v fold_result.simps bind_result_Ok by fastforce
  have "pw \<le> vs_total_active_stake snap" using Cons.prems(2) [of op pw] v by simp
  note step = reward_step [OF one assms(2,3) this assms(4) _ Cons.prems(4,5)]
  have room: "unat pool * unat pw div unat (vs_total_active_stake snap) \<le> unat rem"
    using Cons.prems(3) by (simp add: v)
  have "pw' \<le> vs_total_active_stake snap" if "(op', pw') \<in> set vs" for op' pw'
    using that Cons.prems(2) [of op' pw'] by simp
  moreover have "sum_list (map (\<lambda>x. unat pool * (unat \<circ> snd) x div unat (vs_total_active_stake snap)) vs) \<le> unat rem1"
    using step(3) [OF room] Cons.prems(3) by (simp add: v)
  moreover have "credit_sum cs1 + unat rem1 < 2 ^ 64" using step(2) [OF room] Cons.prems(5) by simp
  ultimately show ?case using Cons.IH [OF rest _ _ step(1) [OF room]] step(2) [OF room] by simp
qed simp

lemma credit_all_Ok:
  assumes "fold_result (\<lambda>b (a, amt). bind_result (credit_liquid s asset a amt) (\<lambda>b'. Ok (b @ b'))) b0 cs = Ok b"
    and "distinct (map fst cs)" and "\<And>a. a \<in> fst ` set cs \<Longrightarrow> KAccount asset a \<notin> op_key ` set b0"
  shows "total_balance (apply_batch b s) asset = total_balance (apply_batch b0 s) asset + credit_sum cs
    \<and> op_key ` set b \<subseteq> op_key ` set b0 \<union> range (KAccount asset)"
  using assms
proof (induction cs arbitrary: b0)
  case (Cons c cs)
  obtain a amt where c: "c = (a, amt)" by fastforce
  from Cons.prems(1) obtain st v where acc: "load_account s asset a = Ok st"
    and v: "checked_add (balance st) amt = Some v"
    and rest: "fold_result (\<lambda>b (a, amt). bind_result (credit_liquid s asset a amt) (\<lambda>b'. Ok (b @ b')))
        (b0 @ [Put (KAccount asset a) (VAccount (st\<lparr>balance := v\<rparr>))]) cs = Ok b"
    by (auto simp: c credit_liquid_Ok)
  have "acct (apply_batch b0 s) asset a = st"
    using acct_frame [OF Cons.prems(3) [of a]] load_account_Ok [OF acc] by (simp add: c)
  then have "total_balance (apply_batch (b0 @ [Put (KAccount asset a) (VAccount (st\<lparr>balance := v\<rparr>))]) s) asset
      = total_balance (apply_batch b0 s) asset + unat amt"
    using total_balance_put [of asset a "st\<lparr>balance := v\<rparr>" "apply_batch b0 s"] checked_add_Some [OF v] by simp
  moreover have "KAccount asset a' \<notin> op_key ` set (b0 @ [Put (KAccount asset a) (VAccount (st\<lparr>balance := v\<rparr>))])"
    if "a' \<in> fst ` set cs" for a'
    using that Cons.prems(2,3) by (auto simp: c image_iff)
  ultimately show ?case using Cons.IH [OF rest] Cons.prems(2) by (auto simp: c credit_sum_def)
qed (simp add: credit_sum_def)

lemma credit_sum_insort [simp]: "credit_sum (insort_key f c cs) = unat (snd c) + credit_sum cs"
  by (induction cs) (auto simp: credit_sum_def)

lemma credit_sum_sort [simp]: "credit_sum (sort_key f cs) = credit_sum cs"
proof (induction cs)
  case (Cons c cs)
  then show ?case by (simp add: credit_sum_def [of "c # cs"] credit_sum_def [of cs, symmetric])
qed (simp add: credit_sum_def)

lemma distribute_conserves:
  assumes run: "distribute_reward_pool_amount s asset snap pool = Ok (b, paid)"
    and snap: "build_snapshot s asset epoch = Ok snap" "wf_store s" "keyed_validators s asset"
    and backed: "stake_backed s asset" and fits: "active_stake s asset epoch < 2 ^ 64"
  shows "total_balance (apply_batch b s) asset + (unat pool - unat paid) = total_balance s asset + unat pool"
    and "unat paid \<le> unat pool"
    and "b = [] \<and> paid = 0
       \<or> KRewardPool asset \<in> op_key ` set b \<and> load_reward_pool (apply_batch b s) asset = pool - paid"
    and "op_key ` set b \<subseteq> insert (KRewardPool asset) (range (KAccount asset))"
proof -
  let ?T = "vs_total_active_stake snap" and ?shares = "\<lambda>x. unat pool * (unat \<circ> snd) x div unat (vs_total_active_stake snap)"
  have "total_balance (apply_batch b s) asset + (unat pool - unat paid) = total_balance s asset + unat pool
      \<and> unat paid \<le> unat pool \<and> (b = [] \<and> paid = 0
          \<or> KRewardPool asset \<in> op_key ` set b \<and> load_reward_pool (apply_batch b s) asset = pool - paid)
      \<and> op_key ` set b \<subseteq> insert (KRewardPool asset) (range (KAccount asset))"
  proof (cases "pool = 0 \<or> ?T = 0")
    case True
    then show ?thesis using run by (auto simp: distribute_reward_pool_amount_def)
  next
    case False
    with run obtain rem cs b1 where
      fold: "fold_result (reward_validator s asset snap pool) (pool, []) (vs_validators snap) = Ok (rem, cs)"
      and all: "credit_all s asset (sort_key fst cs) = Ok b1"
      and b: "b = b1 @ put_reward_pool_into asset rem" and paid: "paid = saturating_sub pool rem"
      by (auto simp: distribute_reward_pool_amount_def)
    note total = snapshot_total [OF snap] 
    have T: "unat ?T = sum_list (map (unat \<circ> snd) (vs_validators snap))" using total fits by simp
    have le: "pw \<le> ?T" if "(op, pw) \<in> set (vs_validators snap)" for op pw
      using that T by (force simp: word_le_nat_alt intro: member_le_sum_list)
    have "sum_list (map ?shares (vs_validators snap)) \<le> unat pool * unat ?T div unat ?T"
      unfolding T by (rule sum_floors)
    then have "sum_list (map ?shares (vs_validators snap)) \<le> unat pool" using False by (simp split: if_splits)
    then have d: "distinct (map fst cs)" and sum: "credit_sum cs + unat rem = unat pool"
      using reward_fold [OF fold snap(2) backed _ le] False unat_lt_u64 [of pool] by (simp_all add: credit_sum_def)
    have "total_balance (apply_batch b1 s) asset = total_balance s asset + credit_sum cs"
      and keys: "op_key ` set b1 \<subseteq> range (KAccount asset)"
      using credit_all_Ok [OF all [unfolded credit_all_def]] d by (simp_all add: distinct_map)
    moreover have "total_balance (apply_batch b s) asset = total_balance (apply_batch b1 s) asset"
      by (rule total_balance_cong) (simp add: b put_reward_pool_into_def)
    moreover have "unat paid = unat pool - unat rem" by (simp add: paid unat_saturating_sub)
    moreover have "pool - paid = rem"
      using sum by (simp add: paid saturating_sub_def word_le_nat_alt)
    ultimately show ?thesis using sum by (auto simp: b put_reward_pool_into_def load_reward_pool_def)
  qed
  then show "total_balance (apply_batch b s) asset + (unat pool - unat paid) = total_balance s asset + unat pool"
    and "unat paid \<le> unat pool"
    and "b = [] \<and> paid = 0
       \<or> KRewardPool asset \<in> op_key ` set b \<and> load_reward_pool (apply_batch b s) asset = pool - paid"
    and "op_key ` set b \<subseteq> insert (KRewardPool asset) (range (KAccount asset))" by blast+
qed

section \<open>The epoch step\<close>

lemma get_cf_batch_cong:
  "get_cf s' k = get_cf s k \<Longrightarrow> get_cf (apply_batch b s') k = get_cf (apply_batch b s) k"
proof (induction b arbitrary: s s')
  case (Cons w b)
  then show ?case by (cases w) auto
qed simp

lemma get_cf_written:
  "k \<in> op_key ` set b \<Longrightarrow> get_cf (apply_batch b s') k = get_cf (apply_batch b s) k"
proof (induction b arbitrary: s s')
  case (Cons w b)
  show ?case
  proof (cases "k \<in> op_key ` set b")
    case False
    then have "op_key w = k" using Cons.prems by auto
    then have "get_cf (apply_op w s') k = get_cf (apply_op w s) k" by (cases w) auto
    then show ?thesis by (auto intro: get_cf_batch_cong)
  qed (use Cons.IH in auto)
qed simp

lemma drip_Ok:
  assumes "drip_staking_reserve s asset amt = Ok (b, d)"
  shows "op_key ` set b \<subseteq> {KReserve asset, KIssued asset, KRewardPool asset}"
    and "unat (load_staking_reserve_remaining (apply_batch b s) asset) + unat d
         = unat (load_staking_reserve_remaining s asset)"
    and "unat (load_issued_supply (apply_batch b s) asset) = unat (load_issued_supply s asset) + unat d"
    and "unat (load_reward_pool (apply_batch b s) asset) = unat (load_reward_pool s asset) + unat d"
    and "cap_is_live asset (load_schema_version s) \<Longrightarrow> load_issued_supply s asset \<le> load_max_supply s asset
         \<Longrightarrow> load_issued_supply (apply_batch b s) asset \<le> load_max_supply s asset"
proof -
  let ?goal = "op_key ` set b \<subseteq> {KReserve asset, KIssued asset, KRewardPool asset}
    \<and> unat (load_staking_reserve_remaining (apply_batch b s) asset) + unat d
         = unat (load_staking_reserve_remaining s asset)
    \<and> unat (load_issued_supply (apply_batch b s) asset) = unat (load_issued_supply s asset) + unat d
    \<and> unat (load_reward_pool (apply_batch b s) asset) = unat (load_reward_pool s asset) + unat d
    \<and> (cap_is_live asset (load_schema_version s) \<longrightarrow> load_issued_supply s asset \<le> load_max_supply s asset
         \<longrightarrow> load_issued_supply (apply_batch b s) asset \<le> load_max_supply s asset)"
  have ?goal
  proof (cases "d = 0 \<and> b = []")
    case False
    with assms obtain i n where d: "d = min amt (load_staking_reserve_remaining s asset)" and asset: "asset \<noteq> TLT"
      and i: "checked_add (load_issued_supply s asset) d = Some i"
      and cap: "cap_is_live asset (load_schema_version s) \<Longrightarrow> i \<le> load_max_supply s asset"
      and n: "checked_add (load_reward_pool s asset) d = Some n"
      and b: "b = [Put (KReserve asset) (VU64 (load_staking_reserve_remaining s asset - d)),
                   Put (KIssued asset) (VU64 i), Put (KRewardPool asset) (VU64 n)]"
      by (auto simp: drip_staking_reserve_def Let_def credit_reward_pool_into_def put_reward_pool_into_def
          put_issued_supply_into_def put_staking_reserve_remaining_into_def not_less split: if_splits)
    have "d \<le> load_staking_reserve_remaining s asset" using d by simp
    then have "unat (load_staking_reserve_remaining s asset - d) + unat d = unat (load_staking_reserve_remaining s asset)"
      by (simp add: unat_sub_le word_le_nat_alt)
    then show ?thesis using checked_add_Some [OF i] checked_add_Some [OF n] cap
      by (simp add: b load_staking_reserve_remaining_def load_issued_supply_def load_reward_pool_def)
  qed simp
  then show "op_key ` set b \<subseteq> {KReserve asset, KIssued asset, KRewardPool asset}"
    and "unat (load_staking_reserve_remaining (apply_batch b s) asset) + unat d
         = unat (load_staking_reserve_remaining s asset)"
    and "unat (load_issued_supply (apply_batch b s) asset) = unat (load_issued_supply s asset) + unat d"
    and "unat (load_reward_pool (apply_batch b s) asset) = unat (load_reward_pool s asset) + unat d"
    and "cap_is_live asset (load_schema_version s) \<Longrightarrow> load_issued_supply s asset \<le> load_max_supply s asset
         \<Longrightarrow> load_issued_supply (apply_batch b s) asset \<le> load_max_supply s asset" by blast+
qed

lemma advance_Ok:
  assumes "advance_epoch_with_params s p = Ok (b, snap)"
  obtains b1 d b2 paid where "sp_asset p \<noteq> TLT"
    "drip_staking_reserve s (sp_asset p) (sp_epoch_reserve_drip p) = Ok (b1, d)"
    "build_snapshot s (sp_asset p) (saturating_add (load_epoch s (sp_asset p)) 1) = Ok snap"
    "distribute_reward_pool_amount s (sp_asset p) snap
       (saturating_add (load_reward_pool s (sp_asset p)) d) = Ok (b2, paid)"
    "b = b1 @ [Put (KEpoch (sp_asset p)) (VU64 (saturating_add (load_epoch s (sp_asset p)) 1)),
               Put (KSnapshot (sp_asset p) (saturating_add (load_epoch s (sp_asset p)) 1)) (VSnapshot snap)] @ b2"
proof -
  have drip0: "drip_staking_reserve s (sp_asset p) (sp_epoch_reserve_drip p) = Ok ([], 0)"
    if "\<not> 0 < sp_epoch_reserve_drip p" using that by (simp add: drip_staking_reserve_def word_gt_0)
  show ?thesis using assms that drip0
    by (cases "0 < sp_epoch_reserve_drip p")
      (auto simp: advance_epoch_with_params_def validate_asset_def Let_def put_epoch_into_def split: if_splits)
qed


lemma supply_after_drip:
  assumes drip: "drip_staking_reserve s A amt = Ok (b1, d)" and valid: "verify_supply_invariants s = Ok ()"
    and keep: "\<And>k. k \<notin> {KReserve A, KIssued A, KRewardPool A, KEpoch A} \<Longrightarrow> k \<notin> range (KSnapshot A)
      \<Longrightarrow> k \<notin> range (KAccount A) \<Longrightarrow> get_cf s' k = get_cf s k"
    and issued: "load_issued_supply s' A = load_issued_supply (apply_batch b1 s) A"
  shows "verify_supply_invariants s' = Ok ()"
proof -
  note D = drip_Ok [OF drip]
  have "supply_ok s' a" for a
  proof (cases "a = A")
    case True
    have ok: "supply_ok s A" using valid verify_supply_iff by blast
    have same: "burned_of s' A = burned_of s A" "load_burned_supply s' A = load_burned_supply s A"
      "load_schema_version s' = load_schema_version s" "load_max_supply s' A = load_max_supply s A"
      by (simp_all add: burned_of_def load_burned_supply_def load_schema_version_def load_max_supply_def
          stored_def keep image_iff)
    have "burned_of s A \<le> load_issued_supply s' A"
      using ok D(3) issued by (simp add: supply_ok_def word_le_nat_alt)
    then show ?thesis using ok D(5) True same issued by (simp add: supply_ok_def)
  next
    case False
    then have "supply_ok s' a = supply_ok s a" by (intro counters_frame(6)) (auto simp: keep image_iff)
    then show ?thesis using valid verify_supply_iff by blast
  qed
  then show ?thesis by (simp add: verify_supply_iff)
qed



definition epoch_store :: state_store where
  "epoch_store = [(KAccount OVL 7, VAccount \<lparr>balance = 5000000, nonce = 4\<rparr>),
     (KIssued OVL, VU64 10000000), (KReserve OVL, VU64 3000000000), (KRewardPool OVL, VU64 1000),
     (KDelegation OVL 9 7, VDelegation \<lparr>dr_delegator = 9, dr_validator = 7, dr_amount = 300000\<rparr>),
     (KValidator OVL 7, VValidator demo_validator)]"

definition epoch_run :: "write_batch \<times> validator_set_snapshot" where
  "epoch_run = (case advance_epoch_with_params epoch_store ovl_staking_default of
     Inr r \<Rightarrow> r | Inl _ \<Rightarrow> ([], demo_snapshot))"

lemma epoch_store_keyed: "keyed_records epoch_store OVL"
  by (auto simp: keyed_records_def validator_at_def stored_def epoch_store_def get_cf_def demo_validator_def
      split: if_splits)

lemma epoch_store_backed: "stake_backed epoch_store OVL"
proof -
  have "(case stored as_delegation epoch_store (KDelegation OVL d 7) of
      Some r \<Rightarrow> unat (dr_amount r) | None \<Rightarrow> 0) = (if d = 9 then 300000 else 0)" for d
    by (simp add: stored_def epoch_store_def get_cf_def)
  then have "sum_stored as_delegation (\<lambda>d. KDelegation OVL d 7) (\<lambda>d. unat (dr_amount d)) epoch_store = 300000"
    by (simp add: sum_stored_def)
  moreover have "validator_at epoch_store OVL a = (if a = 7 then Some demo_validator else None)" for a
    by (simp add: validator_at_def stored_def epoch_store_def get_cf_def)
  ultimately show ?thesis
    by (auto simp: stake_backed_def bonded_stake_def demo_validator_def split: if_splits)
qed


text \<open>
  Property C16. The hypothesis on delegations is not kept by the operations themselves. Bonding again
  resets a validator's delegated stake to zero but leaves the delegation records; the next
  distribution then pays 1285 units out of a pool of 1000, 285 of them out of nothing.
\<close>

definition rebonded_store :: state_store where
  "rebonded_store = (case apply_signed_stake_tx demo_env epoch_store (demo_stake_tx Bond 1000000) demo_auth
     ovl_staking_default of Inr b \<Rightarrow> apply_batch b epoch_store | Inl _ \<Rightarrow> [])"


end
