(* ===== verification/Escrow.thy ===== *)
theory Escrow
  imports Staking
begin

text \<open>
  Native DRC escrows (\<^verbatim>\<open>state-machine/src/drc_escrow.rs\<close> with the time rules of \<^verbatim>\<open>types/src/drc_escrow.rs\<close>):
  create locks an amount, finish pays it to the recipient, cancel returns it to the owner. Blue scores
  are the clock.

  The results: balances and live escrows together lose exactly the fee that is really charged, an
  escrow is settled at most once and never reopened, and its time bounds leave no moment at which
  both outcomes are allowed and none from which it is stuck.
\<close>

section \<open>Stored escrows\<close>

fun as_escrow_live :: "meta_val \<Rightarrow> drc_escrow_live option" where
  "as_escrow_live (VEscrowLive x) = Some x"
| "as_escrow_live _ = None"

fun as_escrow_receipt :: "meta_val \<Rightarrow> drc_escrow_receipt option" where
  "as_escrow_receipt (VEscrowReceipt x) = Some x"
| "as_escrow_receipt _ = None"

fun as_escrow_owner :: "meta_val \<Rightarrow> drc_escrow_owner_index option" where
  "as_escrow_owner (VEscrowOwner x) = Some x"
| "as_escrow_owner _ = None"

definition max_live_escrows :: nat where
  "max_live_escrows = 32"

definition escrow_meta_keys_for_create :: "crypto_env \<Rightarrow> drc_escrow_create_tx \<Rightarrow> meta_key list" where
  "escrow_meta_keys_for_create env tx =
     [KEscrowLive (escrow_id env tx), KEscrowOwner (ec_owner tx), KEscrowSettled (escrow_id env tx)]"

definition escrow_meta_keys_for_settlement :: "hash \<Rightarrow> address \<Rightarrow> meta_key list" where
  "escrow_meta_keys_for_settlement i owner =
     [KEscrowLive i, KEscrowOwner owner, KEscrowSettled i, KEscrowReceipt i]"

definition load_drc_escrow_live :: "state_store \<Rightarrow> hash \<Rightarrow> drc_escrow_live option res" where
  "load_drc_escrow_live s i =
     (case get_cf s (KEscrowLive i) of
        None \<Rightarrow> Ok None
      | Some v \<Rightarrow> bind_result (decode_as as_escrow_live v) (\<lambda>live.
                  bind_result (map_err Storage (validate_escrow_live live)) (\<lambda>_.
                  if el_escrow_id live \<noteq> i
                  then Err (Storage ''DRC escrow live id does not match index key'') else Ok (Some live))))"

definition load_drc_escrow_receipt :: "state_store \<Rightarrow> hash \<Rightarrow> drc_escrow_receipt option res" where
  "load_drc_escrow_receipt s i =
     (case get_cf s (KEscrowReceipt i) of
        None \<Rightarrow> Ok None
      | Some v \<Rightarrow> bind_result (decode_as as_escrow_receipt v) (\<lambda>receipt.
                  bind_result (map_err Storage (validate_escrow_receipt receipt)) (\<lambda>_.
                  if er_escrow_id receipt \<noteq> i
                  then Err (Storage ''DRC escrow receipt id does not match index key'') else Ok (Some receipt))))"

definition load_owner_index :: "state_store \<Rightarrow> address \<Rightarrow> hash list res" where
  "load_owner_index s owner =
     (case get_cf s (KEscrowOwner owner) of
        None \<Rightarrow> Ok []
      | Some v \<Rightarrow> bind_result (decode_as as_escrow_owner v) (\<lambda>r.
                  if oi_version r \<noteq> 1 \<or> oi_owner r \<noteq> owner
                  then Err (Storage ''invalid DRC escrow owner index'') else Ok (oi_live_ids r)))"

definition put_owner_index :: "address \<Rightarrow> hash list \<Rightarrow> write_batch res" where
  "put_owner_index owner live_ids =
     (if live_ids = [] then Ok [Delete (KEscrowOwner owner)]
      else if max_live_escrows < length live_ids then Err (InvalidTx ''DRC live escrow cap exceeded'')
      else Ok [Put (KEscrowOwner owner) (VEscrowOwner \<lparr>oi_version = 1, oi_owner = owner, oi_live_ids = live_ids\<rparr>)])"

definition ensure_unsettled :: "state_store \<Rightarrow> hash \<Rightarrow> unit res" where
  "ensure_unsettled s i =
     (if get_cf s (KEscrowSettled i) \<noteq> None then Err (InvalidTx ''DRC escrow already settled'') else Ok ())"

section \<open>Time rules\<close>

definition escrow_finish_allowed :: "u64 \<Rightarrow> u64 option \<Rightarrow> u64 option \<Rightarrow> bool" where
  "escrow_finish_allowed score finish_after cancel_after \<longleftrightarrow>
     \<not> (case finish_after of Some f \<Rightarrow> score < f | None \<Rightarrow> False)
     \<and> \<not> (case cancel_after of Some c \<Rightarrow> c \<le> score | None \<Rightarrow> False)"

definition escrow_cancel_allowed :: "u64 \<Rightarrow> u64 option \<Rightarrow> bool" where
  "escrow_cancel_allowed score cancel_after \<longleftrightarrow> (case cancel_after of Some c \<Rightarrow> c \<le> score | None \<Rightarrow> False)"

section \<open>Operations\<close>

definition new_escrow_live :: "crypto_env \<Rightarrow> drc_escrow_create_tx \<Rightarrow> u64 \<Rightarrow> drc_escrow_live" where
  "new_escrow_live env tx score =
     \<lparr>el_version = 1, el_escrow_id = escrow_id env tx, el_owner = ec_owner tx, el_recipient = ec_recipient tx,
      el_amount = ec_amount tx, el_destination_tag = ec_destination_tag tx, el_source_tag = ec_source_tag tx,
      el_invoice_id = ec_invoice_id tx, el_finish_after = ec_finish_after tx,
      el_cancel_after = ec_cancel_after tx, el_create_blue_score = score\<rparr>"

definition apply_drc_escrow_create ::
    "crypto_env \<Rightarrow> state_store \<Rightarrow> drc_escrow_create_tx \<Rightarrow> tx_auth_context \<Rightarrow> u64
     \<Rightarrow> (write_batch \<times> account_journal \<times> hash) res" where
  "apply_drc_escrow_create env s tx auth score =
     bind_result (map_err InvalidTx (validate_escrow_create tx)) (\<lambda>_.
     bind_result (verify_drc_escrow_create_operation env s tx auth) (\<lambda>_.
     let i = escrow_id env tx in
     if get_cf s (KEscrowLive i) \<noteq> None then Err (InvalidTx ''duplicate DRC escrow id'')
     else
     bind_result (ensure_unsettled s i) (\<lambda>_.
     bind_result (load_drc_account_policy s (ec_recipient tx)) (\<lambda>policy.
     if ap_require_destination_tag policy \<and> ec_destination_tag tx = None
     then Err (InvalidTx ''DRC destination tag required by recipient policy'')
     else
     bind_result (load_account s DRC (ec_owner tx)) (\<lambda>owner.
     bind_result (plan_owner_sequence s (ec_owner tx) tx 2 owner ''bad DRC escrow-create nonce'') (\<lambda>ctx.
     bind_result (ok_or (checked_add (ec_amount tx) (ec_fee tx))
         (InvalidTx ''DRC escrow create amount+fee overflow'')) (\<lambda>debit.
     if balance owner < debit then Err (InvalidTx ''insufficient DRC escrow-create balance'')
     else
     bind_result (load_owner_index s (ec_owner tx)) (\<lambda>live_ids.
     if max_live_escrows \<le> length live_ids then Err (InvalidTx ''DRC live escrow cap exceeded'')
     else if i \<in> set live_ids then Err (InvalidTx ''duplicate DRC escrow id'')
     else
     bind_result (charge_owner (ec_owner tx) owner debit ctx ''DRC escrow-create nonce overflow'') (\<lambda>(b, j).
     bind_result (put_owner_index (ec_owner tx) (sort (live_ids @ [i]))) (\<lambda>b1.
     let live = new_escrow_live env tx score in
     bind_result (map_err InvalidTx (validate_escrow_live live)) (\<lambda>_.
     Ok (b @ b1 @ [Put (KEscrowLive i) (VEscrowLive live)], j, i))))))))))))"

definition escrow_receipt :: "drc_escrow_live \<Rightarrow> drc_escrow_outcome \<Rightarrow> u64 \<Rightarrow> hash \<Rightarrow> drc_escrow_receipt" where
  "escrow_receipt live outcome score settlement_tx_id =
     \<lparr>er_version = 1, er_escrow_id = el_escrow_id live, er_outcome = outcome, er_owner = el_owner live,
      er_recipient = el_recipient live, er_amount = el_amount live, er_destination_tag = el_destination_tag live,
      er_source_tag = el_source_tag live, er_invoice_id = el_invoice_id live,
      er_settlement_blue_score = score, er_settlement_tx_id = settlement_tx_id\<rparr>"

definition settle_escrow ::
    "state_store \<Rightarrow> drc_escrow_live \<Rightarrow> drc_escrow_outcome \<Rightarrow> u64 \<Rightarrow> hash \<Rightarrow> write_batch res" where
  "settle_escrow s live outcome score settlement_tx_id =
     bind_result (load_owner_index s (el_owner live)) (\<lambda>live_ids.
     bind_result (put_owner_index (el_owner live) (filter (\<lambda>i. i \<noteq> el_escrow_id live) live_ids)) (\<lambda>b.
     let receipt = escrow_receipt live outcome score settlement_tx_id in
     bind_result (map_err Storage (validate_escrow_receipt receipt)) (\<lambda>_.
     Ok (b @ [Delete (KEscrowLive (el_escrow_id live)),
              Put (KEscrowSettled (el_escrow_id live)) (VHash settlement_tx_id),
              Put (KEscrowReceipt (el_escrow_id live)) (VEscrowReceipt receipt)]))))"

definition apply_drc_escrow_finish ::
    "crypto_env \<Rightarrow> state_store \<Rightarrow> drc_escrow_finish_tx \<Rightarrow> tx_auth_context \<Rightarrow> u64
     \<Rightarrow> (write_batch \<times> account_journal \<times> drc_escrow_receipt) res" where
  "apply_drc_escrow_finish env s tx auth score =
     bind_result (map_err InvalidTx (validate_escrow_finish tx)) (\<lambda>_.
     bind_result (verify_drc_escrow_finish_operation env s tx auth) (\<lambda>_.
     bind_result (ensure_unsettled s (es_escrow_id tx)) (\<lambda>_.
     bind_result (load_drc_escrow_live s (es_escrow_id tx)) (\<lambda>found.
     bind_result (ok_or found (InvalidTx ''unknown DRC escrow'')) (\<lambda>live.
     if \<not> escrow_finish_allowed score (el_finish_after live) (el_cancel_after live)
     then Err (InvalidTx ''DRC escrow finish not yet allowed at this blue score'')
     else
     bind_result (load_drc_account_policy s (el_recipient live)) (\<lambda>policy.
     bind_result (if ap_deposit_auth_required policy \<and> el_owner live \<noteq> el_recipient live
                  then load_drc_deposit_preauth s (el_recipient live) (el_owner live) else Ok True) (\<lambda>allowed.
     if \<not> allowed then Err (InvalidTx ''DRC deposit authorization required by recipient policy'')
     else
     bind_result (load_account s DRC (es_submitter tx)) (\<lambda>submitter.
     bind_result (plan_owner_sequence s (es_submitter tx) tx 2 submitter ''bad DRC escrow-finish nonce'') (\<lambda>ctx.
     if balance submitter < es_fee tx then Err (InvalidTx ''insufficient DRC escrow-finish balance'')
     else
     bind_result (load_account s DRC (el_recipient live)) (\<lambda>recipient.
     bind_result (ok_or (checked_add (balance recipient) (el_amount live))
         (InvalidTx ''DRC escrow finish recipient overflow'')) (\<lambda>new_balance.
     bind_result (charge_owner (es_submitter tx) submitter (es_fee tx) ctx ''DRC escrow-finish nonce overflow'')
       (\<lambda>(b, j).
     bind_result (put_account_into DRC (el_recipient live) (recipient\<lparr>balance := new_balance\<rparr>)) (\<lambda>b1.
     bind_result (settle_escrow s live Finished score (settle_tx_id env tx)) (\<lambda>b2.
     Ok (b @ b1 @ b2, j @ [(DRC, el_recipient live, recipient)],
         escrow_receipt live Finished score (settle_tx_id env tx))))))))))))))))"

definition apply_drc_escrow_cancel ::
    "crypto_env \<Rightarrow> state_store \<Rightarrow> drc_escrow_cancel_tx \<Rightarrow> tx_auth_context \<Rightarrow> u64
     \<Rightarrow> (write_batch \<times> account_journal \<times> drc_escrow_receipt) res" where
  "apply_drc_escrow_cancel env s tx auth score =
     bind_result (map_err InvalidTx (validate_escrow_cancel tx)) (\<lambda>_.
     bind_result (verify_drc_escrow_cancel_operation env s tx auth) (\<lambda>_.
     bind_result (ensure_unsettled s (es_escrow_id tx)) (\<lambda>_.
     bind_result (load_drc_escrow_live s (es_escrow_id tx)) (\<lambda>found.
     bind_result (ok_or found (InvalidTx ''unknown DRC escrow'')) (\<lambda>live.
     if \<not> escrow_cancel_allowed score (el_cancel_after live)
     then Err (InvalidTx ''DRC escrow cancel not yet allowed at this blue score'')
     else
     bind_result (load_account s DRC (es_submitter tx)) (\<lambda>submitter.
     bind_result (plan_owner_sequence s (es_submitter tx) tx 2 submitter ''bad DRC escrow-cancel nonce'') (\<lambda>ctx.
     if balance submitter < es_fee tx then Err (InvalidTx ''insufficient DRC escrow-cancel balance'')
     else
     bind_result (load_account s DRC (el_owner live)) (\<lambda>owner.
     bind_result (ok_or (checked_add (balance owner) (el_amount live))
         (InvalidTx ''DRC escrow cancel owner balance overflow'')) (\<lambda>new_balance.
     bind_result (charge_owner (es_submitter tx) submitter (es_fee tx) ctx ''DRC escrow-cancel nonce overflow'')
       (\<lambda>(b, j).
     bind_result (put_account_into DRC (el_owner live) (owner\<lparr>balance := new_balance\<rparr>)) (\<lambda>b1.
     bind_result (settle_escrow s live Cancelled score (settle_tx_id env tx)) (\<lambda>b2.
     Ok (b @ b1 @ b2, j @ [(DRC, el_owner live, owner)],
         escrow_receipt live Cancelled score (settle_tx_id env tx))))))))))))))"

definition lookup_drc_escrow_point :: "state_store \<Rightarrow> hash \<Rightarrow> string res" where
  "lookup_drc_escrow_point s i =
     (if i = 0 then Err (InvalidTx ''zero DRC escrow id'')
      else bind_result (load_drc_escrow_live s i) (\<lambda>found.
        Ok (if found \<noteq> None then ''live'' else ''unknown'')))"

section \<open>What accepted operations did\<close>

definition escrowed :: "state_store \<Rightarrow> nat" where
  "escrowed s = sum_stored as_escrow_live KEscrowLive (\<lambda>l. unat (el_amount l)) s"

lemma as_escrow_simps [simp]:
  "as_escrow_live v = Some l \<longleftrightarrow> v = VEscrowLive l"
  "as_escrow_receipt v = Some r \<longleftrightarrow> v = VEscrowReceipt r"
  "as_escrow_owner v = Some i \<longleftrightarrow> v = VEscrowOwner i"
  by (cases v; simp)+

lemma load_escrow_live_Ok:
  "load_drc_escrow_live s i = Ok (Some live) \<Longrightarrow>
     get_cf s (KEscrowLive i) = Some (VEscrowLive live) \<and> el_escrow_id live = i \<and> validate_escrow_live live = Ok ()"
  by (auto simp: load_drc_escrow_live_def split: option.splits if_splits)

lemma ensure_unsettled_Ok [simp]: "ensure_unsettled s i = Ok u \<longleftrightarrow> get_cf s (KEscrowSettled i) = None"
  by (auto simp: ensure_unsettled_def)

lemma put_owner_index_keys: "put_owner_index owner ids = Ok b \<Longrightarrow> op_key ` set b = {KEscrowOwner owner}"
  by (auto simp: put_owner_index_def split: if_splits)

lemma escrow_create_Ok:
  assumes "apply_drc_escrow_create env s tx auth score = Ok (b, j, i)"
  obtains b0 b1 where
    "verify_drc_escrow_create_operation env s tx auth = Ok ()" "i = escrow_id env tx"
    "get_cf s (KEscrowLive i) = None" "get_cf s (KEscrowSettled i) = None"
    "charged s (ec_owner tx) (selector_of tx 2) (unat (ec_amount tx) + unat (ec_fee tx)) b0 j"
    "op_key ` set b1 = {KEscrowOwner (ec_owner tx)}"
    "validate_escrow_live (new_escrow_live env tx score) = Ok ()"
    "b = b0 @ b1 @ [Put (KEscrowLive i) (VEscrowLive (new_escrow_live env tx score))]"
proof -
  from assms obtain owner ctx debit ids b0 b1 where
    ver: "verify_drc_escrow_create_operation env s tx auth = Ok ()" and i: "i = escrow_id env tx"
    and fresh: "get_cf s (KEscrowLive i) = None" "get_cf s (KEscrowSettled i) = None"
    and load: "load_account s DRC (ec_owner tx) = Ok owner"
    and plan: "plan_owner_sequence s (ec_owner tx) tx 2 owner ''bad DRC escrow-create nonce'' = Ok ctx"
    and debit: "checked_add (ec_amount tx) (ec_fee tx) = Some debit" and bal: "\<not> balance owner < debit"
    and charge: "charge_owner (ec_owner tx) owner debit ctx ''DRC escrow-create nonce overflow'' = Ok (b0, j)"
    and idx: "put_owner_index (ec_owner tx) (sort (ids @ [i])) = Ok b1"
    and live: "validate_escrow_live (new_escrow_live env tx score) = Ok ()"
    and b: "b = b0 @ b1 @ [Put (KEscrowLive i) (VEscrowLive (new_escrow_live env tx score))]"
    by (auto simp: apply_drc_escrow_create_def Let_def split: if_splits)
  have "charged s (ec_owner tx) (selector_of tx 2) (unat (ec_amount tx) + unat (ec_fee tx)) b0 j"
    using charge_owner_charged [OF load plan bal charge] checked_add_Some [OF debit] by simp
  from that [OF ver i fresh this put_owner_index_keys [OF idx] live b] show thesis .
qed

text \<open>
  Finish and cancel differ in who is paid; the rest of what they do is one predicate.
\<close>

definition settles ::
    "state_store \<Rightarrow> drc_escrow_settle_tx \<Rightarrow> address \<Rightarrow> drc_escrow_live \<Rightarrow> write_batch \<Rightarrow> account_journal
     \<Rightarrow> drc_escrow_receipt \<Rightarrow> bool" where
  "settles s tx payee live b j r \<longleftrightarrow>
     get_cf s (KEscrowSettled (es_escrow_id tx)) = None
     \<and> get_cf s (KEscrowLive (es_escrow_id tx)) = Some (VEscrowLive live) \<and> el_escrow_id live = es_escrow_id tx
     \<and> validate_escrow_live live = Ok ()
     \<and> (\<exists>b0 j0 acc b1 txid.
          charged s (es_submitter tx) (selector_of tx 2) (unat (es_fee tx)) b0 j0
          \<and> j = j0 @ [(DRC, payee, acct s DRC payee)]
          \<and> unat (balance acc) = unat (balance (acct s DRC payee)) + unat (el_amount live)
          \<and> nonce acc = nonce (acct s DRC payee)
          \<and> op_key ` set b1 = {KEscrowOwner (el_owner live)}
          \<and> b = b0 @ [Put (KAccount DRC payee) (VAccount acc)] @ b1
                @ [Delete (KEscrowLive (es_escrow_id tx)), Put (KEscrowSettled (es_escrow_id tx)) (VHash txid),
                   Put (KEscrowReceipt (es_escrow_id tx)) (VEscrowReceipt r)])"

lemma settlement:
  assumes live: "load_drc_escrow_live s (es_escrow_id tx) = Ok (Some live)"
    and un: "get_cf s (KEscrowSettled (es_escrow_id tx)) = None"
    and load: "load_account s DRC (es_submitter tx) = Ok submitter"
    and plan: "plan_owner_sequence s (es_submitter tx) tx 2 submitter msg = Ok ctx"
    and bal: "\<not> balance submitter < es_fee tx"
    and payee: "load_account s DRC payee = Ok acc" "checked_add (balance acc) (el_amount live) = Some n"
    and charge: "charge_owner (es_submitter tx) submitter (es_fee tx) ctx msg' = Ok (b0, j0)"
    and set: "settle_escrow s live outcome score txid = Ok b2"
  shows "settles s tx payee live (b0 @ [Put (KAccount DRC payee) (VAccount (acc\<lparr>balance := n\<rparr>))] @ b2)
    (j0 @ [(DRC, payee, acc)]) (escrow_receipt live outcome score txid)"
proof -
  note l = load_escrow_live_Ok [OF live]
  from set obtain b1 where keys: "op_key ` set b1 = {KEscrowOwner (el_owner live)}"
    and b2: "b2 = b1 @ [Delete (KEscrowLive (es_escrow_id tx)), Put (KEscrowSettled (es_escrow_id tx)) (VHash txid),
       Put (KEscrowReceipt (es_escrow_id tx)) (VEscrowReceipt (escrow_receipt live outcome score txid))]"
    using l by (auto simp: settle_escrow_def Let_def dest!: put_owner_index_keys)
  note p = load_account_Ok [OF payee(1), THEN conjunct2]
  show ?thesis
    unfolding settles_def
    by (rule conjI [OF un], rule conjI [OF l [THEN conjunct1]], rule conjI [OF l [THEN conjunct2, THEN conjunct1]],
        rule conjI [OF l [THEN conjunct2, THEN conjunct2]],
        rule exI [of _ b0], rule exI [of _ j0], rule exI [of _ "acc\<lparr>balance := n\<rparr>"], rule exI [of _ b1],
        rule exI [of _ txid])
      (use charge_owner_charged [OF load plan bal charge] p checked_add_Some [OF payee(2)] keys b2 in simp)
qed

lemma escrow_finish_Ok:
  assumes "apply_drc_escrow_finish env s tx auth score = Ok (b, j, r)"
  obtains live where "verify_drc_escrow_finish_operation env s tx auth = Ok ()"
    "escrow_finish_allowed score (el_finish_after live) (el_cancel_after live)"
    "settles s tx (el_recipient live) live b j r" "r = escrow_receipt live Finished score (settle_tx_id env tx)"
  using assms unfolding apply_drc_escrow_finish_def
  by (auto simp: Let_def split: if_splits intro: settlement [simplified])

lemma escrow_cancel_Ok:
  assumes "apply_drc_escrow_cancel env s tx auth score = Ok (b, j, r)"
  obtains live where "verify_drc_escrow_cancel_operation env s tx auth = Ok ()"
    "escrow_cancel_allowed score (el_cancel_after live)"
    "settles s tx (el_owner live) live b j r" "r = escrow_receipt live Cancelled score (settle_tx_id env tx)"
  using assms unfolding apply_drc_escrow_cancel_def
  by (auto simp: Let_def split: if_splits intro: settlement [simplified])

section \<open>Conservation\<close>

lemma inj_escrow_key [simp]: "inj KEscrowLive"
  by (simp add: inj_def)

lemma escrowed_upd:
  assumes "\<And>i'. stored as_escrow_live s' (KEscrowLive i') = ((\<lambda>i'. stored as_escrow_live s (KEscrowLive i'))(i := v)) i'"
  shows "escrowed s' + (case stored as_escrow_live s (KEscrowLive i) of Some l \<Rightarrow> unat (el_amount l) | None \<Rightarrow> 0)
       = escrowed s + (case v of Some l \<Rightarrow> unat (el_amount l) | None \<Rightarrow> 0)"
  using sum_stored_upd [of KEscrowLive as_escrow_live s' s i v "\<lambda>l. unat (el_amount l)"] assms
  by (simp add: escrowed_def)

lemma escrowed_frame: "(\<And>i. KEscrowLive i \<notin> op_key ` set b) \<Longrightarrow> escrowed (apply_batch b s) = escrowed s"
  unfolding escrowed_def by (intro sum_stored_cong stored_frame)

lemma total_balance_frame:
  "(\<And>a. KAccount asset a \<notin> op_key ` set b) \<Longrightarrow> total_balance (apply_batch b s) asset = total_balance s asset"
  by (intro total_balance_cong acct_frame)

lemma create_total:
  assumes "apply_drc_escrow_create env s tx auth score = Ok (b, j, i)"
  shows "total_balance (apply_batch b s) DRC + unat (ec_amount tx) + unat (ec_fee tx) = total_balance s DRC"
    and "escrowed (apply_batch b s) = escrowed s + unat (ec_amount tx)"
proof -
  from assms obtain b0 b1 where fresh: "get_cf s (KEscrowLive i) = None"
    and ch: "charged s (ec_owner tx) (selector_of tx 2) (unat (ec_amount tx) + unat (ec_fee tx)) b0 j"
    and b1: "op_key ` set b1 = {KEscrowOwner (ec_owner tx)}"
    and b: "b = b0 @ b1 @ [Put (KEscrowLive i) (VEscrowLive (new_escrow_live env tx score))]"
    by (rule escrow_create_Ok)
  let ?rest = "b1 @ [Put (KEscrowLive i) (VEscrowLive (new_escrow_live env tx score))]"
  have "total_balance (apply_batch ?rest (apply_batch b0 s)) DRC = total_balance (apply_batch b0 s) DRC"
    using b1 by (intro total_balance_frame) (auto simp: image_Un)
  then show "total_balance (apply_batch b s) DRC + unat (ec_amount tx) + unat (ec_fee tx) = total_balance s DRC"
    using charged_total [OF ch] by (simp add: b)
  have "stored as_escrow_live (apply_batch b s) (KEscrowLive i')
      = ((\<lambda>i'. stored as_escrow_live s (KEscrowLive i'))(i := Some (new_escrow_live env tx score))) i'" for i'
    using stored_frame [of "KEscrowLive i'" "b0 @ b1" as_escrow_live s] charged_keys [OF ch] b1
    by (auto simp: b image_Un)
  from escrowed_upd [OF this] fresh show "escrowed (apply_batch b s) = escrowed s + unat (ec_amount tx)"
    by (simp add: stored_def new_escrow_live_def)
qed

lemma settles_total:
  assumes "settles s tx payee live b j r"
  shows "total_balance (apply_batch b s) DRC + (if es_submitter tx = payee then 0 else unat (es_fee tx))
       = total_balance s DRC + unat (el_amount live)"
    and "escrowed (apply_batch b s) + unat (el_amount live) = escrowed s"
    and "unat (balance (acct (apply_batch b s) DRC payee)) = unat (balance (acct s DRC payee)) + unat (el_amount live)"
    and "nonce (acct (apply_batch b s) DRC payee) = nonce (acct s DRC payee)"
    and "get_cf (apply_batch b s) (KEscrowLive (es_escrow_id tx)) = None"
    and "get_cf (apply_batch b s) (KEscrowSettled (es_escrow_id tx)) \<noteq> None"
    and "get_cf (apply_batch b s) (KEscrowReceipt (es_escrow_id tx)) = Some (VEscrowReceipt r)"
proof -
  let ?i = "es_escrow_id tx"
  from assms obtain b0 j0 acc b1 txid where live: "get_cf s (KEscrowLive ?i) = Some (VEscrowLive live)"
    and ch: "charged s (es_submitter tx) (selector_of tx 2) (unat (es_fee tx)) b0 j0"
    and acc: "unat (balance acc) = unat (balance (acct s DRC payee)) + unat (el_amount live)"
      "nonce acc = nonce (acct s DRC payee)"
    and b1: "op_key ` set b1 = {KEscrowOwner (el_owner live)}"
    and b: "b = b0 @ [Put (KAccount DRC payee) (VAccount acc)] @ b1
                @ [Delete (KEscrowLive ?i), Put (KEscrowSettled ?i) (VHash txid), Put (KEscrowReceipt ?i) (VEscrowReceipt r)]"
    unfolding settles_def by blast
  let ?tail = "b1 @ [Delete (KEscrowLive ?i), Put (KEscrowSettled ?i) (VHash txid), Put (KEscrowReceipt ?i) (VEscrowReceipt r)]"
  let ?s1 = "apply_batch b0 s" and ?s2 = "apply_batch (b0 @ [Put (KAccount DRC payee) (VAccount acc)]) s"
  have s': "apply_batch b s = apply_batch ?tail ?s2" by (simp add: b)
  have tail: "KAccount asset a \<notin> op_key ` set ?tail" for asset a using b1 by (auto simp: image_Un)
  obtain after where after: "unat (balance after) + unat (es_fee tx) = unat (balance (acct s DRC (es_submitter tx)))"
    and s1: "\<And>asset a. acct ?s1 asset a = (if asset = DRC \<and> a = es_submitter tx then after else acct s asset a)"
    using charged_acct [OF ch] by metis
  have "total_balance ?s2 DRC + unat (balance (acct ?s1 DRC payee)) = total_balance ?s1 DRC + unat (balance acc)"
    using total_balance_put [of DRC payee acc ?s1] by simp
  moreover have "total_balance (apply_batch b s) DRC = total_balance ?s2 DRC"
    unfolding s' by (intro total_balance_frame tail)
  ultimately show "total_balance (apply_batch b s) DRC + (if es_submitter tx = payee then 0 else unat (es_fee tx))
       = total_balance s DRC + unat (el_amount live)"
    using charged_total [OF ch] acc(1) after s1 [of DRC payee] by (auto split: if_splits)
  have "acct (apply_batch b s) DRC payee = acc" unfolding s' by (subst acct_frame [OF tail]) simp
  then show "unat (balance (acct (apply_batch b s) DRC payee)) = unat (balance (acct s DRC payee)) + unat (el_amount live)"
    "nonce (acct (apply_batch b s) DRC payee) = nonce (acct s DRC payee)" using acc by simp_all
  have "stored as_escrow_live (apply_batch b s) (KEscrowLive i')
      = ((\<lambda>i'. stored as_escrow_live s (KEscrowLive i'))(?i := None)) i'" for i'
    using stored_frame [of "KEscrowLive i'" "b0 @ [Put (KAccount DRC payee) (VAccount acc)] @ b1" as_escrow_live s]
      charged_keys [OF ch] b1 by (auto simp: b image_Un)
  from escrowed_upd [OF this] live show "escrowed (apply_batch b s) + unat (el_amount live) = escrowed s"
    by (simp add: stored_def)
  show "get_cf (apply_batch b s) (KEscrowLive ?i) = None" "get_cf (apply_batch b s) (KEscrowSettled ?i) \<noteq> None"
    "get_cf (apply_batch b s) (KEscrowReceipt ?i) = Some (VEscrowReceipt r)" by (simp_all add: b)
qed

section \<open>Properties\<close>


definition demo_escrow :: drc_escrow_live where
  "demo_escrow = \<lparr>el_version = 1, el_escrow_id = 77, el_owner = 5, el_recipient = 7, el_amount = 60,
     el_destination_tag = None, el_source_tag = None, el_invoice_id = 0, el_finish_after = Some 10,
     el_cancel_after = Some 20, el_create_blue_score = 3\<rparr>"

definition escrow_store :: state_store where
  "escrow_store = [(KAccount DRC 7, VAccount \<lparr>balance = 100, nonce = 4\<rparr>),
     (KEscrowLive 77, VEscrowLive demo_escrow),
     (KEscrowOwner 5, VEscrowOwner \<lparr>oi_version = 1, oi_owner = 5, oi_live_ids = [77]\<rparr>)]"

definition demo_finish :: drc_escrow_finish_tx where
  "demo_finish = \<lparr>tx_version = 1, tx_nonce = 4, tx_public_key = replicate 33 7, tx_signature = replicate 64 7,
     tx_multisign = None, tx_account_sequence = None, es_submitter = 7, es_escrow_id = 77, es_fee = 9\<rparr>"

definition demo_finish_run :: "write_batch \<times> account_journal \<times> drc_escrow_receipt" where
  "demo_finish_run = (case apply_drc_escrow_finish demo_env escrow_store demo_finish demo_auth 12 of
     Inr x \<Rightarrow> x | Inl _ \<Rightarrow> ([], [], escrow_receipt demo_escrow Cancelled 0 0))"


text \<open>
  Property C18. The time bounds of an escrow leave it neither contested nor stuck: at no blue score are
  finish and cancel both allowed, a cancellation once allowed stays allowed, and there is a score,
  within the bound the protocol admits, from which on one of the two is always allowed.
\<close>

theorem escrow_never_stuck:
  assumes "validate_escrow_live live = Ok ()"
  shows "(\<forall>score. \<not> (escrow_finish_allowed score (el_finish_after live) (el_cancel_after live)
              \<and> escrow_cancel_allowed score (el_cancel_after live)))
    \<and> (\<exists>t. t \<le> max_blue_score_bound \<and> (\<forall>score. t \<le> score \<longrightarrow>
          escrow_finish_allowed score (el_finish_after live) (el_cancel_after live)
          \<or> escrow_cancel_allowed score (el_cancel_after live)))
    \<and> (\<forall>score score'. escrow_cancel_allowed score (el_cancel_after live) \<and> score \<le> score' \<longrightarrow>
          escrow_cancel_allowed score' (el_cancel_after live))"
proof -
  have bounds: "validate_escrow_time_bounds (el_finish_after live) (el_cancel_after live) = Ok ()"
    using assms by (auto simp: validate_escrow_live_def split: if_splits)
  obtain t where "t \<le> max_blue_score_bound"
    and "\<And>score. t \<le> score \<Longrightarrow> escrow_finish_allowed score (el_finish_after live) (el_cancel_after live)
          \<or> escrow_cancel_allowed score (el_cancel_after live)"
  proof (cases "el_cancel_after live")
    case None
    then obtain f where "el_finish_after live = Some f" "f \<le> max_blue_score_bound"
      using bounds by (auto simp: validate_escrow_time_bounds_def not_less split: if_splits)
    with None that [of f] show ?thesis by (auto simp: escrow_finish_allowed_def not_less)
  next
    case (Some c)
    then have "c \<le> max_blue_score_bound"
      using bounds by (auto simp: validate_escrow_time_bounds_def not_less split: if_splits)
    with Some that [of c] show ?thesis by (auto simp: escrow_cancel_allowed_def)
  qed
  then have "\<exists>t. t \<le> max_blue_score_bound \<and> (\<forall>score. t \<le> score \<longrightarrow>
          escrow_finish_allowed score (el_finish_after live) (el_cancel_after live)
          \<or> escrow_cancel_allowed score (el_cancel_after live))" by blast
  moreover have "\<not> (escrow_finish_allowed score (el_finish_after live) (el_cancel_after live)
      \<and> escrow_cancel_allowed score (el_cancel_after live))" for score
    by (simp add: escrow_finish_allowed_def escrow_cancel_allowed_def)
  moreover have "escrow_cancel_allowed score' (el_cancel_after live)"
    if "escrow_cancel_allowed score (el_cancel_after live)" "score \<le> score'" for score score'
    using that by (auto simp: escrow_cancel_allowed_def split: option.splits)
  ultimately show ?thesis by blast
qed

theorem escrow_never_stuck_witness:
  "validate_escrow_live demo_escrow = Ok ()
   \<and> \<not> (escrow_finish_allowed 20 (el_finish_after demo_escrow) (el_cancel_after demo_escrow)
        \<and> escrow_cancel_allowed 20 (el_cancel_after demo_escrow))"
proof -
  have v: "validate_escrow_live demo_escrow = Ok ()" by code_simp
  with escrow_never_stuck [OF v] show ?thesis by blast
qed

end
