(* ===== verification/Lanes.thy ===== *)
theory Lanes
  imports Escrow
begin

text \<open>
  The account lanes of block application (\<^verbatim>\<open>state-machine/src/apply.rs\<close>): \<open>apply_trident_lanes\<close> runs
  the operations of a block lane by lane over a copy-on-write overlay, settles the fee of every
  accepted operation, records what it overwrites in the block journal, and decides whether a failed
  operation loses a conflict (virtual mode) or makes the block fail; \<open>revert_journal_batched\<close> undoes a
  block from its journal.

  A block here has the ten lanes whose operations the other theories model; the remaining lanes of the
  code (checks, OVL executions, payments, channels, issued assets, offers, data commitments and the
  registrations) are empty, as are the detached multisign attachments. The overlay is a plain store
  value: it starts as the committed store and receives every accepted batch. The journal has the
  fields these lanes fill.
\<close>

section \<open>Operation identifiers\<close>

text \<open>
  An identifier hashes the Borsh form of the signed envelope: the fields in declaration order, the
  sequence selector from the ticket-capable version on and the nonce before it, the public key and the
  signature. Serialising a ticket-capable envelope without a selector panics.
\<close>

definition sequence_field :: "'a seq_envelope_scheme \<Rightarrow> u32 \<Rightarrow> string \<Rightarrow> borsh_val res" where
  "sequence_field tx ticket_version what =
     (if ticket_version \<le> tx_version tx
      then bind_result (bound_sequence tx what) (\<lambda>sq. Ok (BSeq sq))
      else Ok (BU64 (tx_nonce tx)))"

definition envelope_id ::
    "crypto_env \<Rightarrow> 'a seq_envelope_scheme \<Rightarrow> borsh_val list \<Rightarrow> u32 \<Rightarrow> string \<Rightarrow> hash res" where
  "envelope_id env tx body ticket_version what =
     bind_result (sequence_field tx ticket_version what) (\<lambda>sq.
     Ok (hash_borsh env (BU32 (tx_version tx) # body
           @ [sq, BBytes (tx_public_key tx), BBytes (tx_signature tx)])))"

definition ticket_create_tx_id :: "crypto_env \<Rightarrow> drc_ticket_create_tx \<Rightarrow> hash" where
  "ticket_create_tx_id env tx =
     hash_borsh env [BU32 (tx_version tx), BAddr (tc_owner tx), BU64 (tc_fee tx), BU64 (tx_nonce tx),
       BBytes (tx_public_key tx), BBytes (tx_signature tx)]"

definition transfer_id :: "crypto_env \<Rightarrow> account_transfer \<Rightarrow> hash res" where
  "transfer_id env tx =
     envelope_id env tx
       [BU8 (wire_byte (at_asset tx)), BAddr (at_from tx), BAddr (at_to tx), BU64 (at_amount tx), BU64 (at_fee tx)]
       3 ''v3 transfer missing account_sequence''"

fun stake_kind_byte :: "stake_op_kind \<Rightarrow> u8" where
  "stake_kind_byte Bond = 0"
| "stake_kind_byte Delegate = 1"
| "stake_kind_byte UnbondSelf = 2"
| "stake_kind_byte Withdraw = 3"

definition stake_tx_id :: "crypto_env \<Rightarrow> signed_stake_tx \<Rightarrow> hash res" where
  "stake_tx_id env tx =
     envelope_id env tx
       [BU8 (wire_byte (st_asset tx)), BU8 (stake_kind_byte (st_kind tx)), BAddr (st_actor tx),
        BAddr (st_validator tx), BU64 (st_amount tx), BBytes (st_consensus_pubkey tx), BAddr (st_withdrawal tx),
        BU16 (st_commission_bps tx), BHash (st_metadata_hash tx)]
       2 ''stake v2 missing account_sequence''"

definition regular_key_tx_id :: "crypto_env \<Rightarrow> drc_regular_key_tx \<Rightarrow> hash res" where
  "regular_key_tx_id env tx =
     envelope_id env tx
       [BAddr (rk_owner tx), BU8 (case rk_action tx of RegularSet \<Rightarrow> 0 | RegularClear \<Rightarrow> 1),
        BAddr (rk_regular_key tx), BBytes (rk_public_key tx), BU64 (rk_fee tx)]
       2 ''regular-key v2 missing account_sequence''"

definition signer_list_tx_id :: "crypto_env \<Rightarrow> drc_signer_list_tx \<Rightarrow> hash res" where
  "signer_list_tx_id env tx =
     envelope_id env tx
       [BAddr (slt_owner tx), BU8 (case slt_action tx of ListSet \<Rightarrow> 0 | ListDelete \<Rightarrow> 1), BU32 (slt_quorum tx),
        BList (map (\<lambda>e. BList [BAddr (sl_signer e), BU16 (sl_weight e)]) (slt_entries tx)), BU64 (slt_fee tx)]
       2 ''signer-list v2 missing account_sequence''"

fun policy_action_byte :: "drc_account_policy_action \<Rightarrow> u8" where
  "policy_action_byte SetRequireDestinationTag = 0"
| "policy_action_byte ClearRequireDestinationTag = 1"
| "policy_action_byte SetDepositAuthRequired = 2"
| "policy_action_byte ClearDepositAuthRequired = 3"
| "policy_action_byte SetMasterKeyDisabled = 4"
| "policy_action_byte ClearMasterKeyDisabled = 5"

definition policy_tx_id :: "crypto_env \<Rightarrow> drc_account_policy_tx \<Rightarrow> hash res" where
  "policy_tx_id env tx =
     envelope_id env tx [BAddr (pt_account tx), BU8 (policy_action_byte (pt_action tx)), BU64 (pt_fee tx)]
       4 ''account-policy v4 missing account_sequence''"

definition preauth_tx_id :: "crypto_env \<Rightarrow> drc_deposit_preauth_tx \<Rightarrow> hash res" where
  "preauth_tx_id env tx =
     envelope_id env tx
       [BAddr (dpt_owner tx), BU8 (case dpt_action tx of Authorize \<Rightarrow> 0 | Unauthorize \<Rightarrow> 1),
        BAddr (dpt_source tx), BU64 (dpt_fee tx)]
       2 ''deposit-preauth v2 missing account_sequence''"

section \<open>Conflicts\<close>

fun contains :: "string \<Rightarrow> string \<Rightarrow> bool" where
  "contains [] pat = (pat = [])"
| "contains (c # cs) pat = (take (length pat) (c # cs) = pat \<or> contains cs pat)"

definition soft_conflict_messages :: "string list" where
  "soft_conflict_messages =
    [''bad nonce'',
     ''bad stake nonce'',
     ''insufficient account balance'',
     ''insufficient liquid stake funds'',
     ''unknown validator'',
     ''already bonded'',
     ''self-transfer forbidden'',
     ''bad OVL execution nonce'',
     ''insufficient OVL execution balance'',
     ''bad DRC payment nonce'',
     ''insufficient DRC payment balance'',
     ''duplicate DRC payment id'',
     ''duplicate DRC merchant invoice'',
     ''bad DRC account-policy nonce'',
     ''insufficient DRC account-policy balance'',
     ''DRC destination tag required'',
     ''bad DRC deposit-preauthorization nonce'',
     ''insufficient DRC deposit-preauthorization balance'',
     ''duplicate DRC deposit preauthorization'',
     ''missing DRC deposit preauthorization'',
     ''DRC deposit authorization required'',
     ''bad DRC account nonce'',
     ''unknown DRC ticket sequence'',
     ''bad DRC ticket-create nonce'',
     ''duplicate DRC ticket sequence'',
     ''DRC outstanding ticket cap exceeded'',
     ''duplicate DRC escrow id'',
     ''unknown DRC escrow'',
     ''DRC escrow already settled'',
     ''DRC live escrow cap exceeded'',
     ''bad DRC escrow-create nonce'',
     ''insufficient DRC escrow-create balance'',
     ''bad DRC escrow-finish nonce'',
     ''insufficient DRC escrow-finish balance'',
     ''bad DRC escrow-cancel nonce'',
     ''insufficient DRC escrow-cancel balance'',
     ''DRC escrow finish not yet allowed'',
     ''DRC escrow cancel not yet allowed'',
     ''duplicate DRC check id'',
     ''unknown DRC check'',
     ''DRC check already settled'',
     ''DRC live check cap exceeded'',
     ''bad DRC check-create nonce'',
     ''insufficient DRC check-create balance'',
     ''bad DRC check-cash nonce'',
     ''insufficient DRC check-cash submitter balance'',
     ''insufficient DRC check owner balance'',
     ''bad DRC check-cancel nonce'',
     ''insufficient DRC check-cancel balance'',
     ''DRC check expired'',
     ''DRC check cash submitter must be destination'',
     ''DRC check cancel submitter not authorized'',
     ''bad trust line set nonce'',
     ''bad issued transfer nonce'',
     ''trust line delete requires zero balance'',
     ''recipient missing trust line'',
     ''sender missing trust line'',
     ''issue exceeds line limit'',
     ''transfer exceeds sender balance'',
     ''transfer exceeds recipient limit'',
     ''redeem exceeds balance'',
     ''insufficient DRC for fee'',
     ''recipient requires destination tag'',
     ''require_auth only at zero liability'',
     ''clawback only at zero liability'',
     ''no_freeze incompatible with line freeze'',
     ''clawback not enabled'',
     ''issued movement frozen'',
     ''trust line not authorized'',
     ''duplicate DRC offer id'',
     ''bad DRC offer-create nonce'',
     ''bad DRC offer-cancel nonce'',
     ''DRC offer owner is unfunded'',
     ''DRC offer fill-or-kill'',
     ''DRC offer cancel submitter is not the owner'',
     ''DRC offer match cap exceeded'',
     ''insufficient DRC offer balance'',
     ''DRC offer book cap exceeded'',
     ''DRC live offer cap exceeded'',
     ''issued balance is reserved by a DRC offer'',
     ''DRC offer expiration is already past'']"

definition is_lane_soft_conflict :: "state_error \<Rightarrow> bool" where
  "is_lane_soft_conflict err =
     (case err of InvalidTx msg \<Rightarrow> list_ex (contains msg) soft_conflict_messages | _ \<Rightarrow> False)"

definition params_for_stake_asset :: "native_asset_id \<Rightarrow> staking_params res" where
  "params_for_stake_asset asset =
     (case asset of OVL \<Rightarrow> Ok ovl_staking_default | DRC \<Rightarrow> Ok drc_staking_default
      | TLT \<Rightarrow> Err (InvalidTx ''TLT cannot be staked''))"

section \<open>The block journal\<close>

type_synonym meta_value_snapshot = "(meta_key \<times> meta_val option) list"

record utxo_journal =
  account_before :: account_journal
  stake_meta_before :: meta_value_snapshot
  drc_policy_meta_before :: meta_value_snapshot
  drc_deposit_preauth_meta_before :: meta_value_snapshot
  drc_regular_key_meta_before :: meta_value_snapshot
  drc_signer_list_meta_before :: meta_value_snapshot
  drc_ticket_meta_before :: meta_value_snapshot
  drc_escrow_meta_before :: meta_value_snapshot

definition empty_journal :: utxo_journal where
  "empty_journal =
     \<lparr>account_before = [], stake_meta_before = [], drc_policy_meta_before = [],
      drc_deposit_preauth_meta_before = [], drc_regular_key_meta_before = [],
      drc_signer_list_meta_before = [], drc_ticket_meta_before = [], drc_escrow_meta_before = []\<rparr>"

definition revert_meta_into :: "meta_value_snapshot \<Rightarrow> write_batch" where
  "revert_meta_into before =
     map (\<lambda>(key, prior). case prior of Some v \<Rightarrow> Put key v | None \<Rightarrow> Delete key) (rev before)"

definition revert_journal_batched :: "utxo_journal \<Rightarrow> write_batch res" where
  "revert_journal_batched journal =
     bind_result (revert_account_journal_into (account_before journal)) (\<lambda>accounts.
     Ok (accounts
         @ revert_meta_into (stake_meta_before journal)
         @ revert_meta_into (drc_policy_meta_before journal)
         @ revert_meta_into (drc_deposit_preauth_meta_before journal)
         @ revert_meta_into (drc_regular_key_meta_before journal)
         @ revert_meta_into (drc_signer_list_meta_before journal)
         @ revert_meta_into (drc_ticket_meta_before journal)
         @ revert_meta_into (drc_escrow_meta_before journal)))"

definition revert_journal :: "state_store \<Rightarrow> utxo_journal \<Rightarrow> state_store res" where
  "revert_journal s journal =
     bind_result (revert_journal_batched journal) (\<lambda>b. Ok (apply_batch b s))"

definition apply_accepted_account_fee ::
    "state_store \<Rightarrow> utxo_journal \<Rightarrow> native_asset_id \<Rightarrow> amount \<Rightarrow> (write_batch \<times> utxo_journal) res" where
  "apply_accepted_account_fee s journal asset fee =
     (if asset = DRC \<and> fee = 0 then bind_result (burn_drc_fee_into s 0) (\<lambda>b. Ok (b, journal))
      else if fee = 0 then Ok ([], journal)
      else
      bind_result (case asset of
          DRC \<Rightarrow> Ok (KBurned DRC)
        | OVL \<Rightarrow> Ok (KRewardPool OVL)
        | TLT \<Rightarrow> Err (InvalidTx ''TLT fees are settled by the UTXO/coinbase lane'')) (\<lambda>key.
      let journal' = journal\<lparr>stake_meta_before := stake_meta_before journal @ snapshot_meta_keys s [key]\<rparr> in
      case asset of
        DRC \<Rightarrow> bind_result (burn_drc_fee_into s fee) (\<lambda>b. Ok (b, journal'))
      | OVL \<Rightarrow> bind_result (credit_fee_share_to_reward_pool s OVL fee) (\<lambda>(b, _). Ok (b, journal'))
      | TLT \<Rightarrow> Err (Panic ''TLT returned before mutation'')))"

section \<open>Lanes\<close>

datatype apply_mode = Strict | Virtual

datatype transaction_acceptance = Accepted | ExactDuplicate | ConflictLost | Invalid

text \<open>
  What a lane loop carries: the overlay, the batch and journal of the block, the ids accepted in this
  lane, the escrows settled in this block, and the statuses of the lane.
\<close>

record lane_state =
  ls_lane :: state_store
  ls_batch :: write_batch
  ls_journal :: utxo_journal
  ls_seen :: "hash list"
  ls_settled :: "hash list"
  ls_statuses :: "transaction_acceptance list"

definition push_status :: "transaction_acceptance \<Rightarrow> lane_state \<Rightarrow> lane_state" where
  "push_status v st = st\<lparr>ls_statuses := ls_statuses st @ [v]\<rparr>"

definition lane_conflict :: "apply_mode \<Rightarrow> bool \<Rightarrow> state_error \<Rightarrow> lane_state \<Rightarrow> lane_state res" where
  "lane_conflict mode known err st =
     (if mode = Virtual \<and> is_lane_soft_conflict err
      then Ok (push_status (if known then ExactDuplicate else ConflictLost) st)
      else Err err)"

definition lane_accept :: "hash \<Rightarrow> write_batch \<Rightarrow> utxo_journal \<Rightarrow> lane_state \<Rightarrow> lane_state" where
  "lane_accept i b journal st =
     push_status Accepted
       (st\<lparr>ls_lane := apply_batch b (ls_lane st), ls_batch := ls_batch st @ b, ls_journal := journal,
           ls_seen := i # ls_seen st\<rparr>)"

text \<open>
  The match that every fee-paying lane repeats: on success settle the fee against the overlay, write the
  overlay, run the lane's own check on it, and extend batch and journal; on failure the conflict rule.
\<close>

definition lane_settle ::
    "apply_mode \<Rightarrow> lane_state \<Rightarrow> hash \<Rightarrow> bool \<Rightarrow> native_asset_id \<Rightarrow> amount
     \<Rightarrow> (write_batch \<times> account_journal) res \<Rightarrow> (utxo_journal \<Rightarrow> utxo_journal) \<Rightarrow> (state_store \<Rightarrow> unit res)
     \<Rightarrow> lane_state res" where
  "lane_settle mode st i known asset fee run note_meta check =
     (case run of
        Inr (b, j) \<Rightarrow>
          bind_result (apply_accepted_account_fee (ls_lane st) (ls_journal st) asset fee) (\<lambda>(fb, journal).
          bind_result (check (apply_batch (b @ fb) (ls_lane st))) (\<lambda>_.
          Ok (lane_accept i (b @ fb)
                (note_meta (journal\<lparr>account_before := account_before journal @ j\<rparr>)) st)))
      | Inl err \<Rightarrow> lane_conflict mode known err st)"

abbreviation no_check :: "state_store \<Rightarrow> unit res" where
  "no_check \<equiv> \<lambda>_. Ok ()"

definition outcome :: "(write_batch \<times> account_journal \<times> 'a) res \<Rightarrow> (write_batch \<times> account_journal) res" where
  "outcome r = bind_result r (\<lambda>(b, j, _). Ok (b, j))"

definition drc_ticket_meta_keys :: "address \<Rightarrow> meta_key list" where
  "drc_ticket_meta_keys owner = [KTickets owner]"

definition drc_regular_key_meta_keys :: "drc_regular_key_tx \<Rightarrow> meta_key list" where
  "drc_regular_key_meta_keys tx = [KRegularKey (rk_owner tx)]"

definition drc_signer_list_meta_keys :: "drc_signer_list_tx \<Rightarrow> meta_key list" where
  "drc_signer_list_meta_keys tx = [KSignerList (slt_owner tx)]"

definition drc_account_policy_meta_keys :: "drc_account_policy_tx \<Rightarrow> meta_key list" where
  "drc_account_policy_meta_keys tx = [KPolicy (pt_account tx)]"

definition drc_deposit_preauth_meta_keys :: "drc_deposit_preauth_tx \<Rightarrow> meta_key list" where
  "drc_deposit_preauth_meta_keys tx = [KPreauth (dpt_owner tx) (dpt_source tx)]"

definition add_tickets :: "meta_value_snapshot \<Rightarrow> utxo_journal \<Rightarrow> utxo_journal" where
  "add_tickets snap j = j\<lparr>drc_ticket_meta_before := drc_ticket_meta_before j @ snap\<rparr>"

definition expect_auth :: "tx_auth_context option \<Rightarrow> string \<Rightarrow> tx_auth_context res" where
  "expect_auth auth what = ok_or auth (Panic what)"

definition ticket_create_step ::
    "crypto_env \<Rightarrow> tx_auth_context option \<Rightarrow> apply_mode \<Rightarrow> lane_state \<Rightarrow> drc_ticket_create_tx \<Rightarrow> lane_state res" where
  "ticket_create_step env auth mode st tx =
     (let i = ticket_create_tx_id env tx in
      bind_result (expect_auth auth ''DRC ticket-create auth checked above'') (\<lambda>ctx.
      let meta_before = snapshot_meta_keys (ls_lane st) (drc_ticket_meta_keys (tc_owner tx)) in
      lane_settle mode st i (i \<in> set (ls_seen st)) DRC (tc_fee tx)
        (outcome (apply_drc_ticket_create env (ls_lane st) tx ctx))
        (add_tickets meta_before) no_check))"

definition note_escrow :: "meta_value_snapshot \<Rightarrow> meta_value_snapshot \<Rightarrow> utxo_journal \<Rightarrow> utxo_journal" where
  "note_escrow meta_before ticket_snap j =
     add_tickets ticket_snap (j\<lparr>drc_escrow_meta_before := drc_escrow_meta_before j @ meta_before\<rparr>)"

definition escrow_create_step ::
    "crypto_env \<Rightarrow> tx_auth_context option \<Rightarrow> apply_mode \<Rightarrow> u64 \<Rightarrow> lane_state \<Rightarrow> drc_escrow_create_tx
     \<Rightarrow> lane_state res" where
  "escrow_create_step env auth mode score st tx =
     (let i = escrow_id env tx in
      bind_result (expect_auth auth ''DRC escrow auth checked above'') (\<lambda>ctx.
      let meta_before = snapshot_meta_keys (ls_lane st) (escrow_meta_keys_for_create env tx);
          ticket_snap = snapshot_meta_keys (ls_lane st) (drc_ticket_meta_keys (ec_owner tx)) in
      lane_settle mode st i (i \<in> set (ls_seen st)) DRC (ec_fee tx)
        (outcome (apply_drc_escrow_create env (ls_lane st) tx ctx score))
        (note_escrow meta_before ticket_snap) no_check))"

text \<open>
  The finish and the cancel loop: an escrow settled earlier in the block is a duplicate at once; an
  accepted settlement is remembered.
\<close>

definition escrow_settle_step ::
    "apply_mode \<Rightarrow> lane_state \<Rightarrow> hash \<Rightarrow> drc_escrow_settle_tx \<Rightarrow> tx_auth_context res
     \<Rightarrow> (tx_auth_context \<Rightarrow> (write_batch \<times> account_journal \<times> drc_escrow_receipt) res) \<Rightarrow> lane_state res" where
  "escrow_settle_step mode st i tx auth run =
     (if es_escrow_id tx \<in> set (ls_settled st) then Ok (push_status ExactDuplicate st)
      else
      bind_result auth (\<lambda>ctx.
      bind_result (load_drc_escrow_live (ls_lane st) (es_escrow_id tx)) (\<lambda>found.
      let meta_before = (case found of
              Some live \<Rightarrow> snapshot_meta_keys (ls_lane st)
                            (escrow_meta_keys_for_settlement (el_escrow_id live) (el_owner live))
            | None \<Rightarrow> []);
          ticket_snap = snapshot_meta_keys (ls_lane st) (drc_ticket_meta_keys (es_submitter tx)) in
      bind_result
        (lane_settle mode st i (i \<in> set (ls_seen st) \<or> es_escrow_id tx \<in> set (ls_settled st)) DRC (es_fee tx)
          (outcome (run ctx)) (note_escrow meta_before ticket_snap) no_check) (\<lambda>st'.
      Ok (case outcome (run ctx) of
            Inr _ \<Rightarrow> st'\<lparr>ls_settled := es_escrow_id tx # ls_settled st'\<rparr>
          | Inl _ \<Rightarrow> st')))))"

definition escrow_finish_step ::
    "crypto_env \<Rightarrow> tx_auth_context option \<Rightarrow> apply_mode \<Rightarrow> u64 \<Rightarrow> lane_state \<Rightarrow> drc_escrow_finish_tx
     \<Rightarrow> lane_state res" where
  "escrow_finish_step env auth mode score st tx =
     escrow_settle_step mode st (settle_tx_id env tx) tx (expect_auth auth ''DRC escrow auth checked above'')
       (\<lambda>ctx. apply_drc_escrow_finish env (ls_lane st) tx ctx score)"

definition escrow_cancel_step ::
    "crypto_env \<Rightarrow> tx_auth_context option \<Rightarrow> apply_mode \<Rightarrow> u64 \<Rightarrow> lane_state \<Rightarrow> drc_escrow_cancel_tx
     \<Rightarrow> lane_state res" where
  "escrow_cancel_step env auth mode score st tx =
     escrow_settle_step mode st (settle_tx_id env tx) tx (expect_auth auth ''DRC escrow auth checked above'')
       (\<lambda>ctx. apply_drc_escrow_cancel env (ls_lane st) tx ctx score)"

definition account_transfer_step ::
    "crypto_env \<Rightarrow> tx_auth_context option \<Rightarrow> apply_mode \<Rightarrow> lane_state \<Rightarrow> account_transfer \<Rightarrow> lane_state res" where
  "account_transfer_step env auth mode st tx =
     bind_result (transfer_id env tx) (\<lambda>i.
     let ticket_snap = (if at_asset tx = DRC
             then snapshot_meta_keys (ls_lane st) (drc_ticket_meta_keys (at_from tx)) else []) in
     lane_settle mode st i (i \<in> set (ls_seen st)) (at_asset tx) (at_fee tx)
       (apply_account_transfer_checked env (ls_lane st) tx auth)
       (if at_asset tx = DRC then add_tickets ticket_snap else (\<lambda>j. j)) no_check)"

definition stake_op_step ::
    "crypto_env \<Rightarrow> tx_auth_context option \<Rightarrow> apply_mode \<Rightarrow> lane_state \<Rightarrow> signed_stake_tx \<Rightarrow> lane_state res" where
  "stake_op_step env auth mode st tx =
     bind_result (stake_tx_id env tx) (\<lambda>i.
     bind_result (expect_auth auth ''stake auth checked above'') (\<lambda>ctx.
     bind_result (params_for_stake_asset (st_asset tx)) (\<lambda>params.
     bind_result (load_account (ls_lane st) (st_asset tx) (st_actor tx)) (\<lambda>actor_before.
     let snap = snapshot_meta_keys (ls_lane st) (stake_meta_keys_touched tx);
         ticket_snap = (if st_asset tx = DRC
             then snapshot_meta_keys (ls_lane st) (drc_ticket_meta_keys (st_actor tx)) else []) in
     case apply_signed_stake_tx env (ls_lane st) tx ctx params of
       Inr b \<Rightarrow>
         let journal = (ls_journal st)
               \<lparr>account_before := account_before (ls_journal st) @ [(st_asset tx, st_actor tx, actor_before)],
                stake_meta_before := stake_meta_before (ls_journal st) @ snap\<rparr> in
         Ok (lane_accept i b (if st_asset tx = DRC then add_tickets ticket_snap journal else journal) st)
     | Inl err \<Rightarrow> lane_conflict mode (i \<in> set (ls_seen st)) err st))))"

definition regular_key_step ::
    "crypto_env \<Rightarrow> tx_auth_context option \<Rightarrow> apply_mode \<Rightarrow> lane_state \<Rightarrow> drc_regular_key_tx \<Rightarrow> lane_state res" where
  "regular_key_step env auth mode st tx =
     bind_result (regular_key_tx_id env tx) (\<lambda>i.
     bind_result (expect_auth auth ''DRC regular-key auth checked above'') (\<lambda>ctx.
     let meta_before = snapshot_meta_keys (ls_lane st) (drc_regular_key_meta_keys tx);
         ticket_snap = snapshot_meta_keys (ls_lane st) (drc_ticket_meta_keys (rk_owner tx)) in
     lane_settle mode st i (i \<in> set (ls_seen st)) DRC (rk_fee tx)
       (outcome (apply_drc_regular_key env (ls_lane st) tx ctx))
       (\<lambda>j. add_tickets ticket_snap
          (j\<lparr>drc_regular_key_meta_before := drc_regular_key_meta_before j @ meta_before\<rparr>))
       (\<lambda>lane. assert_drc_recovery_invariant lane (rk_owner tx))))"

definition signer_list_step ::
    "crypto_env \<Rightarrow> tx_auth_context option \<Rightarrow> apply_mode \<Rightarrow> lane_state \<Rightarrow> drc_signer_list_tx \<Rightarrow> lane_state res" where
  "signer_list_step env auth mode st tx =
     bind_result (signer_list_tx_id env tx) (\<lambda>i.
     bind_result (expect_auth auth ''DRC signer-list auth checked above'') (\<lambda>ctx.
     let meta_before = snapshot_meta_keys (ls_lane st) (drc_signer_list_meta_keys tx);
         ticket_snap = snapshot_meta_keys (ls_lane st) (drc_ticket_meta_keys (slt_owner tx)) in
     lane_settle mode st i (i \<in> set (ls_seen st)) DRC (slt_fee tx)
       (outcome (apply_drc_signer_list env (ls_lane st) tx ctx))
       (\<lambda>j. add_tickets ticket_snap
          (j\<lparr>drc_signer_list_meta_before := drc_signer_list_meta_before j @ meta_before\<rparr>))
       (\<lambda>lane. assert_drc_recovery_invariant lane (slt_owner tx))))"

definition account_policy_step ::
    "crypto_env \<Rightarrow> tx_auth_context option \<Rightarrow> apply_mode \<Rightarrow> lane_state \<Rightarrow> drc_account_policy_tx \<Rightarrow> lane_state res" where
  "account_policy_step env auth mode st tx =
     bind_result (policy_tx_id env tx) (\<lambda>i.
     bind_result (expect_auth auth ''DRC account-policy auth checked above'') (\<lambda>ctx.
     let meta_before = snapshot_meta_keys (ls_lane st) (drc_account_policy_meta_keys tx);
         ticket_snap = snapshot_meta_keys (ls_lane st) (drc_ticket_meta_keys (pt_account tx)) in
     lane_settle mode st i (i \<in> set (ls_seen st)) DRC (pt_fee tx)
       (outcome (apply_drc_account_policy env (ls_lane st) tx ctx))
       (\<lambda>j. add_tickets ticket_snap
          (j\<lparr>drc_policy_meta_before := drc_policy_meta_before j @ meta_before\<rparr>))
       (\<lambda>lane. assert_drc_recovery_invariant lane (pt_account tx))))"

definition deposit_preauth_step ::
    "crypto_env \<Rightarrow> tx_auth_context option \<Rightarrow> apply_mode \<Rightarrow> lane_state \<Rightarrow> drc_deposit_preauth_tx \<Rightarrow> lane_state res" where
  "deposit_preauth_step env auth mode st tx =
     bind_result (preauth_tx_id env tx) (\<lambda>i.
     bind_result (expect_auth auth ''DRC deposit-preauthorization auth checked above'') (\<lambda>ctx.
     let meta_before = snapshot_meta_keys (ls_lane st) (drc_deposit_preauth_meta_keys tx);
         ticket_snap = snapshot_meta_keys (ls_lane st) (drc_ticket_meta_keys (dpt_owner tx)) in
     lane_settle mode st i (i \<in> set (ls_seen st)) DRC (dpt_fee tx)
       (outcome (apply_drc_deposit_preauth env (ls_lane st) tx ctx))
       (\<lambda>j. add_tickets ticket_snap
          (j\<lparr>drc_deposit_preauth_meta_before := drc_deposit_preauth_meta_before j @ meta_before\<rparr>))
       no_check))"

section \<open>A block\<close>

record lane_block =
  drc_ticket_creates :: "drc_ticket_create_tx list"
  drc_escrow_creates :: "drc_escrow_create_tx list"
  drc_escrow_finishes :: "drc_escrow_finish_tx list"
  drc_escrow_cancels :: "drc_escrow_cancel_tx list"
  account_transfers :: "account_transfer list"
  stake_ops :: "signed_stake_tx list"
  drc_regular_keys :: "drc_regular_key_tx list"
  drc_signer_lists :: "drc_signer_list_tx list"
  drc_account_policies :: "drc_account_policy_tx list"
  drc_deposit_preauths :: "drc_deposit_preauth_tx list"

definition has_signed_ops :: "lane_block \<Rightarrow> bool" where
  "has_signed_ops block \<longleftrightarrow>
     \<not> (drc_ticket_creates block = [] \<and> drc_escrow_creates block = [] \<and> drc_escrow_finishes block = []
        \<and> drc_escrow_cancels block = [] \<and> stake_ops block = [] \<and> drc_regular_keys block = []
        \<and> drc_signer_lists block = [] \<and> drc_account_policies block = [] \<and> drc_deposit_preauths block = [])"

definition lane_start :: "state_store \<Rightarrow> lane_state" where
  "lane_start s = \<lparr>ls_lane = s, ls_batch = [], ls_journal = empty_journal, ls_seen = [], ls_settled = [],
     ls_statuses = []\<rparr>"

text \<open>One lane: fresh ids and statuses, the operations in block order; the statuses are appended to those of the
  lanes before it.\<close>

definition run_lane ::
    "(lane_state \<Rightarrow> 'tx \<Rightarrow> lane_state res) \<Rightarrow> 'tx list \<Rightarrow> lane_state \<times> transaction_acceptance list list
     \<Rightarrow> (lane_state \<times> transaction_acceptance list list) res" where
  "run_lane step txs acc =
     (case acc of (st, statuses) \<Rightarrow>
        bind_result (fold_result step (st\<lparr>ls_seen := [], ls_statuses := []\<rparr>) txs) (\<lambda>st'.
        Ok (st', statuses @ [ls_statuses st'])))"

definition run_escrow_lanes ::
    "crypto_env \<Rightarrow> tx_auth_context option \<Rightarrow> apply_mode \<Rightarrow> u64 option \<Rightarrow> lane_block
     \<Rightarrow> lane_state \<times> transaction_acceptance list list \<Rightarrow> (lane_state \<times> transaction_acceptance list list) res" where
  "run_escrow_lanes env auth mode application_blue_score block acc =
     (if drc_escrow_creates block = [] \<and> drc_escrow_finishes block = [] \<and> drc_escrow_cancels block = []
      then Ok (fst acc, snd acc @ [[], [], []])
      else
      bind_result (ok_or application_blue_score
          (InvalidTx ''DRC escrow operations require a consensus application blue score'')) (\<lambda>score.
      bind_result (run_lane (escrow_create_step env auth mode score) (drc_escrow_creates block) acc) (\<lambda>acc.
      bind_result (run_lane (escrow_finish_step env auth mode score) (drc_escrow_finishes block) acc) (\<lambda>acc.
      run_lane (escrow_cancel_step env auth mode score) (drc_escrow_cancels block) acc))))"

definition apply_trident_lanes ::
    "crypto_env \<Rightarrow> state_store \<Rightarrow> lane_block \<Rightarrow> tx_auth_context option \<Rightarrow> u64 option \<Rightarrow> apply_mode
     \<Rightarrow> (lane_state \<times> transaction_acceptance list list) res" where
  "apply_trident_lanes env s block auth application_blue_score mode =
     (if has_signed_ops block \<and> auth = None
      then Err (InvalidTx ''stake/execution/payment/policy/preauthorization/regular-key/signer-list/escrow/check/payment-channel/trust-line/issued-control/offer ops require network-bound auth'')
      else
      bind_result (run_lane (ticket_create_step env auth mode) (drc_ticket_creates block) (lane_start s, []))
        (\<lambda>acc.
      bind_result (run_escrow_lanes env auth mode application_blue_score block acc) (\<lambda>acc.
      bind_result (run_lane (account_transfer_step env auth mode) (account_transfers block) acc) (\<lambda>acc.
      bind_result (run_lane (stake_op_step env auth mode) (stake_ops block) acc) (\<lambda>acc.
      bind_result (run_lane (regular_key_step env auth mode) (drc_regular_keys block) acc) (\<lambda>acc.
      bind_result (run_lane (signer_list_step env auth mode) (drc_signer_lists block) acc) (\<lambda>acc.
      bind_result (run_lane (account_policy_step env auth mode) (drc_account_policies block) acc) (\<lambda>acc.
      run_lane (deposit_preauth_step env auth mode) (drc_deposit_preauths block) acc))))))))"

end
