(* ===== verification/Ledger_Steps.thy ===== *)
theory Ledger_Steps
  imports Lanes
begin

text \<open>
  The ledger as a transition system, and what block application makes of it.

  \<open>ledger_op\<close> is one operation of a lane, \<open>run_op\<close> its effect, \<open>ledger_step\<close> the transition of an accepted
  operation with its fee, \<open>ledger_run\<close> a sequence of them. \<open>well_typed\<close> says that every record sits
  under a key that matches it and passes its validator. The invariants are proved for one step and
  carried along a run; the properties of this theory are about \<open>apply_trident_lanes\<close>, which is shown to
  perform exactly the run of the operations it reports as accepted.
\<close>

section \<open>Well-typed stores\<close>

fun typed_at :: "meta_key \<Rightarrow> meta_val \<Rightarrow> bool" where
  "typed_at (KAccount asset a) v \<longleftrightarrow> asset \<noteq> TLT \<and> (\<exists>st. v = VAccount st)"
| "typed_at (KTickets a) v \<longleftrightarrow> (\<exists>t. v = VTickets t \<and> validate_account_tickets t = Ok () \<and> dt_owner t = a)"
| "typed_at (KRegularKey a) v \<longleftrightarrow> (\<exists>r. v = VRegularKey r \<and> validate_regular_key r = Ok () \<and> ark_owner r = a)"
| "typed_at (KSignerList a) v \<longleftrightarrow> (\<exists>l. v = VSignerList l \<and> validate_account_signer_list l = Ok () \<and> asl_owner l = a)"
| "typed_at (KPolicy a) v \<longleftrightarrow> (\<exists>p. v = VPolicy p \<and> validate_account_policy p = Ok ())"
| "typed_at (KPreauth a src) v \<longleftrightarrow>
     (\<exists>d. v = VPreauth d \<and> validate_deposit_preauth d = Ok () \<and> dp_owner d = a \<and> dp_authorized_source d = src)"
| "typed_at (KValidator asset a) v \<longleftrightarrow> (\<exists>r. v = VValidator r \<and> vr_operator r = a)"
| "typed_at (KDelegation asset d a) v \<longleftrightarrow> (\<exists>r. v = VDelegation r \<and> dr_delegator r = d \<and> dr_validator r = a)"
| "typed_at (KUnbonding asset a) v \<longleftrightarrow> (\<exists>e. v = VUnbonding e \<and> ue_owner e = a)"
| "typed_at (KEscrowLive i) v \<longleftrightarrow> (\<exists>l. v = VEscrowLive l \<and> validate_escrow_live l = Ok () \<and> el_escrow_id l = i)"
| "typed_at (KEscrowOwner a) v \<longleftrightarrow> (\<exists>x. v = VEscrowOwner x \<and> oi_version x = 1 \<and> oi_owner x = a)"
| "typed_at (KEscrowSettled i) v \<longleftrightarrow> (\<exists>h. v = VHash h)"
| "typed_at (KEscrowReceipt i) v \<longleftrightarrow> (\<exists>r. v = VEscrowReceipt r \<and> validate_escrow_receipt r = Ok () \<and> er_escrow_id r = i)"
| "typed_at (KBurned asset) v \<longleftrightarrow> (\<exists>n. v = VU64 n)"
| "typed_at (KRewardPool asset) v \<longleftrightarrow> (\<exists>n. v = VU64 n)"
| "typed_at _ v \<longleftrightarrow> True"

definition well_typed :: "state_store \<Rightarrow> bool" where
  "well_typed s \<longleftrightarrow> (\<forall>k v. get_cf s k = Some v \<longrightarrow> typed_at k v)"

definition typed_batch :: "write_batch \<Rightarrow> bool" where
  "typed_batch b \<longleftrightarrow> (\<forall>k v. Put k v \<in> set b \<longrightarrow> typed_at k v)"

lemma typed_batch_simps [simp]:
  "typed_batch []"
  "typed_batch (b @ b') \<longleftrightarrow> typed_batch b \<and> typed_batch b'"
  "typed_batch (Put k v # b) \<longleftrightarrow> typed_at k v \<and> typed_batch b"
  "typed_batch (Delete k # b) \<longleftrightarrow> typed_batch b"
  by (auto simp: typed_batch_def)

lemma well_typed_apply:
  "well_typed s \<Longrightarrow> typed_batch b \<Longrightarrow> well_typed (apply_batch b s)"
proof (induction b arbitrary: s)
  case (Cons w b)
  then have "well_typed (apply_op w s)"
    by (cases w) (auto simp: well_typed_def split: if_splits)
  with Cons show ?case by (cases w) auto
qed simp

lemma typed_put_tickets: "put_tickets_into owner seqs = Ok b \<Longrightarrow> typed_batch b"
  by (auto simp: put_tickets_into_def Let_def split: if_splits)

lemma typed_finish_sequence: "finish_sequence owner st ctx msg = Ok (b, st') \<Longrightarrow> typed_batch b"
  by (auto simp: finish_sequence_def finish_drc_account_sequence_def commit_drc_sequence_consumption_def
      dest: typed_put_tickets split: option.splits drc_sequence_consumption.splits)

lemma typed_charge_owner: "charge_owner owner st fee ctx msg = Ok (b, j) \<Longrightarrow> typed_batch b"
  by (auto simp: charge_owner_def dest: typed_finish_sequence)

lemma typed_owner_index: "put_owner_index owner ids = Ok b \<Longrightarrow> typed_batch b"
  by (auto simp: put_owner_index_def split: if_splits)

lemma typed_ticket_create: "apply_drc_ticket_create env s tx auth = Ok (b, j, t) \<Longrightarrow> typed_batch b"
  by (auto simp: apply_drc_ticket_create_def dest!: typed_put_tickets split: if_splits)

lemma typed_transfer: "apply_account_transfer_checked env s tx auth = Ok (b, j) \<Longrightarrow> typed_batch b"
  by (auto simp: apply_account_transfer_checked_def dest!: typed_finish_sequence split: if_splits)

lemma typed_policy: "apply_drc_account_policy env s tx auth = Ok (b, j, p) \<Longrightarrow> typed_batch b"
  by (auto simp: apply_drc_account_policy_def Let_def policy_writes_def dest!: typed_charge_owner split: if_splits)

lemma typed_preauth: "apply_drc_deposit_preauth env s tx auth = Ok (b, j, r) \<Longrightarrow> typed_batch b"
  by (cases "dpt_action tx")
     (auto simp: apply_drc_deposit_preauth_def validate_preauth_structure_def new_deposit_preauth_def
      validate_deposit_preauth_def dest!: typed_charge_owner split: if_splits)

lemma typed_signer_list: "apply_drc_signer_list env s tx auth = Ok (b, j, r) \<Longrightarrow> typed_batch b"
  by (cases "slt_action tx")
     (auto simp: apply_drc_signer_list_def new_signer_list_def dest!: typed_charge_owner split: if_splits)

lemma typed_regular_key: "apply_drc_regular_key env s tx auth = Ok (b, j, r) \<Longrightarrow> typed_batch b"
  by (cases "rk_action tx")
     (auto simp: apply_drc_regular_key_def verify_drc_regular_key_operation_def new_regular_key_def
      validate_regular_key_def validate_regular_key_structure_def dest!: typed_charge_owner split: if_splits)

lemma typed_escrow_create: "apply_drc_escrow_create env s tx auth score = Ok (b, j, i) \<Longrightarrow> typed_batch b"
  by (auto simp: apply_drc_escrow_create_def Let_def new_escrow_live_def
      dest!: typed_charge_owner typed_owner_index split: if_splits)

lemma typed_settle: "settle_escrow s live out score txid = Ok b \<Longrightarrow> typed_batch b"
  by (auto simp: settle_escrow_def Let_def escrow_receipt_def dest!: typed_owner_index)

lemma typed_escrow_finish: "apply_drc_escrow_finish env s tx auth score = Ok (b, j, r) \<Longrightarrow> typed_batch b"
  by (auto simp: apply_drc_escrow_finish_def Let_def dest!: typed_charge_owner typed_settle split: if_splits)

lemma typed_escrow_cancel: "apply_drc_escrow_cancel env s tx auth score = Ok (b, j, r) \<Longrightarrow> typed_batch b"
  by (auto simp: apply_drc_escrow_cancel_def Let_def dest!: typed_charge_owner typed_settle split: if_splits)

lemma typed_stake_effect: "stake_effect s tx p st = Ok (b, st') \<Longrightarrow> sp_asset p \<noteq> TLT \<Longrightarrow> typed_batch b"
  by (cases "st_kind tx")
     (auto simp: stake_effect_def bond_validator_def delegate_def begin_unbond_self_def withdraw_unbonded_def
      debit_liquid_def credit_liquid_def put_validator_into_def put_delegation_into_def Let_def
      split: if_splits option.splits)

lemma typed_stake: "apply_signed_stake_tx env s tx auth p = Ok b \<Longrightarrow> typed_batch b"
  by (auto simp: apply_signed_stake_tx_def validate_asset_def dest!: typed_stake_effect typed_finish_sequence
      split: if_splits)

lemmas typed_ops = typed_ticket_create typed_transfer typed_policy typed_preauth typed_signer_list typed_regular_key
  typed_escrow_create typed_escrow_finish typed_escrow_cancel typed_stake

section \<open>Operations and transitions\<close>

datatype ledger_op =
    OpTicketCreate drc_ticket_create_tx
  | OpEscrowCreate drc_escrow_create_tx
  | OpEscrowFinish drc_escrow_finish_tx
  | OpEscrowCancel drc_escrow_cancel_tx
  | OpTransfer account_transfer
  | OpStake signed_stake_tx
  | OpRegularKey drc_regular_key_tx
  | OpSignerList drc_signer_list_tx
  | OpPolicy drc_account_policy_tx
  | OpPreauth drc_deposit_preauth_tx

definition run_stake ::
    "crypto_env \<Rightarrow> state_store \<Rightarrow> signed_stake_tx \<Rightarrow> tx_auth_context \<Rightarrow> (write_batch \<times> account_journal) res" where
  "run_stake env s tx ctx =
     bind_result (params_for_stake_asset (st_asset tx)) (\<lambda>params.
     bind_result (apply_signed_stake_tx env s tx ctx params) (\<lambda>b.
     Ok (b, [(st_asset tx, st_actor tx, acct s (st_asset tx) (st_actor tx))])))"

fun run_signed :: "crypto_env \<Rightarrow> tx_auth_context \<Rightarrow> u64 \<Rightarrow> state_store \<Rightarrow> ledger_op \<Rightarrow> (write_batch \<times> account_journal) res" where
  "run_signed env ctx score s (OpTicketCreate tx) = outcome (apply_drc_ticket_create env s tx ctx)"
| "run_signed env ctx score s (OpEscrowCreate tx) = outcome (apply_drc_escrow_create env s tx ctx score)"
| "run_signed env ctx score s (OpEscrowFinish tx) = outcome (apply_drc_escrow_finish env s tx ctx score)"
| "run_signed env ctx score s (OpEscrowCancel tx) = outcome (apply_drc_escrow_cancel env s tx ctx score)"
| "run_signed env ctx score s (OpTransfer tx) = apply_account_transfer_checked env s tx (Some ctx)"
| "run_signed env ctx score s (OpStake tx) = run_stake env s tx ctx"
| "run_signed env ctx score s (OpRegularKey tx) = outcome (apply_drc_regular_key env s tx ctx)"
| "run_signed env ctx score s (OpSignerList tx) = outcome (apply_drc_signer_list env s tx ctx)"
| "run_signed env ctx score s (OpPolicy tx) = outcome (apply_drc_account_policy env s tx ctx)"
| "run_signed env ctx score s (OpPreauth tx) = outcome (apply_drc_deposit_preauth env s tx ctx)"

fun op_fee :: "ledger_op \<Rightarrow> native_asset_id \<times> amount" where
  "op_fee (OpTicketCreate tx) = (DRC, tc_fee tx)"
| "op_fee (OpEscrowCreate tx) = (DRC, ec_fee tx)"
| "op_fee (OpEscrowFinish tx) = (DRC, es_fee tx)"
| "op_fee (OpEscrowCancel tx) = (DRC, es_fee tx)"
| "op_fee (OpTransfer tx) = (at_asset tx, at_fee tx)"
| "op_fee (OpStake tx) = (OVL, 0)"
| "op_fee (OpRegularKey tx) = (DRC, rk_fee tx)"
| "op_fee (OpSignerList tx) = (DRC, slt_fee tx)"
| "op_fee (OpPolicy tx) = (DRC, pt_fee tx)"
| "op_fee (OpPreauth tx) = (DRC, dpt_fee tx)"

fun fee_batch :: "state_store \<Rightarrow> native_asset_id \<times> amount \<Rightarrow> write_batch res" where
  "fee_batch s (asset, fee) =
     bind_result (apply_accepted_account_fee s empty_journal asset fee) (\<lambda>(b, _). Ok b)"

text \<open>
  One accepted operation. The network-bound authorisation is that of the block; without one only
  account transfers can run, and those unsigned.
\<close>

definition runs ::
    "crypto_env \<Rightarrow> tx_auth_context option \<Rightarrow> u64 \<Rightarrow> state_store \<Rightarrow> ledger_op \<Rightarrow> write_batch \<Rightarrow> account_journal \<Rightarrow> bool" where
  "runs env auth score s op b j \<longleftrightarrow>
     (case auth of
        Some ctx \<Rightarrow> run_signed env ctx score s op = Ok (b, j)
      | None \<Rightarrow> (\<exists>tx. op = OpTransfer tx \<and> apply_account_transfer_checked env s tx None = Ok (b, j)))"

inductive ledger_step ::
    "crypto_env \<Rightarrow> tx_auth_context option \<Rightarrow> u64 \<Rightarrow> state_store \<Rightarrow> ledger_op \<Rightarrow> state_store \<Rightarrow> bool"
  for env auth score where
  step: "runs env auth score s op b j \<Longrightarrow> fee_batch s (op_fee op) = Ok fb \<Longrightarrow>
     ledger_step env auth score s op (apply_batch (b @ fb) s)"

inductive ledger_run ::
    "crypto_env \<Rightarrow> tx_auth_context option \<Rightarrow> u64 \<Rightarrow> state_store \<Rightarrow> ledger_op list \<Rightarrow> state_store \<Rightarrow> bool"
  for env auth score where
  nil: "ledger_run env auth score s [] s"
| cons: "ledger_step env auth score s op s1 \<Longrightarrow> ledger_run env auth score s1 ops s2 \<Longrightarrow>
     ledger_run env auth score s (op # ops) s2"

inductive_cases ledger_stepE: "ledger_step env auth score s op s'"
inductive_simps ledger_run_Nil [simp]: "ledger_run env auth score s [] s'"
inductive_simps ledger_run_Cons: "ledger_run env auth score s (op # ops) s'"

lemma ledger_run_append:
  "ledger_run env auth score s ops s1 \<Longrightarrow> ledger_run env auth score s1 ops' s2 \<Longrightarrow>
     ledger_run env auth score s (ops @ ops') s2"
  by (induction rule: ledger_run.induct) (auto intro: ledger_run.cons)

lemma ledger_run_invariant:
  assumes "ledger_run env auth score s ops s'" and "P s"
    and "\<And>s op s'. op \<in> set ops \<Longrightarrow> ledger_step env auth score s op s' \<Longrightarrow> P s \<Longrightarrow> P s'"
  shows "P s'"
  using assms by (induction rule: ledger_run.induct) auto

lemma outcome_Ok [simp]: "outcome r = Ok (b, j) \<longleftrightarrow> (\<exists>x. r = Ok (b, j, x))"
  by (cases r) (auto simp: outcome_def)

lemma runs_typed: "runs env auth score s op b j \<Longrightarrow> typed_batch b"
  by (cases op) (auto simp: runs_def run_stake_def dest: typed_ops split: option.splits)

lemma fee_batch_Ok:
  assumes "fee_batch s (asset, fee) = Ok fb"
  shows "(asset = DRC \<and> burn_drc_fee_into s fee = Ok fb)
    \<or> (asset \<noteq> DRC \<and> fee = 0 \<and> fb = [])
    \<or> (asset = OVL \<and> fee \<noteq> 0 \<and> (\<exists>v. credit_fee_share_to_reward_pool s OVL fee = Ok (fb, v)))"
  using assms
  by (cases asset) (auto simp: apply_accepted_account_fee_def Let_def split: if_splits)

declare fee_batch.simps [simp del]

lemma fee_batch_typed: "fee_batch s f = Ok fb \<Longrightarrow> typed_batch fb"
  by (cases f) (auto dest!: fee_batch_Ok simp: burn_drc_fee_into_def put_burned_supply_into_def Let_def
      credit_fee_share_to_reward_pool_def credit_reward_pool_into_def put_reward_pool_into_def split: if_splits)

lemma fee_batch_keys:
  "fee_batch s (asset, fee) = Ok fb \<Longrightarrow> op_key ` set fb \<subseteq> (if asset = DRC then {KBurned DRC} else {KRewardPool OVL})"
  by (auto dest!: fee_batch_Ok simp: burn_drc_fee_into_def put_burned_supply_into_def Let_def
      credit_fee_share_to_reward_pool_def credit_reward_pool_into_def put_reward_pool_into_def split: if_splits)

lemma step_well_typed: "ledger_step env auth score s op s' \<Longrightarrow> well_typed s \<Longrightarrow> well_typed s'"
  by (auto elim!: ledger_stepE intro!: well_typed_apply dest: runs_typed fee_batch_typed)

section \<open>What the lanes record\<close>

datatype meta_family = FStake | FPolicy | FPreauth | FRegularKey | FSignerList | FTicket | FEscrow

fun family_of :: "meta_key \<Rightarrow> meta_family option" where
  "family_of (KValidator _ _) = Some FStake"
| "family_of (KDelegation _ _ _) = Some FStake"
| "family_of (KUnbonding _ _) = Some FStake"
| "family_of (KRewardPool _) = Some FStake"
| "family_of (KBurned _) = Some FStake"
| "family_of (KPolicy _) = Some FPolicy"
| "family_of (KPreauth _ _) = Some FPreauth"
| "family_of (KRegularKey _) = Some FRegularKey"
| "family_of (KSignerList _) = Some FSignerList"
| "family_of (KTickets _) = Some FTicket"
| "family_of (KEscrowLive _) = Some FEscrow"
| "family_of (KEscrowOwner _) = Some FEscrow"
| "family_of (KEscrowSettled _) = Some FEscrow"
| "family_of (KEscrowReceipt _) = Some FEscrow"
| "family_of _ = None"

fun before_of :: "meta_family \<Rightarrow> utxo_journal \<Rightarrow> meta_value_snapshot" where
  "before_of FStake = stake_meta_before"
| "before_of FPolicy = drc_policy_meta_before"
| "before_of FPreauth = drc_deposit_preauth_meta_before"
| "before_of FRegularKey = drc_regular_key_meta_before"
| "before_of FSignerList = drc_signer_list_meta_before"
| "before_of FTicket = drc_ticket_meta_before"
| "before_of FEscrow = drc_escrow_meta_before"

definition family_keys :: "meta_family \<Rightarrow> meta_key list \<Rightarrow> meta_key list" where
  "family_keys f ks = filter (\<lambda>k. family_of k = Some f) ks"

fun fee_keys :: "native_asset_id \<times> amount \<Rightarrow> meta_key list" where
  "fee_keys (asset, fee) =
     (if fee = 0 then [] else case asset of DRC \<Rightarrow> [KBurned DRC] | OVL \<Rightarrow> [KRewardPool OVL] | TLT \<Rightarrow> [])"

definition settle_keys :: "state_store \<Rightarrow> drc_escrow_settle_tx \<Rightarrow> meta_key list" where
  "settle_keys s tx =
     (case load_drc_escrow_live s (es_escrow_id tx) of
        Inr (Some live) \<Rightarrow> escrow_meta_keys_for_settlement (el_escrow_id live) (el_owner live)
      | _ \<Rightarrow> []) @ [KTickets (es_submitter tx)]"

fun op_meta :: "crypto_env \<Rightarrow> state_store \<Rightarrow> ledger_op \<Rightarrow> meta_key list" where
  "op_meta env s (OpTicketCreate tx) = [KTickets (tc_owner tx)]"
| "op_meta env s (OpEscrowCreate tx) = escrow_meta_keys_for_create env tx @ [KTickets (ec_owner tx)]"
| "op_meta env s (OpEscrowFinish tx) = settle_keys s tx"
| "op_meta env s (OpEscrowCancel tx) = settle_keys s tx"
| "op_meta env s (OpTransfer tx) = (if at_asset tx = DRC then [KTickets (at_from tx)] else [])"
| "op_meta env s (OpStake tx) =
     stake_meta_keys_touched tx @ (if st_asset tx = DRC then [KTickets (st_actor tx)] else [])"
| "op_meta env s (OpRegularKey tx) = [KRegularKey (rk_owner tx), KTickets (rk_owner tx)]"
| "op_meta env s (OpSignerList tx) = [KSignerList (slt_owner tx), KTickets (slt_owner tx)]"
| "op_meta env s (OpPolicy tx) = [KPolicy (pt_account tx), KTickets (pt_account tx)]"
| "op_meta env s (OpPreauth tx) = [KPreauth (dpt_owner tx) (dpt_source tx), KTickets (dpt_owner tx)]"

definition journals ::
    "crypto_env \<Rightarrow> state_store \<Rightarrow> ledger_op \<Rightarrow> account_journal \<Rightarrow> utxo_journal \<Rightarrow> utxo_journal \<Rightarrow> bool" where
  "journals env s op j jr jr' \<longleftrightarrow>
     account_before jr' = account_before jr @ j
     \<and> (\<forall>f. before_of f jr' = before_of f jr
              @ snapshot_meta_keys s (family_keys f (fee_keys (op_fee op) @ op_meta env s op)))"

definition lane_refines ::
    "crypto_env \<Rightarrow> tx_auth_context option \<Rightarrow> u64 \<Rightarrow> ledger_op \<Rightarrow> lane_state \<Rightarrow> lane_state \<Rightarrow> bool" where
  "lane_refines env auth score op st st' \<longleftrightarrow>
     (\<exists>v. v \<noteq> Accepted \<and> st' = push_status v st)
     \<or> (\<exists>b j fb. runs env auth score (ls_lane st) op b j \<and> fee_batch (ls_lane st) (op_fee op) = Ok fb
          \<and> ls_lane st' = apply_batch (b @ fb) (ls_lane st) \<and> ls_batch st' = ls_batch st @ b @ fb
          \<and> ls_statuses st' = ls_statuses st @ [Accepted]
          \<and> journals env (ls_lane st) op j (ls_journal st) (ls_journal st'))"

lemma snapshot_append [simp]:
  "snapshot_meta_keys s (ks @ ks') = snapshot_meta_keys s ks @ snapshot_meta_keys s ks'"
  "snapshot_meta_keys s [] = []"
  by (simp_all add: snapshot_meta_keys_def)

lemma family_keys_simps [simp]:
  "family_keys f [] = []"
  "family_keys f (k # ks) = (if family_of k = Some f then k # family_keys f ks else family_keys f ks)"
  "family_keys f (ks @ ks') = family_keys f ks @ family_keys f ks'"
  by (simp_all add: family_keys_def)

lemma snapshot_Cons [simp]: "snapshot_meta_keys s (k # ks) = (k, get_cf s k) # snapshot_meta_keys s ks"
  by (simp add: snapshot_meta_keys_def)

lemma accepted_fee_Ok:
  assumes "apply_accepted_account_fee s jr asset fee = Ok (fb, jr')"
  shows "fee_batch s (asset, fee) = Ok fb
    \<and> jr' = jr\<lparr>stake_meta_before := stake_meta_before jr @ snapshot_meta_keys s (fee_keys (asset, fee))\<rparr>"
  using assms
  by (cases asset) (auto simp: apply_accepted_account_fee_def fee_batch.simps Let_def split: if_splits)

lemma lane_conflict_Ok:
  "lane_conflict mode known err st = Ok st' \<Longrightarrow> \<exists>v. v \<noteq> Accepted \<and> st' = push_status v st"
  by (auto simp: lane_conflict_def split: if_splits)

lemma lane_settle_refines:
  assumes "lane_settle mode st i known asset fee run note_meta check = Ok st'"
    and "\<And>b j. run = Ok (b, j) \<Longrightarrow> runs env auth score (ls_lane st) op b j"
    and "op_fee op = (asset, fee)"
    and "\<And>jr. account_before (note_meta jr) = account_before jr"
    and "\<And>jr f. before_of f (note_meta jr) =
           before_of f jr @ snapshot_meta_keys (ls_lane st) (family_keys f (op_meta env (ls_lane st) op))"
  shows "lane_refines env auth score op st st'"
proof (cases run)
  case (Inl err)
  with assms(1) show ?thesis by (auto simp: lane_settle_def lane_refines_def dest: lane_conflict_Ok)
next
  case (Inr r)
  obtain b j where r: "r = (b, j)" by (cases r)
  with Inr assms(1) obtain fb jr where
    fee: "apply_accepted_account_fee (ls_lane st) (ls_journal st) asset fee = Ok (fb, jr)"
    and st': "st' = lane_accept i (b @ fb) (note_meta (jr\<lparr>account_before := account_before jr @ j\<rparr>)) st"
    by (auto simp: lane_settle_def)
  note F = accepted_fee_Ok [OF fee]
  have "before_of f (jr\<lparr>account_before := account_before jr @ j\<rparr>) = before_of f (ls_journal st)
      @ snapshot_meta_keys (ls_lane st) (family_keys f (fee_keys (asset, fee)))" for f
    using F by (cases f; cases asset) auto
  then have "journals env (ls_lane st) op j (ls_journal st) (ls_journal st')"
    using F assms(3-5) by (auto simp: journals_def st' lane_accept_def push_status_def)
  moreover have "ls_lane st' = apply_batch (b @ fb) (ls_lane st)" "ls_batch st' = ls_batch st @ b @ fb"
    "ls_statuses st' = ls_statuses st @ [Accepted]"
    by (simp_all add: st' lane_accept_def push_status_def)
  ultimately show ?thesis
    using assms(2) [OF Inr [unfolded r]] F assms(3) unfolding lane_refines_def by (intro disjI2) metis
qed

lemma add_tickets_before [simp]:
  "account_before (add_tickets snap j) = account_before j"
  "before_of f (add_tickets snap j) = before_of f j @ (if f = FTicket then snap else [])"
  by (cases f; simp add: add_tickets_def)+

lemma note_escrow_before [simp]:
  "account_before (note_escrow m snap j) = account_before j"
  "before_of f (note_escrow m snap j)
     = before_of f j @ (if f = FTicket then snap else if f = FEscrow then m else [])"
  by (simp add: note_escrow_def) (cases f; simp add: note_escrow_def add_tickets_def)

lemma before_of_update [simp]:
  "f \<noteq> FPolicy \<Longrightarrow> before_of f (j\<lparr>drc_policy_meta_before := m\<rparr>) = before_of f j"
  "f \<noteq> FPreauth \<Longrightarrow> before_of f (j\<lparr>drc_deposit_preauth_meta_before := m\<rparr>) = before_of f j"
  "f \<noteq> FRegularKey \<Longrightarrow> before_of f (j\<lparr>drc_regular_key_meta_before := m\<rparr>) = before_of f j"
  "f \<noteq> FSignerList \<Longrightarrow> before_of f (j\<lparr>drc_signer_list_meta_before := m\<rparr>) = before_of f j"
  by (cases f; simp)+

lemma expect_auth_Ok [simp]: "expect_auth auth what = Ok ctx \<longleftrightarrow> auth = Some ctx"
  by (simp add: expect_auth_def)

lemma family_keys_escrow [simp]:
  "family_keys f (escrow_meta_keys_for_create env tx) = (if f = FEscrow then escrow_meta_keys_for_create env tx else [])"
  "family_keys f (escrow_meta_keys_for_settlement i a) = (if f = FEscrow then escrow_meta_keys_for_settlement i a else [])"
  by (auto simp: escrow_meta_keys_for_create_def escrow_meta_keys_for_settlement_def)

lemma family_keys_stake [simp]:
  "family_keys f (stake_meta_keys_touched tx) = (if f = FStake then stake_meta_keys_touched tx else [])"
  by (auto simp: stake_meta_keys_touched_def)

lemma ticket_create_refines:
  "ticket_create_step env auth mode st tx = Ok st' \<Longrightarrow> lane_refines env auth score (OpTicketCreate tx) st st'"
  by (auto simp: ticket_create_step_def Let_def runs_def drc_ticket_meta_keys_def
      elim!: lane_settle_refines)

lemma escrow_create_refines:
  "escrow_create_step env auth mode score st tx = Ok st' \<Longrightarrow> lane_refines env auth score (OpEscrowCreate tx) st st'"
  by (auto simp: escrow_create_step_def Let_def runs_def drc_ticket_meta_keys_def
      elim!: lane_settle_refines)

lemma lane_refines_settled:
  "lane_refines env auth score op st st' \<Longrightarrow> (\<And>v. st' \<noteq> push_status v st \<or> v = Accepted) \<Longrightarrow>
     lane_refines env auth score op st (st'\<lparr>ls_settled := x\<rparr>)"
  unfolding lane_refines_def by auto

lemma escrow_settle_refines:
  assumes "escrow_settle_step mode st i tx (expect_auth auth what) run = Ok st'"
    and "\<And>ctx. auth = Some ctx \<Longrightarrow> run_signed env ctx score (ls_lane st) op = outcome (run ctx)"
    and "op_fee op = (DRC, es_fee tx)" and "op_meta env (ls_lane st) op = settle_keys (ls_lane st) tx"
  shows "lane_refines env auth score op st st'"
proof (cases "es_escrow_id tx \<in> set (ls_settled st)")
  case True
  with assms(1) show ?thesis by (auto simp: escrow_settle_step_def lane_refines_def)
next
  case False
  with assms(1) obtain ctx found st1 where auth: "auth = Some ctx"
    and found: "load_drc_escrow_live (ls_lane st) (es_escrow_id tx) = Ok found"
    and settle: "lane_settle mode st i (i \<in> set (ls_seen st) \<or> es_escrow_id tx \<in> set (ls_settled st)) DRC (es_fee tx)
          (outcome (run ctx)) (note_escrow (case found of
              Some live \<Rightarrow> snapshot_meta_keys (ls_lane st)
                            (escrow_meta_keys_for_settlement (el_escrow_id live) (el_owner live))
            | None \<Rightarrow> []) (snapshot_meta_keys (ls_lane st) (drc_ticket_meta_keys (es_submitter tx)))) no_check = Ok st1"
    and st': "st' = (case outcome (run ctx) of
            Inr _ \<Rightarrow> st1\<lparr>ls_settled := es_escrow_id tx # ls_settled st1\<rparr> | Inl _ \<Rightarrow> st1)"
    by (auto simp: escrow_settle_step_def Let_def)
  have ref: "lane_refines env auth score op st st1"
    using settle
    by (rule lane_settle_refines)
       (use assms(2-4) auth found in \<open>auto simp: runs_def settle_keys_def drc_ticket_meta_keys_def split: option.splits\<close>)
  show ?thesis
  proof (cases "outcome (run ctx)")
    case (Inl e)
    with ref st' show ?thesis by simp
  next
    case (Inr r)
    then have "ls_statuses st1 = ls_statuses st @ [Accepted]"
      using settle by (cases r) (auto simp: lane_settle_def lane_accept_def push_status_def simp del: outcome_Ok)
    then have "st1 \<noteq> push_status v st \<or> v = Accepted" for v by (auto simp: push_status_def)
    with ref Inr st' show ?thesis by (simp add: lane_refines_settled)
  qed
qed

lemma escrow_finish_refines:
  "escrow_finish_step env auth mode score st tx = Ok st' \<Longrightarrow> lane_refines env auth score (OpEscrowFinish tx) st st'"
  unfolding escrow_finish_step_def by (erule escrow_settle_refines) auto

lemma escrow_cancel_refines:
  "escrow_cancel_step env auth mode score st tx = Ok st' \<Longrightarrow> lane_refines env auth score (OpEscrowCancel tx) st st'"
  unfolding escrow_cancel_step_def by (erule escrow_settle_refines) auto

lemma transfer_refines:
  "account_transfer_step env auth mode st tx = Ok st' \<Longrightarrow> lane_refines env auth score (OpTransfer tx) st st'"
  by (auto simp: account_transfer_step_def Let_def runs_def drc_ticket_meta_keys_def
      elim!: lane_settle_refines split: option.splits)

lemma regular_key_refines:
  "regular_key_step env auth mode st tx = Ok st' \<Longrightarrow> lane_refines env auth score (OpRegularKey tx) st st'"
  by (auto simp: regular_key_step_def Let_def runs_def drc_ticket_meta_keys_def drc_regular_key_meta_keys_def
      elim!: lane_settle_refines)

lemma signer_list_refines:
  "signer_list_step env auth mode st tx = Ok st' \<Longrightarrow> lane_refines env auth score (OpSignerList tx) st st'"
  by (auto simp: signer_list_step_def Let_def runs_def drc_ticket_meta_keys_def drc_signer_list_meta_keys_def
      elim!: lane_settle_refines)

lemma account_policy_refines:
  "account_policy_step env auth mode st tx = Ok st' \<Longrightarrow> lane_refines env auth score (OpPolicy tx) st st'"
  by (auto simp: account_policy_step_def Let_def runs_def drc_ticket_meta_keys_def drc_account_policy_meta_keys_def
      elim!: lane_settle_refines)

lemma deposit_preauth_refines:
  "deposit_preauth_step env auth mode st tx = Ok st' \<Longrightarrow> lane_refines env auth score (OpPreauth tx) st st'"
  by (auto simp: deposit_preauth_step_def Let_def runs_def drc_ticket_meta_keys_def drc_deposit_preauth_meta_keys_def
      elim!: lane_settle_refines)

lemma stake_op_refines:
  assumes "stake_op_step env auth mode st tx = Ok st'"
  shows "lane_refines env auth score (OpStake tx) st st'"
proof -
  let ?s = "ls_lane st"
  from assms obtain ctx params before where auth: "auth = Some ctx"
    and params: "params_for_stake_asset (st_asset tx) = Ok params"
    and before: "load_account ?s (st_asset tx) (st_actor tx) = Ok before"
    by (auto simp: stake_op_step_def)
  show ?thesis
  proof (cases "apply_signed_stake_tx env ?s tx ctx params")
    case (Inl err)
    with assms auth params before show ?thesis
      by (auto simp: stake_op_step_def Let_def lane_refines_def dest: lane_conflict_Ok)
  next
    case (Inr b)
    define jr where "jr = (ls_journal st)
               \<lparr>account_before := account_before (ls_journal st) @ [(st_asset tx, st_actor tx, before)],
                stake_meta_before := stake_meta_before (ls_journal st)
                  @ snapshot_meta_keys ?s (stake_meta_keys_touched tx)\<rparr>"
    define jr' where "jr' = (if st_asset tx = DRC
               then add_tickets (snapshot_meta_keys ?s (drc_ticket_meta_keys (st_actor tx))) jr else jr)"
    obtain i where st': "st' = lane_accept i b jr' st"
      using assms auth params before Inr
      by (cases "st_asset tx = DRC") (auto simp: stake_op_step_def Let_def jr'_def jr_def)
    have jr: "before_of f jr = before_of f (ls_journal st)
        @ snapshot_meta_keys ?s (family_keys f (stake_meta_keys_touched tx))" for f
      by (cases f) (simp_all add: jr_def)
    have "journals env ?s (OpStake tx) [(st_asset tx, st_actor tx, before)] (ls_journal st) jr'"
      using jr by (auto simp: journals_def jr'_def drc_ticket_meta_keys_def) (simp_all add: jr_def)
    moreover have "runs env auth score ?s (OpStake tx) b [(st_asset tx, st_actor tx, before)]"
      using auth params Inr load_account_Ok [OF before] by (simp add: runs_def run_stake_def)
    moreover have "fee_batch ?s (op_fee (OpStake tx)) = Ok []"
      by (simp add: fee_batch.simps apply_accepted_account_fee_def)
    ultimately show ?thesis
      unfolding lane_refines_def st' by (intro disjI2) (force simp: lane_accept_def push_status_def)
  qed
qed

lemmas steps_refine = ticket_create_refines escrow_create_refines escrow_finish_refines escrow_cancel_refines
  transfer_refines stake_op_refines regular_key_refines signer_list_refines account_policy_refines
  deposit_preauth_refines

section \<open>Block application is a ledger run\<close>

definition accepted_ops :: "ledger_op list \<Rightarrow> transaction_acceptance list \<Rightarrow> ledger_op list" where
  "accepted_ops ops statuses = map fst (filter (\<lambda>(op, v). v = Accepted) (zip ops statuses))"

lemma accepted_ops_simps [simp]:
  "accepted_ops [] vs = []"
  "accepted_ops (op # ops) (v # vs) = (if v = Accepted then op # accepted_ops ops vs else accepted_ops ops vs)"
  by (simp_all add: accepted_ops_def)

lemma accepted_ops_append [simp]:
  "length ops = length vs \<Longrightarrow> accepted_ops (ops @ ops') (vs @ vs') = accepted_ops ops vs @ accepted_ops ops' vs'"
  by (simp add: accepted_ops_def)

definition block_ops :: "lane_block \<Rightarrow> ledger_op list" where
  "block_ops block =
     map OpTicketCreate (drc_ticket_creates block) @ map OpEscrowCreate (drc_escrow_creates block)
     @ map OpEscrowFinish (drc_escrow_finishes block) @ map OpEscrowCancel (drc_escrow_cancels block)
     @ map OpTransfer (account_transfers block) @ map OpStake (stake_ops block)
     @ map OpRegularKey (drc_regular_keys block) @ map OpSignerList (drc_signer_lists block)
     @ map OpPolicy (drc_account_policies block) @ map OpPreauth (drc_deposit_preauths block)"

text \<open>
  A relation between the lane states before and after a list of operations: the overlay makes the run
  of the accepted ones, their batches are appended, and \<open>P\<close>, any invariant of single refinements, is kept.
\<close>

definition lanes_run ::
    "crypto_env \<Rightarrow> tx_auth_context option \<Rightarrow> u64 \<Rightarrow> (lane_state \<Rightarrow> bool) \<Rightarrow> lane_state \<Rightarrow> ledger_op list
     \<Rightarrow> transaction_acceptance list \<Rightarrow> lane_state \<Rightarrow> bool" where
  "lanes_run env auth score P st ops vs st' \<longleftrightarrow>
     length vs = length ops
     \<and> ledger_run env auth score (ls_lane st) (accepted_ops ops vs) (ls_lane st')
     \<and> (\<exists>b. ls_batch st' = ls_batch st @ b \<and> ls_lane st' = apply_batch b (ls_lane st))
     \<and> (P st \<longrightarrow> P st')"

definition lane_invariant :: "crypto_env \<Rightarrow> tx_auth_context option \<Rightarrow> u64 \<Rightarrow> (lane_state \<Rightarrow> bool) \<Rightarrow> bool" where
  "lane_invariant env auth score P \<longleftrightarrow>
     (\<forall>op st st'. lane_refines env auth score op st st' \<longrightarrow> P st \<longrightarrow> P st')
     \<and> (\<forall>st st'. ls_lane st' = ls_lane st \<longrightarrow> ls_batch st' = ls_batch st \<longrightarrow> ls_journal st' = ls_journal st
          \<longrightarrow> P st \<longrightarrow> P st')"

lemma lanes_run_append:
  "lanes_run env auth score P st ops vs st1 \<Longrightarrow> lanes_run env auth score P st1 ops' vs' st2 \<Longrightarrow>
     lanes_run env auth score P st (ops @ ops') (vs @ vs') st2"
  by (auto simp: lanes_run_def intro: ledger_run_append)

lemma lane_refines_run:
  assumes "lane_refines env auth score op st st'" and "lane_invariant env auth score P"
  obtains v where "ls_statuses st' = ls_statuses st @ [v]" "lanes_run env auth score P st [op] [v] st'"
proof -
  have P: "P st \<longrightarrow> P st'" using assms by (auto simp: lane_invariant_def)
  show thesis using assms(1) unfolding lane_refines_def
  proof (elim disjE exE conjE)
    fix v assume "v \<noteq> Accepted" "st' = push_status v st"
    with P that [of v] show thesis by (simp add: lanes_run_def push_status_def)
  next
    fix b j fb
    assume "runs env auth score (ls_lane st) op b j" "fee_batch (ls_lane st) (op_fee op) = Ok fb"
      and st': "ls_lane st' = apply_batch (b @ fb) (ls_lane st)" "ls_batch st' = ls_batch st @ b @ fb"
        "ls_statuses st' = ls_statuses st @ [Accepted]"
    then have "ledger_step env auth score (ls_lane st) op (ls_lane st')" unfolding st' by (intro ledger_step.step)
    then have "ledger_run env auth score (ls_lane st) [op] (ls_lane st')" by (simp add: ledger_run_Cons)
    with P st' show thesis by (intro that [of Accepted]) (auto simp: lanes_run_def)
  qed
qed

lemma fold_lanes_run:
  assumes "fold_result step st txs = Ok st'"
    and "\<And>tx st st'. step st tx = Ok st' \<Longrightarrow> lane_refines env auth score (f tx) st st'"
    and "lane_invariant env auth score P"
  shows "\<exists>vs. ls_statuses st' = ls_statuses st @ vs \<and> lanes_run env auth score P st (map f txs) vs st'"
  using assms(1)
proof (induction txs arbitrary: st)
  case Nil
  then show ?case by (auto simp: lanes_run_def)
next
  case (Cons tx txs)
  then obtain st1 where st1: "step st tx = Ok st1" and rest: "fold_result step st1 txs = Ok st'" by auto
  obtain v where v: "ls_statuses st1 = ls_statuses st @ [v]" "lanes_run env auth score P st [f tx] [v] st1"
    using lane_refines_run [OF assms(2) [OF st1] assms(3)] .
  from Cons.IH [OF rest] obtain vs where "ls_statuses st' = ls_statuses st1 @ vs"
    "lanes_run env auth score P st1 (map f txs) vs st'" by blast
  with v lanes_run_append [OF v(2), of "map f txs" vs st'] show ?case
    by (intro exI [of _ "v # vs"]) simp
qed

text \<open>The state after some lanes, related to the start of the block by what they did.\<close>

definition lanes_done ::
    "crypto_env \<Rightarrow> tx_auth_context option \<Rightarrow> u64 \<Rightarrow> (lane_state \<Rightarrow> bool) \<Rightarrow> lane_state \<Rightarrow> ledger_op list
     \<Rightarrow> lane_state \<times> transaction_acceptance list list \<Rightarrow> bool" where
  "lanes_done env auth score P st0 ops acc \<longleftrightarrow> lanes_run env auth score P st0 ops (concat (snd acc)) (fst acc)"

lemma run_lane_done:
  assumes "run_lane step txs acc = Ok acc'" and "lanes_done env auth score P st0 ops acc"
    and "\<And>tx st st'. step st tx = Ok st' \<Longrightarrow> lane_refines env auth score (f tx) st st'"
    and "lane_invariant env auth score P"
  shows "lanes_done env auth score P st0 (ops @ map f txs) acc'"
proof -
  obtain st ss where acc: "acc = (st, ss)" by (cases acc)
  let ?st = "st\<lparr>ls_seen := [], ls_statuses := []\<rparr>"
  from assms(1) obtain st' where fold: "fold_result step ?st txs = Ok st'" and acc': "acc' = (st', ss @ [ls_statuses st'])"
    by (auto simp: run_lane_def acc)
  from fold_lanes_run [OF fold assms(3,4)] have run: "lanes_run env auth score P ?st (map f txs) (ls_statuses st') st'"
    by auto
  have "P st \<longrightarrow> P ?st" using assms(4) unfolding lane_invariant_def by simp
  with run have "lanes_run env auth score P st (map f txs) (ls_statuses st') st'" by (auto simp: lanes_run_def)
  with assms(2) show ?thesis by (simp add: lanes_done_def acc acc' lanes_run_append)
qed

lemma escrow_lanes_done:
  assumes "run_escrow_lanes env auth mode score block acc = Ok acc'"
    and "lanes_done env auth (case score of Some v \<Rightarrow> v | None \<Rightarrow> 0) P st0 ops acc"
    and inv: "lane_invariant env auth (case score of Some v \<Rightarrow> v | None \<Rightarrow> 0) P"
  shows "lanes_done env auth (case score of Some v \<Rightarrow> v | None \<Rightarrow> 0) P st0
       (ops @ map OpEscrowCreate (drc_escrow_creates block) @ map OpEscrowFinish (drc_escrow_finishes block)
        @ map OpEscrowCancel (drc_escrow_cancels block)) acc'"
proof (cases "drc_escrow_creates block = [] \<and> drc_escrow_finishes block = [] \<and> drc_escrow_cancels block = []")
  case True
  with assms(1,2) show ?thesis by (auto simp: run_escrow_lanes_def lanes_done_def)
next
  case False
  with assms(1) obtain v a1 a2 where score: "score = Some v"
    and lanes: "run_lane (escrow_create_step env auth mode v) (drc_escrow_creates block) acc = Ok a1"
      "run_lane (escrow_finish_step env auth mode v) (drc_escrow_finishes block) a1 = Ok a2"
      "run_lane (escrow_cancel_step env auth mode v) (drc_escrow_cancels block) a2 = Ok acc'"
    unfolding run_escrow_lanes_def if_not_P [OF False] by auto
  note d0 = assms(2) [unfolded score, simplified] and i = inv [unfolded score, simplified]
  note d1 = run_lane_done [OF lanes(1) d0 escrow_create_refines i]
  note d2 = run_lane_done [OF lanes(2) d1 escrow_finish_refines i]
  note d3 = run_lane_done [OF lanes(3) d2 escrow_cancel_refines i]
  show ?thesis using d3 by (simp add: score)
qed

lemma block_lanes_run:
  assumes "apply_trident_lanes env s block auth score mode = Ok (st', ss')"
    and inv: "lane_invariant env auth (case score of Some v \<Rightarrow> v | None \<Rightarrow> 0) P"
  shows "lanes_run env auth (case score of Some v \<Rightarrow> v | None \<Rightarrow> 0) P (lane_start s) (block_ops block) (concat ss') st'"
proof -
  from assms(1) obtain a1 a2 a3 a4 a5 a6 a7 where
    l1: "run_lane (ticket_create_step env auth mode) (drc_ticket_creates block) (lane_start s, []) = Ok a1"
    and l2: "run_escrow_lanes env auth mode score block a1 = Ok a2"
    and l3: "run_lane (account_transfer_step env auth mode) (account_transfers block) a2 = Ok a3"
    and l4: "run_lane (stake_op_step env auth mode) (stake_ops block) a3 = Ok a4"
    and l5: "run_lane (regular_key_step env auth mode) (drc_regular_keys block) a4 = Ok a5"
    and l6: "run_lane (signer_list_step env auth mode) (drc_signer_lists block) a5 = Ok a6"
    and l7: "run_lane (account_policy_step env auth mode) (drc_account_policies block) a6 = Ok a7"
    and l8: "run_lane (deposit_preauth_step env auth mode) (drc_deposit_preauths block) a7 = Ok (st', ss')"
    unfolding apply_trident_lanes_def by (auto split: if_splits)
  have "lanes_done env auth (case score of Some v \<Rightarrow> v | None \<Rightarrow> 0) P (lane_start s) [] (lane_start s, [])"
    by (simp add: lanes_done_def lanes_run_def)
  note d1 = run_lane_done [OF l1 this ticket_create_refines inv]
  note d2 = escrow_lanes_done [OF l2 d1 inv]
  note d3 = run_lane_done [OF l3 d2 transfer_refines inv]
  note d4 = run_lane_done [OF l4 d3 stake_op_refines inv]
  note d5 = run_lane_done [OF l5 d4 regular_key_refines inv]
  note d6 = run_lane_done [OF l6 d5 signer_list_refines inv]
  note d7 = run_lane_done [OF l7 d6 account_policy_refines inv]
  note d8 = run_lane_done [OF l8 d7 deposit_preauth_refines inv]
  show ?thesis using d8 by (simp add: lanes_done_def block_ops_def)
qed

end
