(* ===== verification/Ledger_Invariants.thy ===== *)
theory Ledger_Invariants
  imports Ledger_Steps
begin

text \<open>
  Invariants of the account ledger and the properties of block application that rest on them: what a
  block may do to the store it is applied to, whatever its operations, in either mode.

  Each invariant is proved for one accepted operation (\<open>ledger_step\<close>) and carried along the run that
  \<open>block_lanes_run\<close> shows \<open>apply_trident_lanes\<close> to be. The journal invariant is about the lane states
  themselves: every key a block touched has its value from before the block first in the journal.
\<close>

section \<open>What an operation touches\<close>

definition journaled :: "state_store \<Rightarrow> meta_key set \<Rightarrow> write_batch \<Rightarrow> account_journal \<Rightarrow> bool" where
  "journaled s ks b j \<longleftrightarrow>
     (\<forall>(asset, a, st) \<in> set j. asset \<noteq> TLT \<and> st = acct s asset a)
     \<and> op_key ` set b \<subseteq> ks \<union> (\<lambda>(asset, a, st). KAccount asset a) ` set j"

lemma charged_journaled:
  assumes "charged s owner sel paid b0 j" and "op_key ` set b1 \<subseteq> ks" and "KTickets owner \<in> ks"
  shows "journaled s ks (b0 @ b1) j"
  using charged_keys [OF assms(1)] assms chargedE [OF assms(1)]
  by (auto simp: journaled_def image_Un elim!: chargedE)

lemma well_typed_keyed: "well_typed s \<Longrightarrow> keyed_records s asset"
  by (fastforce simp: well_typed_def keyed_records_def validator_at_def stored_def bind_eq_Some_conv split: option.splits)

lemma params_asset: "params_for_stake_asset asset = Ok p \<Longrightarrow> sp_asset p = asset \<and> asset \<noteq> TLT"
  by (auto simp: params_for_stake_asset_def ovl_staking_default_def drc_staking_default_def
      split: native_asset_id.splits)

lemma stake_journaled:
  assumes "run_stake env s tx ctx = Ok (b, j)" and "well_typed s"
  shows "journaled s (set (op_meta env s (OpStake tx))) b j"
proof -
  from assms(1) obtain p where p: "params_for_stake_asset (st_asset tx) = Ok p"
    and run: "apply_signed_stake_tx env s tx ctx p = Ok b"
    and j: "j = [(st_asset tx, st_actor tx, acct s (st_asset tx) (st_actor tx))]"
    by (auto simp: run_stake_def)
  note A = params_asset [OF p]
  obtain b1 after b0 account' where
    b: "b = b1 @ b0 @ [Put (KAccount (sp_asset p) (st_actor tx)) (VAccount account')]"
    and eff: "effect_ok s p tx (acct s (sp_asset p) (st_actor tx)) b1 after"
    and b0: "op_key ` set b0 \<subseteq> {KTickets (st_actor tx)}"
    and other: "sp_asset p \<noteq> DRC \<Longrightarrow> b0 = []"
    by (rule stake_Ok [OF run well_typed_keyed [OF assms(2)]]) blast
  have "op_key ` set b1 \<subseteq> stake_keys tx" using eff by (simp add: effect_ok_def)
  then show ?thesis
    using A j b b0 other
    by (cases "sp_asset p = DRC")
       (auto simp: journaled_def image_Un stake_keys_def stake_meta_keys_touched_def)
qed

lemma settles_journaled:
  assumes "settles s tx payee live b j r"
  shows "journaled s (set (settle_keys s tx)) b j"
proof -
  from assms have "load_drc_escrow_live s (es_escrow_id tx) = Ok (Some live)"
    by (simp add: settles_def load_drc_escrow_live_def)
  then have keys: "set (settle_keys s tx) = {KEscrowLive (es_escrow_id tx), KEscrowOwner (el_owner live),
      KEscrowSettled (es_escrow_id tx), KEscrowReceipt (es_escrow_id tx), KTickets (es_submitter tx)}"
    using assms by (auto simp: settle_keys_def escrow_meta_keys_for_settlement_def settles_def)
  from assms obtain b0 j0 acc b1 txid where
    ch: "charged s (es_submitter tx) (selector_of tx 2) (unat (es_fee tx)) b0 j0"
    and j: "j = j0 @ [(DRC, payee, acct s DRC payee)]"
    and b1: "op_key ` set b1 = {KEscrowOwner (el_owner live)}"
    and b: "b = b0 @ [Put (KAccount DRC payee) (VAccount acc)] @ b1
                @ [Delete (KEscrowLive (es_escrow_id tx)), Put (KEscrowSettled (es_escrow_id tx)) (VHash txid),
                   Put (KEscrowReceipt (es_escrow_id tx)) (VEscrowReceipt r)]"
    unfolding settles_def by blast
  have "j0 = [(DRC, es_submitter tx, acct s DRC (es_submitter tx))]" using ch by (rule chargedE)
  with charged_keys [OF ch] b1 j b show ?thesis unfolding keys journaled_def by (auto simp: image_Un)
qed

lemma ticket_journaled:
  assumes "apply_drc_ticket_create env s tx auth = Ok (b, j, t)"
  shows "journaled s {KTickets (tc_owner tx)} b j"
  by (rule ticket_create_Ok [OF assms]) (auto simp: journaled_def dest!: put_tickets_Ok(1))

lemma transfer_journaled:
  assumes "apply_account_transfer_checked env s tx auth = Ok (b, j)"
  shows "journaled s (set (op_meta env s (OpTransfer tx))) b j"
proof -
  obtain b0 from' to' where asset: "at_asset tx \<noteq> TLT"
    and b: "b = b0 @ [Put (KAccount (at_asset tx) (at_from tx)) (VAccount from'),
               Put (KAccount (at_asset tx) (at_to tx)) (VAccount to')]"
    and j: "j = [(at_asset tx, at_from tx, acct s (at_asset tx) (at_from tx)),
          (at_asset tx, at_to tx, acct s (at_asset tx) (at_to tx))]"
    and drc: "at_asset tx = DRC \<Longrightarrow> \<exists>before. nonce before = nonce (acct s DRC (at_from tx))
       \<and> consumes s (at_from tx) (selector_of tx 3) before from' b0"
    and other: "at_asset tx \<noteq> DRC \<Longrightarrow> b0 = []"
    by (rule transfer_Ok [OF assms]) blast
  have "op_key ` set b0 \<subseteq> (if at_asset tx = DRC then {KTickets (at_from tx)} else {})"
    using drc other by (cases "at_asset tx = DRC") (simp_all, blast dest: consumes_keys)
  with asset b j show ?thesis by (auto simp: journaled_def image_Un split: if_splits)
qed

lemma policy_writes_keys: "w \<in> set (policy_writes a p) \<Longrightarrow> op_key w = KPolicy a"
  by (auto simp: policy_writes_def split: if_splits)

lemma runs_journaled:
  assumes "runs env auth score s op b j" and "well_typed s"
  shows "journaled s (set (op_meta env s op)) b j"
proof (cases op)
  case (OpTicketCreate tx)
  with assms show ?thesis by (auto simp: runs_def dest: ticket_journaled split: option.splits)
next
  case (OpTransfer tx)
  with assms transfer_journaled [of env s tx auth b j] show ?thesis by (auto simp: runs_def split: option.splits)
next
  case (OpStake tx)
  with assms stake_journaled show ?thesis by (auto simp: runs_def split: option.splits)
next
  case (OpEscrowCreate tx)
  with assms obtain ctx i where "apply_drc_escrow_create env s tx ctx score = Ok (b, j, i)"
    by (auto simp: runs_def split: option.splits)
  then obtain b0 b1 where "charged s (ec_owner tx) (selector_of tx 2) (unat (ec_amount tx) + unat (ec_fee tx)) b0 j"
    and "op_key ` set b1 = {KEscrowOwner (ec_owner tx)}" and i: "i = escrow_id env tx"
    and "b = b0 @ b1 @ [Put (KEscrowLive i) (VEscrowLive (new_escrow_live env tx score))]"
    by (rule escrow_create_Ok)
  then show ?thesis
    by (simp only: append_assoc [symmetric], simp only: append_assoc, intro charged_journaled)
       (simp_all add: OpEscrowCreate escrow_meta_keys_for_create_def image_Un)
next
  case (OpEscrowFinish tx)
  with assms show ?thesis
    by (auto simp: runs_def elim!: escrow_finish_Ok intro: settles_journaled split: option.splits)
next
  case (OpEscrowCancel tx)
  with assms show ?thesis
    by (auto simp: runs_def elim!: escrow_cancel_Ok intro: settles_journaled split: option.splits)
next
  case (OpRegularKey tx)
  with assms show ?thesis
    by (auto simp: runs_def elim!: regular_key_Ok intro!: charged_journaled
        split: option.splits drc_regular_key_action.splits)
next
  case (OpSignerList tx)
  with assms show ?thesis
    by (auto simp: runs_def elim!: signer_list_Ok intro!: charged_journaled
        split: option.splits drc_signer_list_action.splits)
next
  case (OpPolicy tx)
  with assms show ?thesis
    by (auto simp: runs_def elim!: policy_Ok intro!: charged_journaled dest: policy_writes_keys split: option.splits)
next
  case (OpPreauth tx)
  with assms show ?thesis
    by (auto simp: runs_def elim!: preauth_Ok intro!: charged_journaled
        split: option.splits drc_deposit_preauth_action.splits)
qed

section \<open>The journal remembers the block's pre-state\<close>

text \<open>
  \<open>tracks g T L\<close>: the association list \<open>L\<close> holds, first for each key, its value under \<open>g\<close>, and has an
  entry for every key of \<open>T\<close>.
\<close>

definition tracks :: "('k \<Rightarrow> 'v) \<Rightarrow> 'k set \<Rightarrow> ('k \<times> 'v) list \<Rightarrow> bool" where
  "tracks g T L \<longleftrightarrow> (\<forall>k v. map_of L k = Some v \<longrightarrow> v = g k) \<and> T \<subseteq> fst ` set L"

lemma tracks_append:
  assumes "tracks g T L" and "\<And>k. k \<in> set ks \<Longrightarrow> k \<notin> T \<Longrightarrow> g' k = g k" and "T' \<subseteq> set ks"
  shows "tracks g (T \<union> T') (L @ map (\<lambda>k. (k, g' k)) ks)"
proof -
  have "v = g k" if "map_of (L @ map (\<lambda>k. (k, g' k)) ks) k = Some v" for k v
  proof (cases "map_of L k")
    case None
    then have "k \<notin> T" using assms(1) by (auto simp: tracks_def map_of_eq_None_iff)
    moreover have "k \<in> set ks" "v = g' k" using that None by (auto simp: map_add_def dest: map_of_SomeD)
    ultimately show ?thesis using assms(2) by simp
  next
    case (Some w)
    with that have "v = w" by (simp add: map_add_def split: option.splits)
    with Some assms(1) show ?thesis by (auto simp: tracks_def)
  qed
  moreover have "T \<union> T' \<subseteq> fst ` set (L @ map (\<lambda>k. (k, g' k)) ks)"
  proof -
    have "fst ` set (L @ map (\<lambda>k. (k, g' k)) ks) = fst ` set L \<union> set ks" by (simp add: image_Un image_image)
    with assms(1,3) show ?thesis unfolding tracks_def by blast
  qed
  ultimately show ?thesis by (simp add: tracks_def)
qed

definition account_entries :: "account_journal \<Rightarrow> ((native_asset_id \<times> address) \<times> account_state) list" where
  "account_entries j = map (\<lambda>(asset, a, st). ((asset, a), st)) j"

abbreviation batch_keys :: "write_batch \<Rightarrow> meta_key set" where
  "batch_keys b \<equiv> op_key ` set b"

definition account_keys :: "write_batch \<Rightarrow> (native_asset_id \<times> address) set" where
  "account_keys b = {(asset, a). KAccount asset a \<in> batch_keys b}"

definition family_part :: "meta_family \<Rightarrow> write_batch \<Rightarrow> meta_key set" where
  "family_part f b = {k \<in> batch_keys b. family_of k = Some f}"

definition journal_ok :: "state_store \<Rightarrow> lane_state \<Rightarrow> bool" where
  "journal_ok s0 st \<longleftrightarrow>
     ls_lane st = apply_batch (ls_batch st) s0 \<and> well_typed (ls_lane st)
     \<and> (\<forall>(asset, a, v) \<in> set (account_before (ls_journal st)). asset \<noteq> TLT)
     \<and> tracks (\<lambda>(asset, a). acct s0 asset a) (account_keys (ls_batch st)) (account_entries (account_before (ls_journal st)))
     \<and> (\<forall>f. tracks (get_cf s0) (family_part f (ls_batch st)) (before_of f (ls_journal st))
           \<and> (\<forall>k \<in> fst ` set (before_of f (ls_journal st)). family_of k = Some f))
     \<and> (\<forall>k \<in> batch_keys (ls_batch st). (\<exists>asset a. k = KAccount asset a) \<or> family_of k \<noteq> None)"

lemma fee_batch_in_fee_keys: "fee_batch s f = Ok fb \<Longrightarrow> batch_keys fb \<subseteq> set (fee_keys f)"
  by (cases f) (auto dest!: fee_batch_Ok simp: burn_drc_fee_into_def put_burned_supply_into_def Let_def
      credit_fee_share_to_reward_pool_def credit_reward_pool_into_def put_reward_pool_into_def split: if_splits)

lemma fee_keys_family: "k \<in> set (fee_keys f) \<Longrightarrow> family_of k = Some FStake"
  by (cases f) (auto split: if_splits native_asset_id.splits)

lemma settle_keys_family: "list_all (\<lambda>k. family_of k \<noteq> None) (settle_keys s tx)"
  by (simp add: settle_keys_def escrow_meta_keys_for_settlement_def split: sum.split option.split)

lemma op_meta_family: "k \<in> set (op_meta env s op) \<Longrightarrow> family_of k \<noteq> None"
proof -
  have "list_all (\<lambda>k. family_of k \<noteq> None) (op_meta env s op)"
    by (cases op) (simp_all add: settle_keys_family escrow_meta_keys_for_create_def stake_meta_keys_touched_def del: not_None_eq)
  then show "k \<in> set (op_meta env s op) \<Longrightarrow> family_of k \<noteq> None" by (simp add: list_all_iff)
qed

lemma journal_step:
  assumes "runs env auth score (ls_lane st) op b j" and "fee_batch (ls_lane st) (op_fee op) = Ok fb"
    and st': "ls_lane st' = apply_batch (b @ fb) (ls_lane st)" "ls_batch st' = ls_batch st @ b @ fb"
    and jr: "journals env (ls_lane st) op j (ls_journal st) (ls_journal st')"
    and ok: "journal_ok s0 st"
  shows "journal_ok s0 st'"
proof -
  let ?s = "ls_lane st" and ?ks = "fee_keys (op_fee op) @ op_meta env (ls_lane st) op"
  have s: "?s = apply_batch (ls_batch st) s0" and typed: "well_typed ?s"
    and tlt: "\<forall>(asset, a, v) \<in> set (account_before (ls_journal st)). asset \<noteq> TLT"
    and accounts: "tracks (\<lambda>(asset, a). acct s0 asset a) (account_keys (ls_batch st))
        (account_entries (account_before (ls_journal st)))"
    and families: "\<And>f. tracks (get_cf s0) (family_part f (ls_batch st)) (before_of f (ls_journal st))"
      "\<And>f. \<forall>k \<in> fst ` set (before_of f (ls_journal st)). family_of k = Some f"
    and known: "\<forall>k \<in> batch_keys (ls_batch st). (\<exists>asset a. k = KAccount asset a) \<or> family_of k \<noteq> None"
    using ok unfolding journal_ok_def by blast+
  have J1: "\<forall>(asset, a, v) \<in> set j. asset \<noteq> TLT \<and> v = acct ?s asset a"
    and J2: "batch_keys b \<subseteq> set (op_meta env ?s op) \<union> (\<lambda>(asset, a, v). KAccount asset a) ` set j"
    using runs_journaled [OF assms(1) typed] unfolding journaled_def by blast+
  note F = fee_batch_in_fee_keys [OF assms(2)]
  have acc: "account_entries j = map (\<lambda>k. (k, (\<lambda>(asset, a). acct ?s asset a) k)) (map (\<lambda>(asset, a, v). (asset, a)) j)"
    unfolding account_entries_def map_map using J1 by (intro map_cong refl) auto
  have parts: "k \<in> set ?ks \<or> (\<exists>asset a v. k = KAccount asset a \<and> (asset, a, v) \<in> set j)"
    if "k \<in> batch_keys (b @ fb)" for k
  proof -
    from that J2 F have "k \<in> set ?ks \<or> k \<in> (\<lambda>(asset, a, v). KAccount asset a) ` set j"
      unfolding set_append image_Un by blast
    then show ?thesis by auto
  qed
  have fam: "family_of k \<noteq> None" if "k \<in> set ?ks" for k
    using that op_meta_family [of k env ?s op] fee_keys_family [of k "op_fee op"] by auto
  have new_accounts: "account_keys (b @ fb) \<subseteq> set (map (\<lambda>(asset, a, v). (asset, a)) j)"
  proof
    fix k assume k: "k \<in> account_keys (b @ fb)"
    obtain asset a where kk: "k = (asset, a)" by (cases k)
    with k have "KAccount asset a \<in> batch_keys (b @ fb)" by (simp add: account_keys_def)
    from parts [OF this] fam [of "KAccount asset a"] obtain v where "(asset, a, v) \<in> set j" by auto
    then show "k \<in> set (map (\<lambda>(asset, a, v). (asset, a)) j)"
      unfolding kk set_map by (rule rev_image_eqI) simp
  qed
  have new_family: "family_part f (b @ fb) \<subseteq> set (family_keys f ?ks)" for f
  proof
    fix k assume "k \<in> family_part f (b @ fb)"
    then have "k \<in> batch_keys (b @ fb)" "family_of k = Some f" by (simp_all add: family_part_def)
    with parts [of k] show "k \<in> set (family_keys f ?ks)" by (auto simp: family_keys_def)
  qed
  have "tracks (\<lambda>(asset, a). acct s0 asset a) (account_keys (ls_batch st) \<union> account_keys (b @ fb))
      (account_entries (account_before (ls_journal st)) @ account_entries j)"
    unfolding acc
  proof (rule tracks_append [OF accounts _ new_accounts])
    fix k assume "k \<notin> account_keys (ls_batch st)"
    then show "(\<lambda>(asset, a). acct ?s asset a) k = (\<lambda>(asset, a). acct s0 asset a) k"
      by (cases k) (simp add: account_keys_def s acct_frame)
  qed
  moreover have "account_keys (ls_batch st) \<union> account_keys (b @ fb) = account_keys (ls_batch st')"
    by (auto simp: account_keys_def st' image_Un)
  moreover have "tracks (get_cf s0) (family_part f (ls_batch st) \<union> family_part f (b @ fb))
      (before_of f (ls_journal st) @ map (\<lambda>k. (k, get_cf ?s k)) (family_keys f ?ks))" for f
  proof (rule tracks_append [OF families(1) _ new_family])
    fix k assume "k \<in> set (family_keys f ?ks)" "k \<notin> family_part f (ls_batch st)"
    then have "k \<notin> batch_keys (ls_batch st)" by (auto simp: family_part_def family_keys_def)
    then show "get_cf ?s k = get_cf s0 k" by (simp add: s get_cf_frame)
  qed
  moreover have "family_part f (ls_batch st) \<union> family_part f (b @ fb) = family_part f (ls_batch st')" for f
    by (auto simp: family_part_def st' image_Un)
  moreover have "well_typed (ls_lane st')"
    unfolding st' using typed runs_typed [OF assms(1)] fee_batch_typed [OF assms(2)] by (intro well_typed_apply) simp_all
  moreover have "\<forall>k \<in> batch_keys (ls_batch st'). (\<exists>asset a. k = KAccount asset a) \<or> family_of k \<noteq> None"
  proof
    fix k assume "k \<in> batch_keys (ls_batch st')"
    then consider "k \<in> batch_keys (ls_batch st)" | "k \<in> batch_keys (b @ fb)" by (auto simp: st')
    then show "(\<exists>asset a. k = KAccount asset a) \<or> family_of k \<noteq> None"
    proof cases
      case 1
      with known show ?thesis by blast
    next
      case 2
      from parts [OF 2] fam [of k] show ?thesis by blast
    qed
  qed
  moreover have "\<forall>(asset, a, v) \<in> set (account_before (ls_journal st')). asset \<noteq> TLT"
    using J1 tlt jr by (auto simp: journals_def)
  moreover have "\<forall>k \<in> fst ` set (before_of f (ls_journal st')). family_of k = Some f" for f
    using families(2) [of f] jr by (auto simp: journals_def snapshot_meta_keys_def family_keys_def)
  moreover have "before_of f (ls_journal st') = before_of f (ls_journal st) @ map (\<lambda>k. (k, get_cf ?s k)) (family_keys f ?ks)"
    "account_entries (account_before (ls_journal st'))
       = account_entries (account_before (ls_journal st)) @ account_entries j" for f
    using jr by (simp_all add: journals_def snapshot_meta_keys_def account_entries_def)
  moreover have "ls_lane st' = apply_batch (ls_batch st') s0" by (simp add: st' s)
  ultimately show ?thesis unfolding journal_ok_def by simp
qed

lemma journal_ok_cong:
  "ls_lane st' = ls_lane st \<Longrightarrow> ls_batch st' = ls_batch st \<Longrightarrow> ls_journal st' = ls_journal st \<Longrightarrow>
     journal_ok s0 st' = journal_ok s0 st"
  by (simp only: journal_ok_def)

lemma journal_invariant: "lane_invariant env auth score (journal_ok s0)"
  unfolding lane_invariant_def
proof (intro conjI allI impI)
  fix op and st st' :: lane_state
  assume "lane_refines env auth score op st st'" "journal_ok s0 st"
  then show "journal_ok s0 st'"
    unfolding lane_refines_def
  proof (elim disjE exE conjE)
    fix v assume st': "st' = push_status v st" and "journal_ok s0 st"
    then show ?thesis unfolding st' by (subst journal_ok_cong [of _ st]) (simp_all add: push_status_def)
  qed (rule journal_step)
next
  fix st st' :: lane_state
  assume "ls_lane st' = ls_lane st" "ls_batch st' = ls_batch st" "ls_journal st' = ls_journal st"
  from journal_ok_cong [OF this] show "journal_ok s0 st \<Longrightarrow> journal_ok s0 st'" by blast
qed

lemma revert_meta_get:
  "get_cf (apply_batch (revert_meta_into L) s) k = (case map_of L k of Some v \<Rightarrow> v | None \<Rightarrow> get_cf s k)"
proof (induction L)
  case (Cons x L)
  obtain k' v where "x = (k', v)" by (cases x)
  then show ?case using Cons.IH by (cases v) (auto simp: revert_meta_into_def)
qed (simp add: revert_meta_into_def)

lemma revert_meta_keys: "batch_keys (revert_meta_into L) = fst ` set L"
  by (induction L) (auto simp: revert_meta_into_def split: option.splits)

text \<open>Undoing one family: its keys get their old values back, the others keep theirs.\<close>

lemma revert_family:
  assumes "tracks (get_cf s0) T L" and "k \<in> T \<or> get_cf s k = get_cf s0 k"
  shows "get_cf (apply_batch (revert_meta_into L) s) k = get_cf s0 k"
proof (cases "map_of L k")
  case None
  then have "k \<notin> T" using assms(1) by (auto simp: tracks_def map_of_eq_None_iff)
  with None assms(2) show ?thesis by (simp add: revert_meta_get)
next
  case (Some v)
  with assms(1) show ?thesis by (simp add: revert_meta_get tracks_def)
qed

definition families :: "meta_family list" where
  "families = [FStake, FPolicy, FPreauth, FRegularKey, FSignerList, FTicket, FEscrow]"

definition revert_families :: "utxo_journal \<Rightarrow> meta_family list \<Rightarrow> write_batch" where
  "revert_families J fs = concat (map (\<lambda>f. revert_meta_into (before_of f J)) fs)"

lemma revert_families_get:
  assumes "\<And>f. tracks (get_cf s0) (family_part f b) (before_of f J)"
    and "(\<exists>f \<in> set fs. k \<in> family_part f b) \<or> get_cf s k = get_cf s0 k"
  shows "get_cf (apply_batch (revert_families J fs) s) k = get_cf s0 k"
  using assms(2)
proof (induction fs arbitrary: s)
  case (Cons f fs)
  show ?case
  proof (cases "\<exists>f \<in> set fs. k \<in> family_part f b")
    case True
    with Cons.IH show ?thesis by (simp add: revert_families_def)
  next
    case False
    with Cons.prems have "get_cf (apply_batch (revert_meta_into (before_of f J)) s) k = get_cf s0 k"
      by (intro revert_family [OF assms(1)]) auto
    with Cons.IH show ?thesis by (simp add: revert_families_def)
  qed
qed (simp add: revert_families_def)

lemma all_families: "f \<in> set families"
  by (cases f) (simp_all add: families_def)

lemma revert_journal_batched_families:
  "\<forall>(asset, a, v) \<in> set (account_before J). asset \<noteq> TLT \<Longrightarrow>
     revert_journal_batched J = Ok (map (\<lambda>(asset, a, st). Put (KAccount asset a) (VAccount st)) (rev (account_before J))
       @ revert_families J families)"
  by (simp add: revert_journal_batched_def revert_account_journal_Ok revert_families_def families_def)

lemma journal_restores:
  assumes "journal_ok s0 st"
  obtains s1 where "revert_journal (ls_lane st) (ls_journal st) = Ok s1"
    and "\<And>k. (\<And>asset a. k \<noteq> KAccount asset a) \<Longrightarrow> get_cf s1 k = get_cf s0 k"
    and "\<And>asset a. acct s1 asset a = acct s0 asset a"
proof -
  let ?J = "ls_journal st" and ?s = "ls_lane st"
  let ?A = "map (\<lambda>(asset, a, st). Put (KAccount asset a) (VAccount st)) (rev (account_before ?J))"
  let ?F = "revert_families ?J families"
  have s: "?s = apply_batch (ls_batch st) s0"
    and tlt: "\<forall>(asset, a, v) \<in> set (account_before ?J). asset \<noteq> TLT"
    and accounts: "tracks (\<lambda>(asset, a). acct s0 asset a) (account_keys (ls_batch st)) (account_entries (account_before ?J))"
    and fam: "\<And>f. tracks (get_cf s0) (family_part f (ls_batch st)) (before_of f ?J)"
      "\<And>f. \<forall>k \<in> fst ` set (before_of f ?J). family_of k = Some f"
    and known: "\<forall>k \<in> batch_keys (ls_batch st). (\<exists>asset a. k = KAccount asset a) \<or> family_of k \<noteq> None"
    using assms unfolding journal_ok_def by blast+
  have "revert_journal ?s ?J = Ok (apply_batch ?F (apply_batch ?A ?s))"
    by (simp add: revert_journal_def revert_journal_batched_families [OF tlt])
  moreover have "get_cf (apply_batch ?F (apply_batch ?A ?s)) k = get_cf s0 k"
    if k: "\<And>asset a. k \<noteq> KAccount asset a" for k
  proof (rule revert_families_get [OF fam(1)])
    have "k \<notin> batch_keys ?A" using k by (auto, blast)
    then have same: "get_cf (apply_batch ?A ?s) k = get_cf ?s k" by (rule get_cf_frame)
    show "(\<exists>f \<in> set families. k \<in> family_part f (ls_batch st)) \<or> get_cf (apply_batch ?A ?s) k = get_cf s0 k"
    proof (cases "k \<in> batch_keys (ls_batch st)")
      case True
      with known k obtain f where "family_of k = Some f" by blast
      with True all_families [of f] show ?thesis by (auto simp: family_part_def)
    next
      case False
      then show ?thesis using same by (simp add: s get_cf_frame)
    qed
  qed
  moreover have "acct (apply_batch ?F (apply_batch ?A ?s)) asset a = acct s0 asset a" for asset a
  proof -
    have "KAccount asset a \<notin> batch_keys (revert_meta_into (before_of f ?J))" for f
      using fam(2) [of f] unfolding revert_meta_keys by force
    then have "KAccount asset a \<notin> batch_keys ?F" by (auto simp: revert_families_def)
    then have "acct (apply_batch ?F (apply_batch ?A ?s)) asset a = acct (apply_batch ?A ?s) asset a" by (rule acct_frame)
    also have "\<dots> = (case map_of (account_entries (account_before ?J)) (asset, a) of Some v \<Rightarrow> v | None \<Rightarrow> acct ?s asset a)"
      by (simp add: acct_after_puts account_entries_def)
    also have "\<dots> = acct s0 asset a"
    proof (cases "map_of (account_entries (account_before ?J)) (asset, a)")
      case None
      then have "(asset, a) \<notin> account_keys (ls_batch st)" using accounts by (auto simp: tracks_def map_of_eq_None_iff)
      with None show ?thesis by (simp add: s account_keys_def acct_frame)
    next
      case (Some v)
      with accounts show ?thesis by (auto simp: tracks_def)
    qed
    finally show ?thesis .
  qed
  ultimately show thesis by (rule that)
qed

lemma journal_start: "well_typed s \<Longrightarrow> journal_ok s (lane_start s)"
  unfolding journal_ok_def
proof (intro conjI allI)
  fix f show "tracks (get_cf s) (family_part f (ls_batch (lane_start s))) (before_of f (ls_journal (lane_start s)))"
    "\<forall>k \<in> fst ` set (before_of f (ls_journal (lane_start s))). family_of k = Some f"
    by (cases f; simp add: lane_start_def tracks_def family_part_def empty_journal_def)+
qed (simp_all add: lane_start_def tracks_def account_keys_def account_entries_def empty_journal_def)

section \<open>No lockout\<close>

lemma runs_recoverable:
  assumes "runs env auth score s op b j" and "well_typed s" and "\<And>a. recoverable s a"
  shows "recoverable (apply_batch b s) a"
proof (cases "\<exists>k \<in> set (op_meta env s op). key_material k")
  case False
  have "\<not> key_material k" if "k \<in> batch_keys b" for k
    using that False runs_journaled [OF assms(1,2)] unfolding journaled_def by (auto simp: key_material_def)
  with assms(3) show ?thesis by (intro recoverable_frame)
next
  case True
  then consider tx where "op = OpRegularKey tx" | tx where "op = OpSignerList tx" | tx where "op = OpPolicy tx"
    by (cases op) (auto simp: key_material_def escrow_meta_keys_for_create_def settle_keys_def
        escrow_meta_keys_for_settlement_def stake_meta_keys_touched_def split: if_splits sum.splits option.splits)
  then show ?thesis
    using assms(1,3) regular_key_recoverable signer_list_recoverable policy_recoverable
    by cases (auto simp: runs_def split: option.splits)
qed

lemma step_recoverable:
  assumes "ledger_step env auth score s op s'" and "well_typed s" and "\<And>a. recoverable s a"
  shows "recoverable s' a"
  using assms(1)
proof (cases rule: ledger_step.cases)
  case (step b j fb)
  have "recoverable (apply_batch b s) a" for a by (rule runs_recoverable [OF step(2) assms(2,3)])
  moreover have "\<not> key_material k" if "k \<in> batch_keys fb" for k
    using that fee_batch_in_fee_keys [OF step(3)] fee_keys_family [of k "op_fee op"]
    by (cases k) (auto simp: key_material_def)
  ultimately show ?thesis using recoverable_frame unfolding step(1) by simp
qed

section \<open>Sequences are used once\<close>

text \<open>
  \<open>retired s a sel\<close>: the selector can no longer authorise anything of account \<open>a\<close>. \<open>seq_le s s'\<close>: nonces do
  not fall, and a ticket outstanding afterwards was outstanding before or was minted above the old
  nonce.
\<close>

definition dnonce :: "state_store \<Rightarrow> address \<Rightarrow> u64" where
  "dnonce s a = nonce (acct s DRC a)"

definition retired :: "state_store \<Rightarrow> address \<Rightarrow> drc_account_sequence_selector \<Rightarrow> bool" where
  "retired s a sel \<longleftrightarrow> sel_value sel < dnonce s a
     \<and> (sel_kind sel = Ticket \<longrightarrow> sel_value sel \<notin> set (tickets_of s a))"

definition tickets_below :: "state_store \<Rightarrow> bool" where
  "tickets_below s \<longleftrightarrow> (\<forall>a. \<forall>t \<in> set (tickets_of s a). t < dnonce s a)"

definition seq_le :: "state_store \<Rightarrow> state_store \<Rightarrow> bool" where
  "seq_le s s' \<longleftrightarrow> (\<forall>a. dnonce s a \<le> dnonce s' a
     \<and> (\<forall>t \<in> set (tickets_of s' a). t \<in> set (tickets_of s a) \<or> dnonce s a \<le> t \<and> t < dnonce s' a))"

lemma seq_le_refl: "seq_le s s"
  by (simp add: seq_le_def)

lemma seq_le_eq: "(\<And>a. dnonce s' a = dnonce s a) \<Longrightarrow> (\<And>a. tickets_of s' a = tickets_of s a) \<Longrightarrow> seq_le s s'"
  by (simp add: seq_le_def)

lemma seq_le_retired: "seq_le s s' \<Longrightarrow> retired s a sel \<Longrightarrow> retired s' a sel"
  unfolding seq_le_def retired_def by (meson leD less_le_trans)

lemma seq_le_tickets_below: "seq_le s s' \<Longrightarrow> tickets_below s \<Longrightarrow> tickets_below s'"
  unfolding seq_le_def tickets_below_def by (meson less_le_trans)

lemma seq_frame:
  assumes "\<And>a. KAccount DRC a \<notin> batch_keys b" and "\<And>a. KTickets a \<notin> batch_keys b"
  shows "dnonce (apply_batch b s) a = dnonce s a" and "tickets_of (apply_batch b s) a = tickets_of s a"
  using assms by (simp_all add: dnonce_def acct_frame tickets_frame)

lemma word_lt_add1: "unat n' = unat n + 1 \<Longrightarrow> (n :: u64) < n'"
  by (simp add: word_less_nat_alt)

text \<open>Consuming a selector: it was live before and is retired after, whatever else the batch writes.\<close>

lemma consumes_seq:
  assumes c: "consumes s owner sel before after b0" and "nonce before = dnonce s owner"
    and s': "\<And>a. dnonce s' a = (if a = owner then nonce after else dnonce s a)"
      "\<And>a. tickets_of s' a = tickets_of (apply_batch b0 s) a"
  shows "seq_le s s'" and "\<not> retired s owner sel" and "tickets_below s \<Longrightarrow> retired s' owner sel"
proof -
  have "seq_le s s' \<and> \<not> retired s owner sel \<and> (tickets_below s \<longrightarrow> retired s' owner sel)"
  proof (cases "sel_kind sel")
    case Nonce
    with c have "sel_value sel = dnonce s owner" "b0 = []" "dnonce s owner < nonce after"
      using word_lt_add1 assms(2) by (auto simp: consumes_def dnonce_def)
    with Nonce show ?thesis by (auto simp: seq_le_def retired_def s' less_imp_le)
  next
    case Ticket
    with c have "sel_value sel \<in> set (tickets_of s owner)" "nonce after = dnonce s owner"
      and put: "put_tickets_into owner (sort (filter (\<lambda>t. t \<noteq> sel_value sel) (tickets_of s owner))) = Ok b0"
      using assms(2) by (auto simp: consumes_def)
    with Ticket show ?thesis
      by (auto simp: seq_le_def retired_def s' put_tickets_Ok(2) [OF put] tickets_below_def)
  qed
  then show "seq_le s s'" "\<not> retired s owner sel" "tickets_below s \<Longrightarrow> retired s' owner sel" by blast+
qed

fun op_sequence :: "ledger_op \<Rightarrow> address \<times> drc_account_sequence_selector" where
  "op_sequence (OpTicketCreate tx) = (tc_owner tx, nonce_selector (tx_nonce tx))"
| "op_sequence (OpEscrowCreate tx) = (ec_owner tx, selector_of tx 2)"
| "op_sequence (OpEscrowFinish tx) = (es_submitter tx, selector_of tx 2)"
| "op_sequence (OpEscrowCancel tx) = (es_submitter tx, selector_of tx 2)"
| "op_sequence (OpTransfer tx) = (at_from tx, selector_of tx 3)"
| "op_sequence (OpStake tx) = (st_actor tx, selector_of tx 2)"
| "op_sequence (OpRegularKey tx) = (rk_owner tx, selector_of tx 2)"
| "op_sequence (OpSignerList tx) = (slt_owner tx, selector_of tx 2)"
| "op_sequence (OpPolicy tx) = (pt_account tx, selector_of tx 4)"
| "op_sequence (OpPreauth tx) = (dpt_owner tx, selector_of tx 2)"

fun is_drc :: "ledger_op \<Rightarrow> bool" where
  "is_drc (OpTransfer tx) = (at_asset tx = DRC)"
| "is_drc (OpStake tx) = (st_asset tx = DRC)"
| "is_drc _ = True"

fun settled_id :: "ledger_op \<Rightarrow> hash option" where
  "settled_id (OpEscrowFinish tx) = Some (es_escrow_id tx)"
| "settled_id (OpEscrowCancel tx) = Some (es_escrow_id tx)"
| "settled_id _ = None"

definition uses_sequence :: "ledger_op \<Rightarrow> state_store \<Rightarrow> state_store \<Rightarrow> bool" where
  "uses_sequence op s s' \<longleftrightarrow>
     (case op_sequence op of (a, sel) \<Rightarrow>
        seq_le s s'
        \<and> (is_drc op \<longrightarrow> \<not> retired s a sel)
        \<and> (is_drc op \<and> settled_id op = None \<and> tickets_below s \<longrightarrow> retired s' a sel))"

lemma charged_sequence:
  assumes ch: "charged s owner sel paid b0 j" and "op_sequence op = (owner, sel)"
    and b1: "batch_keys b1 \<subseteq> ks" "\<And>asset a. KAccount asset a \<notin> ks" "\<And>a. KTickets a \<notin> ks"
  shows "uses_sequence op s (apply_batch (b0 @ b1) s)"
  using ch
proof (rule chargedE)
  fix b0' before after
  assume b: "b0 = b0' @ [Put (KAccount DRC owner) (VAccount after)]" and "nonce before = nonce (acct s DRC owner)"
    and c: "consumes s owner sel before after b0'"
  let ?s' = "apply_batch (b0 @ b1) s"
  have frame: "dnonce ?s' a = dnonce (apply_batch b0 s) a" "tickets_of ?s' a = tickets_of (apply_batch b0 s) a" for a
    using seq_frame [of b1 "apply_batch b0 s" a] b1 by auto
  have "dnonce ?s' a = (if a = owner then nonce after else dnonce s a)" for a
    unfolding frame by (simp add: b dnonce_def consumes_acct [OF c])
  moreover have "tickets_of ?s' a = tickets_of (apply_batch b0' s) a" for a
    unfolding frame by (simp add: b)
  ultimately have "seq_le s ?s'" "\<not> retired s owner sel" "tickets_below s \<Longrightarrow> retired ?s' owner sel"
    using consumes_seq [OF c] \<open>nonce before = nonce (acct s DRC owner)\<close> unfolding dnonce_def by metis+
  then show ?thesis using assms(2) by (simp add: uses_sequence_def)
qed

lemma ticket_create_sequence:
  assumes "apply_drc_ticket_create env s tx auth = Ok (b, j, t)"
  shows "uses_sequence (OpTicketCreate tx) s (apply_batch b s)"
proof -
  obtain owner' b2 where n: "nonce (acct s DRC (tc_owner tx)) = tx_nonce tx" "unat t = unat (tx_nonce tx) + 1"
    "unat (nonce owner') = unat (tx_nonce tx) + 2"
    and b: "b = Put (KAccount DRC (tc_owner tx)) (VAccount owner') # b2"
    and put: "put_tickets_into (tc_owner tx) (sort (tickets_of s (tc_owner tx) @ [t])) = Ok b2"
    by (rule ticket_create_Ok [OF assms])
  let ?s1 = "AList.update (KAccount DRC (tc_owner tx)) (VAccount owner') s"
  have dn: "dnonce (apply_batch b s) a = (if a = tc_owner tx then nonce owner' else dnonce s a)" for a
    by (simp add: b dnonce_def put_tickets_Ok(3) [OF put])
  have tk: "tickets_of (apply_batch b s) a
      = (if a = tc_owner tx then sort (tickets_of s (tc_owner tx) @ [t]) else tickets_of s a)" for a
    by (simp add: b put_tickets_Ok(2) [OF put])
  have lt: "tx_nonce tx < t" "tx_nonce tx < nonce owner'" "t < nonce owner'"
    using n by (simp_all add: word_less_nat_alt)
  have "dnonce s (tc_owner tx) = tx_nonce tx" using n by (simp add: dnonce_def)
  with lt show ?thesis
    by (auto simp: uses_sequence_def seq_le_def retired_def nonce_selector_def dn tk)
qed

lemma other_asset_sequence:
  assumes "batch_keys b \<subseteq> ks" and "\<And>a. KAccount DRC a \<notin> ks" and "\<And>a. KTickets a \<notin> ks" and "\<not> is_drc op"
  shows "uses_sequence op s (apply_batch b s)"
proof -
  have "seq_le s (apply_batch b s)" using assms by (intro seq_le_eq seq_frame) auto
  with assms(4) show ?thesis by (simp add: uses_sequence_def split: prod.split)
qed

lemma transfer_sequence:
  assumes "apply_account_transfer_checked env s tx auth = Ok (b, j)"
  shows "uses_sequence (OpTransfer tx) s (apply_batch b s)"
proof -
  obtain b0 from' to' where ne: "at_from tx \<noteq> at_to tx"
    and b: "b = b0 @ [Put (KAccount (at_asset tx) (at_from tx)) (VAccount from'),
               Put (KAccount (at_asset tx) (at_to tx)) (VAccount to')]"
    and to: "nonce to' = nonce (acct s (at_asset tx) (at_to tx))"
    and drc: "at_asset tx = DRC \<Longrightarrow> \<exists>before. nonce before = nonce (acct s DRC (at_from tx))
       \<and> consumes s (at_from tx) (selector_of tx 3) before from' b0"
    and other: "at_asset tx \<noteq> DRC \<Longrightarrow> b0 = []"
    by (rule transfer_Ok [OF assms]) blast
  show ?thesis
  proof (cases "at_asset tx = DRC")
    case False
    with other b show ?thesis
      by (intro other_asset_sequence [of _ "{KAccount (at_asset tx) (at_from tx), KAccount (at_asset tx) (at_to tx)}"]) auto
  next
    case True
    with drc obtain before where before: "nonce before = dnonce s (at_from tx)"
      and c: "consumes s (at_from tx) (selector_of tx 3) before from' b0" by (auto simp: dnonce_def)
    have "dnonce (apply_batch b s) a = (if a = at_from tx then nonce from' else dnonce s a)"
      "tickets_of (apply_batch b s) a = tickets_of (apply_batch b0 s) a" for a
      using True ne to by (simp_all add: b dnonce_def consumes_acct [OF c])
    from consumes_seq [OF c before this] True show ?thesis by (simp add: uses_sequence_def)
  qed
qed

lemma stake_sequence:
  assumes "run_stake env s tx ctx = Ok (b, j)" and "well_typed s"
  shows "uses_sequence (OpStake tx) s (apply_batch b s)"
proof -
  from assms(1) obtain p where p: "params_for_stake_asset (st_asset tx) = Ok p"
    and run: "apply_signed_stake_tx env s tx ctx p = Ok b" by (auto simp: run_stake_def)
  note A = params_asset [OF p]
  obtain b1 after b0 account' where
    b: "b = b1 @ b0 @ [Put (KAccount (sp_asset p) (st_actor tx)) (VAccount account')]"
    and eff: "effect_ok s p tx (acct s (sp_asset p) (st_actor tx)) b1 after"
    and drc: "sp_asset p = DRC \<Longrightarrow> consumes s (st_actor tx) (selector_of tx 2) after account' b0"
    and other: "sp_asset p \<noteq> DRC \<Longrightarrow> b0 = []"
    by (rule stake_Ok [OF run well_typed_keyed [OF assms(2)]]) blast
  have keys: "batch_keys b1 \<subseteq> stake_keys tx" and n: "nonce after = nonce (acct s (sp_asset p) (st_actor tx))"
    using eff by (simp_all add: effect_ok_def)
  show ?thesis
  proof (cases "sp_asset p = DRC")
    case False
    with keys other A b show ?thesis
      by (intro other_asset_sequence [of _ "stake_keys tx"]) (auto simp: stake_keys_def)
  next
    case True
    note c = drc [OF True]
    have t1: "tickets_of (apply_batch b1 s) a = tickets_of s a" for a
      using keys by (intro tickets_frame) (auto simp: stake_keys_def)
    have "tickets_of (apply_batch b0 (apply_batch b1 s)) a = tickets_of (apply_batch b0 s) a" for a
      using c t1 by (auto simp: consumes_def put_tickets_Ok(2) split: drc_account_sequence.splits)
    then have "tickets_of (apply_batch b s) a = tickets_of (apply_batch b0 s) a" for a by (simp add: b)
    moreover have "dnonce (apply_batch b s) a = (if a = st_actor tx then nonce account' else dnonce s a)" for a
    proof (cases "a = st_actor tx")
      case False
      then have "KAccount DRC a \<notin> batch_keys b1" using keys by (auto simp: stake_keys_def)
      then show ?thesis using False True by (simp add: b dnonce_def consumes_acct [OF c] acct_frame)
    qed (use True in \<open>simp add: b dnonce_def\<close>)
    moreover have "nonce after = dnonce s (st_actor tx)" using n True by (simp add: dnonce_def)
    ultimately have "seq_le s (apply_batch b s)" "\<not> retired s (st_actor tx) (selector_of tx 2)"
      "tickets_below s \<Longrightarrow> retired (apply_batch b s) (st_actor tx) (selector_of tx 2)"
      using consumes_seq [OF c] by metis+
    then show ?thesis by (simp add: uses_sequence_def)
  qed
qed

lemma settles_sequence:
  assumes "settles s tx payee live b j r" and op: "op_sequence op = (es_submitter tx, selector_of tx 2)"
    and "settled_id op \<noteq> None"
  shows "uses_sequence op s (apply_batch b s)"
proof -
  let ?i = "es_escrow_id tx" and ?a = "es_submitter tx"
  from assms obtain b0 j0 acc b1 txid where
    ch: "charged s ?a (selector_of tx 2) (unat (es_fee tx)) b0 j0"
    and acc: "nonce acc = nonce (acct s DRC payee)"
    and b1: "op_key ` set b1 = {KEscrowOwner (el_owner live)}"
    and b: "b = b0 @ [Put (KAccount DRC payee) (VAccount acc)] @ b1
                @ [Delete (KEscrowLive ?i), Put (KEscrowSettled ?i) (VHash txid), Put (KEscrowReceipt ?i) (VEscrowReceipt r)]"
    unfolding settles_def by blast
  let ?tail = "b1 @ [Delete (KEscrowLive ?i), Put (KEscrowSettled ?i) (VHash txid), Put (KEscrowReceipt ?i) (VEscrowReceipt r)]"
  have u: "uses_sequence op s (apply_batch (b0 @ []) s)" using charged_sequence [OF ch op, of "[]" "{}"] by simp
  have tail: "KAccount DRC a \<notin> batch_keys ?tail" "KTickets a \<notin> batch_keys ?tail" for a
    using b1 by (auto simp: image_Un)
  let ?s0 = "apply_batch b0 s" and ?s1 = "apply_batch (b0 @ [Put (KAccount DRC payee) (VAccount acc)]) s"
  have s': "apply_batch b s = apply_batch ?tail ?s1" by (simp add: b)
  have dn: "dnonce (apply_batch b s) a = (if a = payee then dnonce s a else dnonce ?s0 a)"
    and tk: "tickets_of (apply_batch b s) a = tickets_of ?s0 a" for a
    unfolding s' seq_frame [of ?tail, OF tail] using acc by (simp_all add: dnonce_def)
  have "seq_le s ?s0" and live: "is_drc op \<longrightarrow> \<not> retired s ?a (selector_of tx 2)"
    using u by (simp_all add: uses_sequence_def op)
  have "seq_le s (apply_batch b s)"
    unfolding seq_le_def
  proof (intro allI conjI ballI)
    fix a
    show "dnonce s a \<le> dnonce (apply_batch b s) a" using \<open>seq_le s ?s0\<close> by (simp add: dn seq_le_def)
    fix t assume t: "t \<in> set (tickets_of (apply_batch b s) a)"
    from ch obtain b0' before after where "b0 = b0' @ [Put (KAccount DRC ?a) (VAccount after)]"
      "consumes s ?a (selector_of tx 2) before after b0'" by (rule chargedE)
    then have "set (tickets_of ?s0 a) \<subseteq> set (tickets_of s a)"
      by (auto simp: consumes_def put_tickets_Ok(2) split: drc_account_sequence.splits if_splits)
    with t tk show "t \<in> set (tickets_of s a) \<or> dnonce s a \<le> t \<and> t < dnonce (apply_batch b s) a" by auto
  qed
  with live assms(3) show ?thesis by (auto simp: uses_sequence_def op)
qed

lemma runs_sequence:
  assumes "runs env auth score s op b j" and "well_typed s"
  shows "uses_sequence op s (apply_batch b s)"
proof (cases op)
  case (OpTicketCreate tx)
  with assms show ?thesis by (auto simp: runs_def dest: ticket_create_sequence split: option.splits)
next
  case (OpTransfer tx)
  with assms show ?thesis by (auto simp: runs_def dest: transfer_sequence split: option.splits)
next
  case (OpStake tx)
  with assms stake_sequence show ?thesis by (auto simp: runs_def split: option.splits)
next
  case (OpEscrowCreate tx)
  with assms obtain ctx i where "apply_drc_escrow_create env s tx ctx score = Ok (b, j, i)"
    by (auto simp: runs_def split: option.splits)
  then obtain b0 b1 where ch: "charged s (ec_owner tx) (selector_of tx 2) (unat (ec_amount tx) + unat (ec_fee tx)) b0 j"
    and b1: "op_key ` set b1 = {KEscrowOwner (ec_owner tx)}"
    and b: "b = b0 @ b1 @ [Put (KEscrowLive i) (VEscrowLive (new_escrow_live env tx score))]"
    by (rule escrow_create_Ok)
  show ?thesis
    unfolding OpEscrowCreate b
    by (rule charged_sequence [OF ch, of _ _ "{KEscrowOwner (ec_owner tx), KEscrowLive i}"])
       (simp_all add: b1 image_Un)
next
  case (OpEscrowFinish tx)
  with assms show ?thesis
    by (auto simp: runs_def elim!: escrow_finish_Ok intro: settles_sequence split: option.splits)
next
  case (OpEscrowCancel tx)
  with assms show ?thesis
    by (auto simp: runs_def elim!: escrow_cancel_Ok intro: settles_sequence split: option.splits)
next
  case (OpRegularKey tx)
  with assms obtain ctx r where "apply_drc_regular_key env s tx ctx = Ok (b, j, r)"
    by (auto simp: runs_def split: option.splits)
  then show ?thesis
    by (rule regular_key_Ok, unfold OpRegularKey, hypsubst)
       (rule charged_sequence [of _ _ _ _ _ _ _ _ "{KRegularKey (rk_owner tx)}"];
        simp split: drc_regular_key_action.split)
next
  case (OpSignerList tx)
  with assms obtain ctx r where "apply_drc_signer_list env s tx ctx = Ok (b, j, r)"
    by (auto simp: runs_def split: option.splits)
  then show ?thesis
    by (rule signer_list_Ok, unfold OpSignerList, hypsubst)
       (rule charged_sequence [of _ _ _ _ _ _ _ _ "{KSignerList (slt_owner tx)}"];
        simp split: drc_signer_list_action.split)
next
  case (OpPolicy tx)
  with assms obtain ctx r where "apply_drc_account_policy env s tx ctx = Ok (b, j, r)"
    by (auto simp: runs_def split: option.splits)
  then show ?thesis
    by (rule policy_Ok, unfold OpPolicy, hypsubst)
       (rule charged_sequence [of _ _ _ _ _ _ _ _ "{KPolicy (pt_account tx)}"]; auto dest: policy_writes_keys)
next
  case (OpPreauth tx)
  with assms obtain ctx r where "apply_drc_deposit_preauth env s tx ctx = Ok (b, j, r)"
    by (auto simp: runs_def split: option.splits)
  then show ?thesis
    by (rule preauth_Ok, unfold OpPreauth, hypsubst)
       (rule charged_sequence [of _ _ _ _ _ _ _ _ "{KPreauth (dpt_owner tx) (dpt_source tx)}"];
        simp split: drc_deposit_preauth_action.split)
qed

lemma step_sequence:
  assumes "ledger_step env auth score s op s'" and "well_typed s"
  shows "uses_sequence op s s'"
  using assms(1)
proof (cases rule: ledger_step.cases)
  case (step b j fb)
  have fam: "family_of k = Some FStake" if "k \<in> batch_keys fb" for k
    using that fee_batch_in_fee_keys [OF step(3)] fee_keys_family [of k "op_fee op"] by auto
  have "KAccount DRC a \<notin> batch_keys fb" "KTickets a \<notin> batch_keys fb" for a
    using fam [of "KAccount DRC a"] fam [of "KTickets a"] by auto
  from seq_frame [of fb, OF this] runs_sequence [OF step(2) assms(2)] show ?thesis
    unfolding step(1) by (simp add: uses_sequence_def seq_le_def retired_def split: prod.splits)
qed

section \<open>Where the units are\<close>

text \<open>
  The units of an asset outside its fee sink: balances, bonded and unbonding stake and, for DRC, live
  escrows. Fees go to the burned counter (DRC) or the reward pool (OVL).
\<close>

definition held :: "state_store \<Rightarrow> native_asset_id \<Rightarrow> nat" where
  "held s A = total_balance s A + staked s A + unbonding s A + (if A = DRC then escrowed s else 0)"

definition fee_sink :: "state_store \<Rightarrow> native_asset_id \<Rightarrow> nat" where
  "fee_sink s A = (if A = DRC then unat (burned_of s DRC) else unat (load_reward_pool s A))"

fun held_key :: "native_asset_id \<Rightarrow> meta_key \<Rightarrow> bool" where
  "held_key A (KAccount A' a) = (A' = A)"
| "held_key A (KValidator A' a) = (A' = A)"
| "held_key A (KUnbonding A' a) = (A' = A)"
| "held_key A (KEscrowLive i) = (A = DRC)"
| "held_key A _ = False"

lemma stake_parts_frame:
  assumes "\<And>k. k \<in> batch_keys b \<Longrightarrow> held_key A k \<Longrightarrow> \<exists>a i. k = KAccount A a \<or> k = KEscrowLive i"
  shows "staked (apply_batch b s) A = staked s A" and "unbonding (apply_batch b s) A = unbonding s A"
proof -
  have "KValidator A a \<notin> batch_keys b" "KUnbonding A a \<notin> batch_keys b" for a
    using assms [of "KValidator A a"] assms [of "KUnbonding A a"] by auto
  then show "staked (apply_batch b s) A = staked s A" "unbonding (apply_batch b s) A = unbonding s A"
    by (auto intro!: staked_cong unbonding_cong stored_frame)
qed

lemma held_frame:
  assumes "\<And>k. k \<in> batch_keys b \<Longrightarrow> \<not> held_key A k"
  shows "held (apply_batch b s) A = held s A"
proof -
  have no: "k \<notin> batch_keys b" if "held_key A k" for k using assms that by blast
  have "total_balance (apply_batch b s) A = total_balance s A"
    by (intro total_balance_frame no) simp
  moreover have "A = DRC \<Longrightarrow> escrowed (apply_batch b s) = escrowed s"
    by (intro escrowed_frame no) simp
  moreover have "staked (apply_batch b s) A = staked s A" "unbonding (apply_batch b s) A = unbonding s A"
    by (rule stake_parts_frame; use assms in blast)+
  ultimately show ?thesis by (simp add: held_def)
qed

lemma charged_held:
  assumes ch: "charged s owner sel paid b0 j" and b1: "batch_keys b1 \<subseteq> ks" and ks: "\<And>A k. k \<in> ks \<Longrightarrow> \<not> held_key A k"
  shows "held (apply_batch (b0 @ b1) s) A + (if A = DRC then paid else 0) = held s A"
proof (cases "A = DRC")
  case False
  have no: "\<not> held_key A k" if "k \<in> batch_keys (b0 @ b1)" for k
    using that False charged_keys [OF ch] b1 ks by (auto simp: image_Un)
  have "held (apply_batch (b0 @ b1) s) A = held s A" by (rule held_frame) (rule no)
  with False show ?thesis by simp
next
  case True
  have "held (apply_batch b1 (apply_batch b0 s)) DRC = held (apply_batch b0 s) DRC"
    using b1 ks by (intro held_frame) blast
  moreover have "escrowed (apply_batch b0 s) = escrowed s"
    using charged_keys [OF ch] by (intro escrowed_frame) auto
  moreover have "staked (apply_batch b0 s) DRC = staked s DRC" "unbonding (apply_batch b0 s) DRC = unbonding s DRC"
    using charged_keys [OF ch] by (auto intro!: stake_parts_frame)
  ultimately show ?thesis using True charged_total [OF ch] by (simp add: held_def)
qed

text \<open>What an operation pays, what a stake operation overwrites, what a settlement may leave uncharged.\<close>

definition paid_fee :: "ledger_op \<Rightarrow> native_asset_id \<Rightarrow> nat" where
  "paid_fee op A = (if fst (op_fee op) = A then unat (snd (op_fee op)) else 0)"

fun overwritten :: "state_store \<Rightarrow> ledger_op \<Rightarrow> native_asset_id \<Rightarrow> nat" where
  "overwritten s (OpStake tx) A = (if st_asset tx = A then stake_lost s tx else 0)"
| "overwritten s _ A = 0"

definition settlement_fee :: "ledger_op \<Rightarrow> native_asset_id \<Rightarrow> nat" where
  "settlement_fee op A = (if settled_id op = None then 0 else paid_fee op A)"

definition accounts_for :: "ledger_op \<Rightarrow> native_asset_id \<Rightarrow> state_store \<Rightarrow> state_store \<Rightarrow> bool" where
  "accounts_for op A s s' \<longleftrightarrow>
     (\<exists>w \<le> settlement_fee op A. held s' A + paid_fee op A + overwritten s op A = held s A + w)"

lemma charged_accounts:
  assumes "charged s owner sel (unat fee) b0 j" and "batch_keys b1 \<subseteq> ks" and "\<And>A k. k \<in> ks \<Longrightarrow> \<not> held_key A k"
    and "op_fee op = (DRC, fee)" and "\<And>tx. op \<noteq> OpStake tx"
  shows "accounts_for op A s (apply_batch (b0 @ b1) s)"
  using charged_held [OF assms(1-3), of A] assms(4,5)
  by (cases op) (auto simp: accounts_for_def paid_fee_def split: if_splits)

lemma ticket_create_accounts:
  assumes "apply_drc_ticket_create env s tx auth = Ok (b, j, t)"
  shows "accounts_for (OpTicketCreate tx) A s (apply_batch b s)"
proof -
  obtain owner' b2 where b: "b = Put (KAccount DRC (tc_owner tx)) (VAccount owner') # b2"
    and put: "put_tickets_into (tc_owner tx) (sort (tickets_of s (tc_owner tx) @ [t])) = Ok b2"
    and bal: "unat (balance owner') + unat (tc_fee tx) = unat (balance (acct s DRC (tc_owner tx)))"
    by (rule ticket_create_Ok [OF assms])
  let ?s1 = "apply_batch [Put (KAccount DRC (tc_owner tx)) (VAccount owner')] s"
  have keys: "batch_keys b2 = {KTickets (tc_owner tx)}" by (rule put_tickets_Ok(1) [OF put])
  have "held (apply_batch b2 ?s1) A = held ?s1 A" by (rule held_frame) (simp add: keys)
  moreover have "held ?s1 A + (if A = DRC then unat (tc_fee tx) else 0) = held s A"
  proof (cases "A = DRC")
    case True
    have "escrowed ?s1 = escrowed s" by (rule escrowed_frame) simp
    moreover have "staked ?s1 DRC = staked s DRC" "unbonding ?s1 DRC = unbonding s DRC"
      by (rule stake_parts_frame; simp)+
    ultimately show ?thesis
      using True bal total_balance_put [of DRC "tc_owner tx" owner' s] by (simp add: held_def)
  next
    case False
    have "held ?s1 A = held s A" by (rule held_frame) (use False in auto)
    with False show ?thesis by simp
  qed
  ultimately show ?thesis by (simp add: accounts_for_def paid_fee_def b settlement_fee_def split: if_splits)
qed

lemma transfer_accounts:
  assumes "apply_account_transfer_checked env s tx auth = Ok (b, j)"
  shows "accounts_for (OpTransfer tx) A s (apply_batch b s)"
proof -
  obtain b0 from' to' where ne: "at_from tx \<noteq> at_to tx"
    and b: "b = b0 @ [Put (KAccount (at_asset tx) (at_from tx)) (VAccount from'),
               Put (KAccount (at_asset tx) (at_to tx)) (VAccount to')]"
    and x: "unat (balance from') + unat (at_amount tx) + unat (at_fee tx)
       = unat (balance (acct s (at_asset tx) (at_from tx)))"
    and y: "unat (balance to') = unat (balance (acct s (at_asset tx) (at_to tx))) + unat (at_amount tx)"
    and drc: "at_asset tx = DRC \<Longrightarrow> \<exists>before. nonce before = nonce (acct s DRC (at_from tx))
       \<and> consumes s (at_from tx) (selector_of tx 3) before from' b0"
    and other: "at_asset tx \<noteq> DRC \<Longrightarrow> b0 = []"
    by (rule transfer_Ok [OF assms]) blast
  have b0: "op_key ` set b0 \<subseteq> {KTickets (at_from tx)}"
    using drc other by (cases "at_asset tx = DRC") (blast dest: consumes_keys, simp)
  have keys: "batch_keys b \<subseteq> {KTickets (at_from tx), KAccount (at_asset tx) (at_from tx), KAccount (at_asset tx) (at_to tx)}"
    using b0 by (auto simp: b)
  show ?thesis
  proof (cases "A = at_asset tx")
    case False
    have "held (apply_batch b s) A = held s A" by (rule held_frame) (use keys False in auto)
    with False show ?thesis by (auto simp: accounts_for_def paid_fee_def)
  next
    case True
    have "escrowed (apply_batch b s) = escrowed s" using keys by (intro escrowed_frame) auto
    moreover have "staked (apply_batch b s) A = staked s A" "unbonding (apply_batch b s) A = unbonding s A"
      using keys by (auto intro!: stake_parts_frame)
    ultimately show ?thesis
      using True transfer_total [OF b b0 ne x y] by (auto simp: accounts_for_def paid_fee_def held_def settlement_fee_def)
  qed
qed

lemma escrow_create_accounts:
  assumes "apply_drc_escrow_create env s tx auth score = Ok (b, j, i)"
  shows "accounts_for (OpEscrowCreate tx) A s (apply_batch b s)"
proof -
  obtain b0 b1 where ch: "charged s (ec_owner tx) (selector_of tx 2) (unat (ec_amount tx) + unat (ec_fee tx)) b0 j"
    and b1: "op_key ` set b1 = {KEscrowOwner (ec_owner tx)}"
    and b: "b = b0 @ b1 @ [Put (KEscrowLive i) (VEscrowLive (new_escrow_live env tx score))]"
    by (rule escrow_create_Ok [OF assms])
  have keys: "batch_keys b \<subseteq> {KAccount DRC (ec_owner tx), KTickets (ec_owner tx), KEscrowOwner (ec_owner tx), KEscrowLive i}"
    using charged_keys [OF ch] b1 by (auto simp: b)
  show ?thesis
  proof (cases "A = DRC")
    case False
    have "held (apply_batch b s) A = held s A" by (rule held_frame) (use keys False in auto)
    with False show ?thesis by (auto simp: accounts_for_def paid_fee_def)
  next
    case True
    have "staked (apply_batch b s) DRC = staked s DRC" "unbonding (apply_batch b s) DRC = unbonding s DRC"
      using keys by (auto intro!: stake_parts_frame)
    with True create_total [OF assms] show ?thesis
      by (simp add: accounts_for_def paid_fee_def held_def settlement_fee_def)
  qed
qed

lemma settles_accounts:
  assumes "settles s tx payee live b j r" and op: "op_fee op = (DRC, es_fee tx)" "settled_id op \<noteq> None"
  shows "accounts_for op A s (apply_batch b s)"
proof -
  have over: "overwritten s op A = 0" using op(2) by (cases op) auto
  from settles_journaled [OF assms(1)] have keys: "k \<in> set (settle_keys s tx) \<or> (\<exists>a. k = KAccount DRC a)"
    if "k \<in> batch_keys b" for k
  proof -
    from assms(1) obtain b0 j0 where "charged s (es_submitter tx) (selector_of tx 2) (unat (es_fee tx)) b0 j0"
      "j = j0 @ [(DRC, payee, acct s DRC payee)]" unfolding settles_def by blast
    then have "set j = {(DRC, es_submitter tx, acct s DRC (es_submitter tx)), (DRC, payee, acct s DRC payee)}"
      by (auto elim!: chargedE)
    with settles_journaled [OF assms(1)] that show ?thesis by (auto simp: journaled_def)
  qed
  have sk: "\<not> held_key A' k \<or> A' = DRC \<and> (\<exists>i. k = KEscrowLive i)" if "k \<in> set (settle_keys s tx)" for k A'
    using that by (auto simp: settle_keys_def escrow_meta_keys_for_settlement_def split: sum.splits option.splits)
  show ?thesis
  proof (cases "A = DRC")
    case False
    have "\<not> held_key A k" if "k \<in> batch_keys b" for k
      using keys [OF that] sk [of k A] False by auto
    then have "held (apply_batch b s) A = held s A" by (intro held_frame)
    with False op over show ?thesis by (auto simp: accounts_for_def paid_fee_def)
  next
    case True
    have "\<exists>a i. k = KAccount DRC a \<or> k = KEscrowLive i" if "k \<in> batch_keys b" "held_key DRC k" for k
      using keys [OF that(1)] sk [of k DRC] that(2) by blast
    then have "staked (apply_batch b s) DRC = staked s DRC" "unbonding (apply_batch b s) DRC = unbonding s DRC"
      by (auto intro!: stake_parts_frame)
    moreover note settles_total(1,2) [OF assms(1)]
    ultimately have "held (apply_batch b s) DRC + unat (es_fee tx)
        = held s DRC + (if es_submitter tx = payee then unat (es_fee tx) else 0)"
      by (auto simp: held_def split: if_splits)
    then show ?thesis using True op over
      by (auto simp: accounts_for_def paid_fee_def settlement_fee_def split: if_splits)
  qed
qed

lemma stake_batch_keys:
  assumes "run_stake env s tx ctx = Ok (b, j)" and "well_typed s"
  shows "batch_keys b \<subseteq> stake_keys tx \<union> {KTickets (st_actor tx)}"
proof -
  from assms(1) obtain p where p: "params_for_stake_asset (st_asset tx) = Ok p"
    and run: "apply_signed_stake_tx env s tx ctx p = Ok b" by (auto simp: run_stake_def)
  obtain b1 after b0 account' where
    b: "b = b1 @ b0 @ [Put (KAccount (sp_asset p) (st_actor tx)) (VAccount account')]"
    and eff: "effect_ok s p tx (acct s (sp_asset p) (st_actor tx)) b1 after"
    and b0: "op_key ` set b0 \<subseteq> {KTickets (st_actor tx)}"
    by (rule stake_Ok [OF run well_typed_keyed [OF assms(2)]]) blast
  have "batch_keys b1 \<subseteq> stake_keys tx" using eff by (simp add: effect_ok_def)
  then show ?thesis using b0 params_asset [OF p] by (auto simp: b stake_keys_def)
qed

lemma stake_accounts:
  assumes "run_stake env s tx ctx = Ok (b, j)" and "well_typed s"
  shows "accounts_for (OpStake tx) A s (apply_batch b s)"
proof -
  from assms(1) obtain p where p: "params_for_stake_asset (st_asset tx) = Ok p"
    and run: "apply_signed_stake_tx env s tx ctx p = Ok b" by (auto simp: run_stake_def)
  note P = params_asset [OF p] and K = well_typed_keyed [OF assms(2)] and keys = stake_batch_keys [OF assms]
  show ?thesis
  proof (cases "A = st_asset tx")
    case False
    have "held (apply_batch b s) A = held s A"
      by (rule held_frame) (use keys False in \<open>auto simp: stake_keys_def\<close>)
    with False show ?thesis by (auto simp: accounts_for_def paid_fee_def)
  next
    case True
    have "escrowed (apply_batch b s) = escrowed s"
      using keys by (intro escrowed_frame) (auto simp: stake_keys_def)
    with True P stake_total_after(1) [OF run K] show ?thesis
      by (auto simp: accounts_for_def paid_fee_def held_def stake_total_def settlement_fee_def)
  qed
qed

lemma runs_accounts:
  assumes "runs env auth score s op b j" and "well_typed s"
  shows "accounts_for op A s (apply_batch b s)"
proof (cases op)
  case (OpTicketCreate tx)
  with assms show ?thesis by (auto simp: runs_def dest: ticket_create_accounts split: option.splits)
next
  case (OpTransfer tx)
  with assms show ?thesis by (auto simp: runs_def dest: transfer_accounts split: option.splits)
next
  case (OpStake tx)
  with assms stake_accounts show ?thesis by (auto simp: runs_def split: option.splits)
next
  case (OpEscrowCreate tx)
  with assms show ?thesis by (auto simp: runs_def dest: escrow_create_accounts split: option.splits)
next
  case (OpEscrowFinish tx)
  with assms show ?thesis
    by (auto simp: runs_def elim!: escrow_finish_Ok intro: settles_accounts split: option.splits)
next
  case (OpEscrowCancel tx)
  with assms show ?thesis
    by (auto simp: runs_def elim!: escrow_cancel_Ok intro: settles_accounts split: option.splits)
next
  case (OpRegularKey tx)
  with assms obtain ctx r where "apply_drc_regular_key env s tx ctx = Ok (b, j, r)"
    by (auto simp: runs_def split: option.splits)
  then show ?thesis
    by (rule regular_key_Ok, unfold OpRegularKey, hypsubst)
       (rule charged_accounts [of _ _ _ _ _ _ _ "{KRegularKey (rk_owner tx)}"];
        simp split: drc_regular_key_action.split)
next
  case (OpSignerList tx)
  with assms obtain ctx r where "apply_drc_signer_list env s tx ctx = Ok (b, j, r)"
    by (auto simp: runs_def split: option.splits)
  then show ?thesis
    by (rule signer_list_Ok, unfold OpSignerList, hypsubst)
       (rule charged_accounts [of _ _ _ _ _ _ _ "{KSignerList (slt_owner tx)}"];
        simp split: drc_signer_list_action.split)
next
  case (OpPolicy tx)
  with assms obtain ctx r where "apply_drc_account_policy env s tx ctx = Ok (b, j, r)"
    by (auto simp: runs_def split: option.splits)
  then show ?thesis
    by (rule policy_Ok, unfold OpPolicy, hypsubst)
       (rule charged_accounts [of _ _ _ _ _ _ _ "{KPolicy (pt_account tx)}"]; auto dest: policy_writes_keys)
next
  case (OpPreauth tx)
  with assms obtain ctx r where "apply_drc_deposit_preauth env s tx ctx = Ok (b, j, r)"
    by (auto simp: runs_def split: option.splits)
  then show ?thesis
    by (rule preauth_Ok, unfold OpPreauth, hypsubst)
       (rule charged_accounts [of _ _ _ _ _ _ _ "{KPreauth (dpt_owner tx) (dpt_source tx)}"];
        simp split: drc_deposit_preauth_action.split)
qed

text \<open>The fee that leaves the holdings arrives in the sink.\<close>

lemma sink_frame:
  assumes "KBurned DRC \<notin> batch_keys b" and "KRewardPool A \<notin> batch_keys b"
  shows "fee_sink (apply_batch b s) A = fee_sink s A"
  using assms by (simp add: fee_sink_def burned_of_def load_reward_pool_def stored_frame)

lemma fee_batch_sink:
  assumes "fee_batch s (A', fee) = Ok fb" and "A \<noteq> TLT" and "A' \<noteq> TLT"
    and s1: "stored as_u64 s1 (KBurned DRC) = stored as_u64 s (KBurned DRC)"
      "\<And>A. stored as_u64 s1 (KRewardPool A) = stored as_u64 s (KRewardPool A)"
  shows "fee_sink (apply_batch fb s1) A = fee_sink s A + (if A' = A then unat fee else 0)"
  using fee_batch_Ok [OF assms(1)]
proof (elim disjE conjE exE)
  assume A': "A' = DRC" and burn: "burn_drc_fee_into s fee = Ok fb"
  show ?thesis
  proof (cases "fee = 0")
    case True
    with burn have "fb = []" by (auto simp: burn_drc_fee_into_def Let_def split: if_splits)
    with True s1 show ?thesis by (simp add: fee_sink_def burned_of_def load_reward_pool_def)
  next
    case False
    with burn obtain v n where v: "load_burned_supply s DRC = Ok v" "checked_add v fee = Some n"
      and fb: "fb = [Put (KBurned DRC) (VU64 n)]"
      by (auto simp: burn_drc_fee_into_def Let_def put_burned_supply_into_def split: if_splits)
    have "unat n = unat (burned_of s DRC) + unat fee"
      using load_burned_of [OF v(1)] checked_add_Some [OF v(2)] by simp
    with A' fb s1 show ?thesis by (simp add: fee_sink_def burned_of_def load_reward_pool_def)
  qed
next
  assume "A' \<noteq> DRC" "fee = 0" "fb = []"
  with s1 show ?thesis by (simp add: fee_sink_def burned_of_def load_reward_pool_def)
next
  fix v assume A': "A' = OVL" and cr: "credit_fee_share_to_reward_pool s OVL fee = Ok (fb, v)"
  then obtain n where n: "checked_add (load_reward_pool s OVL) fee = Some n" and fb: "fb = [Put (KRewardPool OVL) (VU64 n)]"
    by (auto simp: credit_fee_share_to_reward_pool_def credit_reward_pool_into_def put_reward_pool_into_def)
  from checked_add_Some [OF n] A' fb s1 assms(2) show ?thesis
    by (cases A) (simp_all add: fee_sink_def burned_of_def load_reward_pool_def)
qed

lemma runs_not_sink:
  assumes "runs env auth score s op b j" and "well_typed s"
  shows "KBurned A \<notin> batch_keys b" and "KRewardPool A \<notin> batch_keys b"
proof -
  have "KBurned A \<notin> batch_keys b \<and> KRewardPool A \<notin> batch_keys b"
  proof (cases "\<exists>tx. op = OpStake tx")
    case True
    then obtain tx where op: "op = OpStake tx" by blast
    with assms(1) obtain ctx where "run_stake env s tx ctx = Ok (b, j)" by (auto simp: runs_def split: option.splits)
    from stake_batch_keys [OF this assms(2)] show ?thesis by (auto simp: stake_keys_def)
  next
    case False
    then have "KBurned A \<notin> set (op_meta env s op)" "KRewardPool A \<notin> set (op_meta env s op)"
      by (cases op; auto simp: escrow_meta_keys_for_create_def settle_keys_def escrow_meta_keys_for_settlement_def
          split: sum.splits option.splits)+
    with runs_journaled [OF assms] show ?thesis by (auto simp: journaled_def)
  qed
  then show "KBurned A \<notin> batch_keys b" "KRewardPool A \<notin> batch_keys b" by blast+
qed

lemma runs_fee_asset:
  assumes "runs env auth score s op b j" shows "fst (op_fee op) \<noteq> TLT"
proof (cases op)
  case (OpTransfer tx)
  with assms have "\<exists>auth. apply_account_transfer_checked env s tx auth = Ok (b, j)"
    by (auto simp: runs_def split: option.splits)
  with OpTransfer show ?thesis by (auto simp: apply_account_transfer_checked_def split: if_splits)
qed simp_all

lemma step_accounts:
  assumes "ledger_step env auth score s op s'" and "well_typed s" and "A \<noteq> TLT"
  shows "\<exists>w \<le> settlement_fee op A. held s' A + fee_sink s' A + overwritten s op A = held s A + fee_sink s A + w"
  using assms(1)
proof (cases rule: ledger_step.cases)
  case (step b j fb)
  obtain A' fee where f: "op_fee op = (A', fee)" by (cases "op_fee op")
  have A': "A' \<noteq> TLT" using runs_fee_asset [OF step(2)] f by simp
  have fam: "family_of k = Some FStake \<and> k \<in> set (fee_keys (op_fee op))" if "k \<in> batch_keys fb" for k
    using that fee_batch_in_fee_keys [OF step(3)] fee_keys_family [of k "op_fee op"] by auto
  have "\<not> held_key A k" if "k \<in> batch_keys fb" for k
    using fam [OF that] f by (auto split: if_splits native_asset_id.splits)
  then have held: "held s' A = held (apply_batch b s) A" unfolding step(1) by (simp add: held_frame)
  have sink: "fee_sink s' A = fee_sink s A + (if A' = A then unat fee else 0)"
    unfolding step(1) apply_batch_simps
    by (rule fee_batch_sink [OF step(3) [unfolded f] assms(3) A'])
       (simp_all add: stored_frame runs_not_sink [OF step(2) assms(2)])
  from runs_accounts [OF step(2) assms(2), of A] obtain w where "w \<le> settlement_fee op A"
    "held (apply_batch b s) A + paid_fee op A + overwritten s op A = held s A + w"
    by (auto simp: accounts_for_def)
  with held sink show ?thesis by (intro exI [of _ w]) (auto simp: paid_fee_def f)
qed

section \<open>Escrows are settled once\<close>

lemma runs_settled_frame:
  assumes "runs env auth score s op b j" and "well_typed s" and "settled_id op = None"
  shows "KEscrowSettled i \<notin> batch_keys b"
proof (cases "\<exists>tx. op = OpEscrowCreate tx")
  case True
  then obtain tx where "op = OpEscrowCreate tx" by blast
  with assms(1) obtain ctx i' where "apply_drc_escrow_create env s tx ctx score = Ok (b, j, i')"
    by (auto simp: runs_def split: option.splits)
  then obtain b0 b1 where ch: "charged s (ec_owner tx) (selector_of tx 2) (unat (ec_amount tx) + unat (ec_fee tx)) b0 j"
    and "op_key ` set b1 = {KEscrowOwner (ec_owner tx)}"
    and "b = b0 @ b1 @ [Put (KEscrowLive i') (VEscrowLive (new_escrow_live env tx score))]"
    by (rule escrow_create_Ok)
  with charged_keys [OF ch] show ?thesis by (auto simp: image_Un)
next
  case False
  then have "KEscrowSettled i \<notin> set (op_meta env s op)"
    using assms(3) by (cases op) (auto simp: stake_meta_keys_touched_def)
  with runs_journaled [OF assms(1,2)] show ?thesis by (auto simp: journaled_def)
qed

lemma runs_settles:
  assumes "runs env auth score s op b j" and "settled_id op = Some i"
  obtains tx payee live r where "settles s tx payee live b j r" "es_escrow_id tx = i"
  using assms
  by (cases op) (auto simp: runs_def split: option.splits elim!: escrow_finish_Ok escrow_cancel_Ok)

lemma step_settled:
  assumes "ledger_step env auth score s op s'" and "well_typed s"
  shows "get_cf s (KEscrowSettled i) \<noteq> None \<Longrightarrow> get_cf s' (KEscrowSettled i) \<noteq> None"
    and "settled_id op = Some i \<Longrightarrow> get_cf s (KEscrowSettled i) = None \<and> get_cf s' (KEscrowSettled i) \<noteq> None"
proof -
  from assms(1) obtain b j fb where s': "s' = apply_batch (b @ fb) s" and run: "runs env auth score s op b j"
    and fee: "fee_batch s (op_fee op) = Ok fb" by (rule ledger_step.cases) blast
  have "KEscrowSettled i \<notin> batch_keys fb" for i
    using fee_batch_in_fee_keys [OF fee] fee_keys_family [of "KEscrowSettled i" "op_fee op"] by auto
  then have eq: "get_cf s' (KEscrowSettled i) = get_cf (apply_batch b s) (KEscrowSettled i)" for i
    by (simp add: s' get_cf_frame)
  have own: "get_cf s (KEscrowSettled i) = None \<and> get_cf s' (KEscrowSettled i) \<noteq> None" if op: "settled_id op = Some i" for i
  proof -
    obtain tx payee live r where st: "settles s tx payee live b j r" "es_escrow_id tx = i"
      by (rule runs_settles [OF run op])
    then have "get_cf s (KEscrowSettled i) = None" by (auto simp: settles_def)
    with settles_total(6) [OF st(1)] st(2) eq show ?thesis by simp
  qed
  then show "settled_id op = Some i \<Longrightarrow> get_cf s (KEscrowSettled i) = None \<and> get_cf s' (KEscrowSettled i) \<noteq> None" .
  show "get_cf s' (KEscrowSettled i) \<noteq> None" if before: "get_cf s (KEscrowSettled i) \<noteq> None"
  proof (cases "settled_id op")
    case None
    from runs_settled_frame [OF run assms(2) None] before show ?thesis by (simp add: eq get_cf_frame)
  next
    case (Some i')
    obtain tx payee live r where st: "settles s tx payee live b j r" "es_escrow_id tx = i'"
      by (rule runs_settles [OF run Some])
    have "i \<noteq> i'" using own [OF Some] before by auto
    from st obtain b0 j0 acc b1 txid where
      ch: "charged s (es_submitter tx) (selector_of tx 2) (unat (es_fee tx)) b0 j0"
      and "op_key ` set b1 = {KEscrowOwner (el_owner live)}"
      and "b = b0 @ [Put (KAccount DRC payee) (VAccount acc)] @ b1
                @ [Delete (KEscrowLive i'), Put (KEscrowSettled i') (VHash txid), Put (KEscrowReceipt i') (VEscrowReceipt r)]"
      unfolding settles_def by blast
    with charged_keys [OF ch] \<open>i \<noteq> i'\<close> have "KEscrowSettled i \<notin> batch_keys b" by (auto simp: image_Un)
    with before show ?thesis by (simp add: eq get_cf_frame)
  qed
qed

end
