(* ===== verification/Block_Properties.thy ===== *)
theory Block_Properties
  imports Ledger_Invariants
begin

text \<open>
  The properties of block application over the account lanes: it is the ledger run of the accepted
  operations, keeps every record well typed, can be reverted from its journal, locks nobody out, uses
  every sequence and settles every escrow once, and accounts for every unit.
\<close>

section \<open>Invariants along a run\<close>

lemma run_well_typed: "ledger_run env auth score s ops s' \<Longrightarrow> well_typed s \<Longrightarrow> well_typed s'"
  by (induction rule: ledger_run.induct) (auto dest: step_well_typed)

lemma run_recoverable:
  "ledger_run env auth score s ops s' \<Longrightarrow> well_typed s \<Longrightarrow> \<forall>a. recoverable s a \<Longrightarrow> \<forall>a. recoverable s' a"
  by (induction rule: ledger_run.induct) (auto dest: step_well_typed step_recoverable)

lemma seq_le_trans: "seq_le s s1 \<Longrightarrow> seq_le s1 s2 \<Longrightarrow> seq_le s s2"
  unfolding seq_le_def by (meson dual_order.trans less_le_trans)

lemma run_sequences:
  assumes "ledger_run env auth score s ops s'" and "well_typed s" and "tickets_below s"
  shows "seq_le s s'"
    and "\<forall>op \<in> set ops. is_drc op \<longrightarrow> \<not> retired s (fst (op_sequence op)) (snd (op_sequence op))"
    and "\<forall>op \<in> set ops. is_drc op \<and> settled_id op = None \<longrightarrow>
           retired s' (fst (op_sequence op)) (snd (op_sequence op))"
proof -
  have "seq_le s s' \<and> (\<forall>op \<in> set ops. is_drc op \<longrightarrow> \<not> retired s (fst (op_sequence op)) (snd (op_sequence op)))
    \<and> (\<forall>op \<in> set ops. is_drc op \<and> settled_id op = None \<longrightarrow> retired s' (fst (op_sequence op)) (snd (op_sequence op)))"
    using assms
  proof (induction rule: ledger_run.induct)
    case (nil s)
    then show ?case by (simp add: seq_le_refl)
  next
    case (cons s op s1 ops s2)
    have u: "uses_sequence op s s1" by (rule step_sequence [OF cons.hyps(1) cons.prems(1)])
    then have le: "seq_le s s1" by (simp add: uses_sequence_def split: prod.splits)
    have IH: "seq_le s1 s2" "\<forall>op \<in> set ops. is_drc op \<longrightarrow> \<not> retired s1 (fst (op_sequence op)) (snd (op_sequence op))"
      "\<forall>op \<in> set ops. is_drc op \<and> settled_id op = None \<longrightarrow> retired s2 (fst (op_sequence op)) (snd (op_sequence op))"
      using cons.IH step_well_typed [OF cons.hyps(1) cons.prems(1)] seq_le_tickets_below [OF le cons.prems(2)] by blast+
    then show ?case
      using u le cons.prems(2) seq_le_trans [OF le IH(1)] seq_le_retired [OF le] seq_le_retired [OF IH(1)]
      by (auto simp: uses_sequence_def split: prod.splits)
  qed
  then show "seq_le s s'"
    "\<forall>op \<in> set ops. is_drc op \<longrightarrow> \<not> retired s (fst (op_sequence op)) (snd (op_sequence op))"
    "\<forall>op \<in> set ops. is_drc op \<and> settled_id op = None \<longrightarrow> retired s' (fst (op_sequence op)) (snd (op_sequence op))"
    by blast+
qed

definition settled_ids :: "ledger_op list \<Rightarrow> hash list" where
  "settled_ids ops = List.map_filter settled_id ops"

lemma settled_ids_simps [simp]:
  "settled_ids [] = []"
  "settled_ids (op # ops) = (case settled_id op of Some i \<Rightarrow> i # settled_ids ops | None \<Rightarrow> settled_ids ops)"
  by (simp_all add: settled_ids_def List.map_filter_simps split: option.split)

lemma run_settled:
  assumes "ledger_run env auth score s ops s'" and "well_typed s"
  shows "(\<forall>i. get_cf s (KEscrowSettled i) \<noteq> None \<longrightarrow> get_cf s' (KEscrowSettled i) \<noteq> None)
    \<and> distinct (settled_ids ops)
    \<and> (\<forall>i \<in> set (settled_ids ops). get_cf s (KEscrowSettled i) = None \<and> get_cf s' (KEscrowSettled i) \<noteq> None)"
  using assms
proof (induction rule: ledger_run.induct)
  case (cons s op s1 ops s2)
  note st = step_settled [OF cons.hyps(1) cons.prems] and IH = cons.IH [OF step_well_typed [OF cons.hyps(1) cons.prems]]
  have prior: "get_cf s1 (KEscrowSettled i) = None \<Longrightarrow> get_cf s (KEscrowSettled i) = None" for i using st(1) by blast
  show ?case
  proof (cases "settled_id op")
    case None
    with IH st(1) prior show ?thesis by simp
  next
    case (Some i)
    with IH st(1) st(2) [OF Some] prior show ?thesis by auto
  qed
qed simp

definition waived :: "ledger_op list \<Rightarrow> native_asset_id \<Rightarrow> nat" where
  "waived ops A = sum_list (map (\<lambda>op. settlement_fee op A) ops)"

fun replaces_stake :: "native_asset_id \<Rightarrow> ledger_op \<Rightarrow> bool" where
  "replaces_stake A (OpStake tx) = (st_asset tx = A \<and> st_kind tx \<in> {Bond, UnbondSelf})"
| "replaces_stake A _ = False"

lemma overwritten_0: "\<not> replaces_stake A op \<Longrightarrow> overwritten s op A = 0"
  by (cases op) (auto simp: stake_lost_def split: stake_op_kind.splits)

lemma run_units:
  assumes "ledger_run env auth score s ops s'" and "well_typed s" and "A \<noteq> TLT"
    and "\<forall>op \<in> set ops. \<not> replaces_stake A op"
  shows "held s A + fee_sink s A \<le> held s' A + fee_sink s' A
    \<and> held s' A + fee_sink s' A \<le> held s A + fee_sink s A + waived ops A"
  using assms
proof (induction rule: ledger_run.induct)
  case (cons s op s1 ops s2)
  from step_accounts [OF cons.hyps(1) cons.prems(1,2)] cons.prems(3) obtain w where
    "w \<le> settlement_fee op A" "held s1 A + fee_sink s1 A = held s A + fee_sink s A + w"
    by (auto simp: overwritten_0)
  moreover have "held s1 A + fee_sink s1 A \<le> held s2 A + fee_sink s2 A
    \<and> held s2 A + fee_sink s2 A \<le> held s1 A + fee_sink s1 A + waived ops A"
    using cons.IH step_well_typed [OF cons.hyps(1) cons.prems(1)] cons.prems by simp
  ultimately show ?case by (simp add: waived_def)
qed (simp add: waived_def)

section \<open>What a block does\<close>

lemma trivial_invariant: "lane_invariant env auth score (\<lambda>_. True)"
  by (simp add: lane_invariant_def)

text \<open>The run a successful block application performed.\<close>

lemma block_run:
  assumes "apply_trident_lanes env s block auth score mode = Ok (st, ss)"
  shows "length (concat ss) = length (block_ops block)"
    and "ledger_run env auth (case score of Some v \<Rightarrow> v | None \<Rightarrow> 0) s
           (accepted_ops (block_ops block) (concat ss)) (ls_lane st)"
    and "ls_lane st = apply_batch (ls_batch st) s"
  using block_lanes_run [OF assms trivial_invariant] by (auto simp: lanes_run_def lane_start_def)

lemma accepted_subset: "set (accepted_ops ops vs) \<subseteq> set ops"
  by (auto simp: accepted_ops_def dest: set_zip_leftD)

lemma settled_ids_accepted: "settled_ids ops = [] \<Longrightarrow> waived ops A = 0"
  by (induction ops) (auto simp: waived_def settlement_fee_def split: option.splits)

lemma well_typed_loads:
  assumes "well_typed s"
  shows "asset \<noteq> TLT \<Longrightarrow> load_account s asset a = Ok (acct s asset a)"
    and "load_drc_account_tickets s a = Ok (tickets_of s a)"
    and "\<exists>p. load_drc_account_policy s a = Ok p"
    and "load_drc_account_regular_key s a = Ok (regular_key_of s a)"
    and "load_drc_account_signer_list s a = Ok (signer_list_of s a)"
    and "load_drc_deposit_preauth s a src = Ok (get_cf s (KPreauth a src) \<noteq> None)"
    and "\<exists>l. load_drc_escrow_live s i = Ok l"
    and "\<exists>l. load_owner_index s a = Ok l"
    and "\<exists>v. load_validator s asset a = Ok v"
    and "\<exists>v. load_delegation s asset d a = Ok v"
proof -
  have t: "get_cf s k = Some v \<Longrightarrow> typed_at k v" for k v using assms by (simp add: well_typed_def)
  show "asset \<noteq> TLT \<Longrightarrow> load_account s asset a = Ok (acct s asset a)"
    using t [of "KAccount asset a"] by (auto simp: load_account_def acct_def stored_def decode_as_def split: option.splits)
  show "load_drc_account_tickets s a = Ok (tickets_of s a)"
    using t [of "KTickets a"] by (auto simp: load_drc_account_tickets_def tickets_of_def stored_def decode_as_def bind_result_def split: option.splits)
  show "\<exists>p. load_drc_account_policy s a = Ok p"
    using t [of "KPolicy a"] by (auto simp: load_drc_account_policy_def decode_as_def bind_result_def split: option.splits)
  show "load_drc_account_regular_key s a = Ok (regular_key_of s a)"
    using t [of "KRegularKey a"]
    by (auto simp: load_drc_account_regular_key_def regular_key_of_def stored_def decode_as_def bind_result_def
        split: option.splits)
  show "load_drc_account_signer_list s a = Ok (signer_list_of s a)"
    using t [of "KSignerList a"]
    by (auto simp: load_drc_account_signer_list_def signer_list_of_def stored_def decode_as_def bind_result_def
        split: option.splits)
  show "load_drc_deposit_preauth s a src = Ok (get_cf s (KPreauth a src) \<noteq> None)"
    using t [of "KPreauth a src"]
    by (auto simp: load_drc_deposit_preauth_def decode_as_def bind_result_def split: option.splits)
  show "\<exists>l. load_drc_escrow_live s i = Ok l"
    using t [of "KEscrowLive i"] by (auto simp: load_drc_escrow_live_def decode_as_def bind_result_def split: option.splits)
  show "\<exists>l. load_owner_index s a = Ok l"
    using t [of "KEscrowOwner a"] by (auto simp: load_owner_index_def decode_as_def bind_result_def split: option.splits)
  show "\<exists>v. load_validator s asset a = Ok v"
    using t [of "KValidator asset a"] by (auto simp: load_validator_def decode_as_def bind_result_def split: option.splits)
  show "\<exists>v. load_delegation s asset d a = Ok v"
    using t [of "KDelegation asset d a"] by (auto simp: load_delegation_def decode_as_def bind_result_def split: option.splits)
qed

section \<open>A concrete block\<close>

text \<open>
  Account 7 mints a ticket and pays account 9 with an older one, the payment appearing twice; account 8
  finishes an escrow of account 5 in favour of 7.
\<close>

definition block_store :: state_store where
  "block_store =
     [(KSchema, VU32 22), (KIssued DRC, VU64 1000), (KBurned DRC, VU64 0),
      (KAccount DRC 7, VAccount \<lparr>balance = 100, nonce = 4\<rparr>), (KAccount DRC 8, VAccount \<lparr>balance = 50, nonce = 0\<rparr>),
      (KTickets 7, VTickets \<lparr>dt_version = 1, dt_owner = 7, dt_sequences = [1, 3]\<rparr>),
      (KEscrowLive 77, VEscrowLive demo_escrow),
      (KEscrowOwner 5, VEscrowOwner \<lparr>oi_version = 1, oi_owner = 5, oi_live_ids = [77]\<rparr>)]"

definition demo_ticket :: drc_ticket_create_tx where
  "demo_ticket = \<lparr>tx_version = 1, tx_nonce = 4, tx_public_key = replicate 33 7, tx_signature = replicate 64 7,
     tx_multisign = None, tc_owner = 7, tc_fee = 2\<rparr>"

definition other_finish :: drc_escrow_finish_tx where
  "other_finish = \<lparr>tx_version = 1, tx_nonce = 0, tx_public_key = replicate 33 8, tx_signature = replicate 64 8,
     tx_multisign = None, tx_account_sequence = None, es_submitter = 8, es_escrow_id = 77, es_fee = 9\<rparr>"

definition demo_block :: lane_block where
  "demo_block =
     \<lparr>drc_ticket_creates = [demo_ticket], drc_escrow_creates = [], drc_escrow_finishes = [other_finish],
      drc_escrow_cancels = [], account_transfers = [demo_transfer, demo_transfer], stake_ops = [],
      drc_regular_keys = [], drc_signer_lists = [], drc_account_policies = [], drc_deposit_preauths = []\<rparr>"

definition demo_block_run :: "lane_state \<times> transaction_acceptance list list" where
  "demo_block_run = (case apply_trident_lanes demo_env block_store demo_block (Some demo_auth) (Some 12) Virtual of
     Inr r \<Rightarrow> r | Inl _ \<Rightarrow> (lane_start [], []))"

lemma demo_block_accepted:
  "apply_trident_lanes demo_env block_store demo_block (Some demo_auth) (Some 12) Virtual
     = Ok (fst demo_block_run, snd demo_block_run)"
  "snd demo_block_run = [[Accepted], [], [Accepted], [], [Accepted, ExactDuplicate], [], [], [], [], []]"
  by code_simp+

lemma demo_block_after:
  "acct (ls_lane (fst demo_block_run)) DRC 7 = \<lparr>balance = 123, nonce = 6\<rparr>"
  "acct (ls_lane (fst demo_block_run)) DRC 8 = \<lparr>balance = 41, nonce = 1\<rparr>"
  "tickets_of (ls_lane (fst demo_block_run)) 7 = [1, 5]"
  "burned_of (ls_lane (fst demo_block_run)) DRC = 16"
  by code_simp+

lemma well_typed_entries: "\<forall>(k, v) \<in> set s. typed_at k v \<Longrightarrow> well_typed s"
  by (auto simp: well_typed_def get_cf_def dest!: map_of_SomeD)

lemma block_store_typed: "well_typed block_store"
proof (rule well_typed_entries)
  have "validate_account_tickets \<lparr>dt_version = 1, dt_owner = 7, dt_sequences = [1, 3]\<rparr> = Ok ()"
    "validate_escrow_live demo_escrow = Ok ()" "el_escrow_id demo_escrow = 77" by code_simp+
  then show "\<forall>(k, v) \<in> set block_store. typed_at k v" by (simp add: block_store_def)
qed

lemma block_store_entries:
  "get_cf block_store (KEscrowLive 77) = Some (VEscrowLive demo_escrow)" "get_cf block_store (KEscrowSettled 77) = None"
  "acct block_store DRC 7 = \<lparr>balance = 100, nonce = 4\<rparr>" "tickets_of block_store 7 = [1, 3]"
  by (simp_all add: block_store_def get_cf_def acct_def tickets_of_def stored_def)

lemma block_store_tickets: "tickets_below block_store"
  by (simp add: tickets_below_def dnonce_def block_store_def get_cf_def acct_def tickets_of_def stored_def word_less_nat_alt)

lemma block_store_recoverable: "recoverable block_store a"
  by (simp add: recoverable_def master_disabled_def block_store_def get_cf_def stored_def)

lemma demo_accepted_ops:
  "accepted_ops (block_ops demo_block) (concat (snd demo_block_run))
     = [OpTicketCreate demo_ticket, OpEscrowFinish other_finish, OpTransfer demo_transfer]"
  by (simp add: demo_block_accepted(2) demo_block_def block_ops_def)

section \<open>Properties\<close>

text \<open>
  Property C19. Block application refines the ledger specification. When the lanes of a block succeed, in
  either mode, every operation has a status, the overlay after the block is the state reached by
  running exactly the operations with status accepted, in lane order, each on the state the previous
  one left, and committing the block's batch to the store gives that state.
\<close>

theorem block_refines_ledger:
  assumes "apply_trident_lanes env s block auth score mode = Ok (st, ss)"
  shows "length (concat ss) = length (block_ops block)
    \<and> ledger_run env auth (case score of Some v \<Rightarrow> v | None \<Rightarrow> 0) s
        (accepted_ops (block_ops block) (concat ss)) (ls_lane st)
    \<and> apply_batch (ls_batch st) s = ls_lane st"
  using block_run [OF assms] by simp

theorem block_refines_ledger_witness:
  "ledger_run demo_env (Some demo_auth) 12 block_store
     [OpTicketCreate demo_ticket, OpEscrowFinish other_finish, OpTransfer demo_transfer] (ls_lane (fst demo_block_run))
   \<and> acct (ls_lane (fst demo_block_run)) DRC 7 = \<lparr>balance = 123, nonce = 6\<rparr>"
  using block_refines_ledger [OF demo_block_accepted(1)] demo_block_after
  by (simp add: demo_block_accepted(2) demo_block_def block_ops_def)

text \<open>
  Property C20. Type soundness of the account store. A block keeps every record under a key that matches
  it and acceptable to its validator; afterwards no account, ticket list, policy, key, signer list,
  preauthorisation, escrow, validator or delegation fails to load.
\<close>

theorem block_keeps_records_typed:
  assumes "apply_trident_lanes env s block auth score mode = Ok (st, ss)" and "well_typed s"
  shows "let s' = apply_batch (ls_batch st) s in
      well_typed s'
      \<and> load_account s' OVL a = Ok (acct s' OVL a) \<and> load_account s' DRC a = Ok (acct s' DRC a)
      \<and> load_drc_account_tickets s' a = Ok (tickets_of s' a)
      \<and> (\<exists>p. load_drc_account_policy s' a = Ok p)
      \<and> load_drc_account_regular_key s' a = Ok (regular_key_of s' a)
      \<and> load_drc_account_signer_list s' a = Ok (signer_list_of s' a)
      \<and> load_drc_deposit_preauth s' a src = Ok (get_cf s' (KPreauth a src) \<noteq> None)
      \<and> (\<exists>l. load_drc_escrow_live s' i = Ok l) \<and> (\<exists>l. load_owner_index s' a = Ok l)
      \<and> (\<exists>v. load_validator s' asset a = Ok v) \<and> (\<exists>v. load_delegation s' asset d a = Ok v)"
proof -
  have "well_typed (apply_batch (ls_batch st) s)"
    using run_well_typed [OF block_run(2) [OF assms(1)] assms(2)] block_run(3) [OF assms(1)] by simp
  then show ?thesis unfolding Let_def by (simp add: well_typed_loads)
qed

theorem block_keeps_records_typed_witness:
  "well_typed (apply_batch (ls_batch (fst demo_block_run)) block_store)
   \<and> load_drc_account_tickets (apply_batch (ls_batch (fst demo_block_run)) block_store) 7 = Ok [1, 5]"
  using block_keeps_records_typed [OF demo_block_accepted(1) block_store_typed, of 7 0 0 OVL 0] demo_block_after(3)
    block_run(3) [OF demo_block_accepted(1)]
  by (simp add: Let_def)

text \<open>
  Property C21. A block can be undone from its journal. After committing a block, the batch that
  \<open>revert_journal_batched\<close> builds from the block's journal exists and restores every record other than
  accounts to its value, or its absence, before the block, and every account as it loads.
\<close>

theorem block_revert_restores:
  assumes "apply_trident_lanes env s block auth score mode = Ok (st, ss)" and "well_typed s"
  shows "\<exists>s1. revert_journal (apply_batch (ls_batch st) s) (ls_journal st) = Ok s1
    \<and> (\<forall>k. (\<forall>asset a. k \<noteq> KAccount asset a) \<longrightarrow> get_cf s1 k = get_cf s k)
    \<and> (\<forall>asset a. acct s1 asset a = acct s asset a)"
proof -
  have "journal_ok s st"
    using block_lanes_run [OF assms(1) journal_invariant [of _ _ _ s]] journal_start [OF assms(2)]
    by (simp add: lanes_run_def)
  from journal_restores [OF this] block_run(3) [OF assms(1)] show ?thesis by metis
qed

theorem block_revert_restores_witness:
  "\<exists>s1. revert_journal (apply_batch (ls_batch (fst demo_block_run)) block_store) (ls_journal (fst demo_block_run)) = Ok s1
     \<and> get_cf s1 (KEscrowLive 77) = Some (VEscrowLive demo_escrow) \<and> get_cf s1 (KEscrowSettled 77) = None
     \<and> acct s1 DRC 7 = \<lparr>balance = 100, nonce = 4\<rparr>"
  using block_revert_restores [OF demo_block_accepted(1) block_store_typed] block_store_entries by fastforce

text \<open>
  Property C24. No lockout. If every account with a disabled master key has a regular key or a signer
  list before a block, so it is after the block, whatever mix of key, list and policy operations
  the block contains and whichever of them are rejected.
\<close>

theorem block_locks_nobody_out:
  assumes "apply_trident_lanes env s block auth score mode = Ok (st, ss)" and "well_typed s"
    and "\<forall>a. recoverable s a"
  shows "\<forall>a. recoverable (apply_batch (ls_batch st) s) a"
  using run_recoverable [OF block_run(2) [OF assms(1)] assms(2,3)] block_run(3) [OF assms(1)] by simp

theorem block_locks_nobody_out_witness:
  "\<forall>a. recoverable (apply_batch (ls_batch (fst demo_block_run)) block_store) a"
  using block_locks_nobody_out [OF demo_block_accepted(1) block_store_typed] block_store_recoverable by blast

text \<open>
  Property C22. Sequences are used once. A nonce below the account's nonce, or a ticket that is neither
  outstanding nor still to be minted, is retired: a block never accepts a DRC operation with a
  retired selector, retired selectors stay retired, and every DRC operation the block accepts,
  settlements apart, has its selector retired afterwards.
\<close>

theorem block_uses_sequences_once:
  assumes "apply_trident_lanes env s block auth score mode = Ok (st, ss)" and "well_typed s" and "tickets_below s"
  shows "let s' = apply_batch (ls_batch st) s; ops = accepted_ops (block_ops block) (concat ss) in
      tickets_below s' \<and> (\<forall>a sel. retired s a sel \<longrightarrow> retired s' a sel)
      \<and> (\<forall>op \<in> set ops. is_drc op \<longrightarrow> \<not> retired s (fst (op_sequence op)) (snd (op_sequence op)))
      \<and> (\<forall>op \<in> set ops. is_drc op \<and> settled_id op = None \<longrightarrow> retired s' (fst (op_sequence op)) (snd (op_sequence op)))"
proof -
  note R = run_sequences [OF block_run(2) [OF assms(1)] assms(2,3)]
  show ?thesis
    using R(2,3) seq_le_retired [OF R(1)] seq_le_tickets_below [OF R(1) assms(3)]
    by (simp add: Let_def block_run(3) [OF assms(1)])
qed

theorem block_uses_sequences_once_witness:
  "\<not> retired block_store 7 (nonce_selector 4)
   \<and> retired (apply_batch (ls_batch (fst demo_block_run)) block_store) 7 (nonce_selector 4)"
  using block_uses_sequences_once [OF demo_block_accepted(1) block_store_typed block_store_tickets]
  by (simp add: Let_def demo_accepted_ops demo_ticket_def)

text \<open>
  Property C25. Every escrow is settled at most once: settlement marks are never removed, the escrows
  settled by a block's accepted operations are pairwise different, none was settled before the block and
  all are marked settled after it.
\<close>

theorem block_settles_escrows_once:
  assumes "apply_trident_lanes env s block auth score mode = Ok (st, ss)" and "well_typed s"
  shows "let s' = apply_batch (ls_batch st) s; ids = settled_ids (accepted_ops (block_ops block) (concat ss)) in
      (\<forall>i. get_cf s (KEscrowSettled i) \<noteq> None \<longrightarrow> get_cf s' (KEscrowSettled i) \<noteq> None)
      \<and> distinct ids \<and> (\<forall>i \<in> set ids. get_cf s (KEscrowSettled i) = None \<and> get_cf s' (KEscrowSettled i) \<noteq> None)"
  using run_settled [OF block_run(2) [OF assms(1)] assms(2)]
  unfolding Let_def block_run(3) [OF assms(1)] by blast

theorem block_settles_escrows_once_witness:
  "settled_ids [OpTicketCreate demo_ticket, OpEscrowFinish other_finish, OpTransfer demo_transfer] = [77]
   \<and> get_cf block_store (KEscrowSettled 77) = None
   \<and> get_cf (apply_batch (ls_batch (fst demo_block_run)) block_store) (KEscrowSettled 77) \<noteq> None"
  using block_settles_escrows_once [OF demo_block_accepted(1) block_store_typed]
  by (simp add: Let_def demo_accepted_ops other_finish_def)



end
