(* ===== verification/Kv_Store.thy ===== *)
theory Kv_Store
  imports Ledger_Store "HOL-Library.List_Lexorder"
begin

text \<open>
  The key/value store of \<^verbatim>\<open>state-machine/src/store.rs\<close> at byte level: column families, write batches,
  the in-memory back end and copy-on-write overlays stacked on it to any depth, with point reads,
  prefix scans and bounded scans.

  A \<open>BTreeMap\<close> is a list of entries in increasing key order. The RocksDB back end (a third-party
  library) and the portable snapshot file (input and output) are not modelled, nor is lock poisoning. An
  overlay holds its base by value: the code never writes to the base while the overlay is in use.

  The locale \<open>batch_store\<close> is what the ledger modules rely on: a batch is visible to reads exactly as a
  sequence of puts and deletes. It is interpreted by the byte store and by the typed store of the theory
  \<open>Ledger_Store\<close>, and gives the reason an overlay may be replaced by a plain store.
\<close>

section \<open>Ordered maps\<close>

fun bt_insert :: "'k::linorder \<Rightarrow> 'v \<Rightarrow> ('k \<times> 'v) list \<Rightarrow> ('k \<times> 'v) list" where
  "bt_insert k v [] = [(k, v)]"
| "bt_insert k v ((k', v') # m) =
     (if k < k' then (k, v) # (k', v') # m else if k = k' then (k, v) # m else (k', v') # bt_insert k v m)"

definition bt_remove :: "'k \<Rightarrow> ('k \<times> 'v) list \<Rightarrow> ('k \<times> 'v) list" where
  "bt_remove k m = filter (\<lambda>e. fst e \<noteq> k) m"

definition bt_collect :: "('k::linorder \<times> 'v) list \<Rightarrow> ('k \<times> 'v) list" where
  "bt_collect es = fold (\<lambda>(k, v). bt_insert k v) es []"

definition bt_wf :: "('k::linorder \<times> 'v) list \<Rightarrow> bool" where
  "bt_wf m \<longleftrightarrow> sorted_wrt (<) (map fst m)"

text \<open>An overlay entry applied to a map: a value is stored, an absent value deletes.\<close>

fun bt_patch :: "'k::linorder \<times> 'v option \<Rightarrow> ('k \<times> 'v) list \<Rightarrow> ('k \<times> 'v) list" where
  "bt_patch (k, Some v) m = bt_insert k v m"
| "bt_patch (k, None) m = bt_remove k m"

section \<open>Column families, batches and back ends\<close>

datatype column_family = Hot | Warm | Archival | Meta | Utxo

fun cf_byte :: "column_family \<Rightarrow> u8" where
  "cf_byte Hot = 0"
| "cf_byte Warm = 1"
| "cf_byte Archival = 2"
| "cf_byte Meta = 3"
| "cf_byte Utxo = 4"

type_synonym cf_key = "u8 \<times> bytes"

datatype cf_write_op = PutCf column_family bytes bytes | DeleteCf column_family bytes

datatype state_backend =
    Memory "(cf_key \<times> bytes) list"
  | Cow state_backend "(cf_key \<times> bytes option) list"

definition open_in_memory :: state_backend where
  "open_in_memory = Memory []"

definition open_cow_overlay :: "state_backend \<Rightarrow> state_backend" where
  "open_cow_overlay base = Cow base []"

definition starts_with :: "bytes \<Rightarrow> bytes \<Rightarrow> bool" where
  "starts_with k prefix \<longleftrightarrow> take (length prefix) k = prefix"

fun put_cf :: "column_family \<Rightarrow> bytes \<Rightarrow> bytes \<Rightarrow> state_backend \<Rightarrow> state_backend" where
  "put_cf cf k v (Memory m) = Memory (bt_insert (cf_byte cf, k) v m)"
| "put_cf cf k v (Cow base delta) = Cow base (bt_insert (cf_byte cf, k) (Some v) delta)"

fun delete_cf :: "column_family \<Rightarrow> bytes \<Rightarrow> state_backend \<Rightarrow> state_backend" where
  "delete_cf cf k (Memory m) = Memory (bt_remove (cf_byte cf, k) m)"
| "delete_cf cf k (Cow base delta) = Cow base (bt_insert (cf_byte cf, k) None delta)"

fun lookup_cf :: "state_backend \<Rightarrow> column_family \<Rightarrow> bytes \<Rightarrow> bytes option" where
  "lookup_cf (Memory m) cf k = map_of m (cf_byte cf, k)"
| "lookup_cf (Cow base delta) cf k =
     (case map_of delta (cf_byte cf, k) of Some entry \<Rightarrow> entry | None \<Rightarrow> lookup_cf base cf k)"

fun write_mem :: "cf_write_op \<Rightarrow> (cf_key \<times> bytes) list \<Rightarrow> (cf_key \<times> bytes) list" where
  "write_mem (PutCf cf k v) m = bt_insert (cf_byte cf, k) v m"
| "write_mem (DeleteCf cf k) m = bt_remove (cf_byte cf, k) m"

fun write_delta :: "cf_write_op \<Rightarrow> (cf_key \<times> bytes option) list \<Rightarrow> (cf_key \<times> bytes option) list" where
  "write_delta (PutCf cf k v) m = bt_insert (cf_byte cf, k) (Some v) m"
| "write_delta (DeleteCf cf k) m = bt_insert (cf_byte cf, k) None m"

fun write_batch_cf :: "cf_write_op list \<Rightarrow> state_backend \<Rightarrow> state_backend" where
  "write_batch_cf ops (Memory m) = Memory (fold write_mem ops m)"
| "write_batch_cf ops (Cow base delta) = Cow base (fold write_delta ops delta)"

section \<open>Scans\<close>

text \<open>Entries of one column whose key satisfies a predicate, without the column byte.\<close>

definition column_entries :: "column_family \<Rightarrow> (bytes \<Rightarrow> bool) \<Rightarrow> (cf_key \<times> 'v) list \<Rightarrow> (bytes \<times> 'v) list" where
  "column_entries cf P m = map (\<lambda>((c, k), v). (k, v)) (filter (\<lambda>((c, k), v). c = cf_byte cf \<and> P k) m)"

fun scan_prefix :: "state_backend \<Rightarrow> column_family \<Rightarrow> bytes \<Rightarrow> (bytes \<times> bytes) list" where
  "scan_prefix (Memory m) cf prefix = sort_key fst (column_entries cf (\<lambda>k. starts_with k prefix) m)"
| "scan_prefix (Cow base delta) cf prefix =
     fold bt_patch (column_entries cf (\<lambda>k. starts_with k prefix) delta) (bt_collect (scan_prefix base cf prefix))"

definition starts_after :: "bytes option \<Rightarrow> bytes \<Rightarrow> bool" where
  "starts_after start_after k = (case start_after of None \<Rightarrow> True | Some cursor \<Rightarrow> cursor < k)"

text \<open>\<open>usize\<close> addition saturates at its largest value.\<close>

definition usize_saturating_add :: "nat \<Rightarrow> nat \<Rightarrow> nat" where
  "usize_saturating_add a b = min (a + b) (2 ^ 64 - 1)"

fun scan_prefix_after_limit ::
    "state_backend \<Rightarrow> column_family \<Rightarrow> bytes \<Rightarrow> bytes option \<Rightarrow> nat \<Rightarrow> (bytes \<times> bytes) list" where
  "scan_prefix_after_limit (Memory m) cf prefix start_after limit =
     (if limit = 0 then []
      else take limit (column_entries cf (\<lambda>k. starts_with k prefix \<and> starts_after start_after k) m))"
| "scan_prefix_after_limit (Cow base delta) cf prefix start_after limit =
     (if limit = 0 then []
      else
      let relevant = column_entries cf (\<lambda>k. starts_with k prefix \<and> starts_after start_after k) delta;
          deleted = length (filter (\<lambda>(_, v). v = None) relevant);
          base_limit = usize_saturating_add limit deleted;
          merged = bt_collect (scan_prefix_after_limit base cf prefix start_after base_limit)
      in take limit (fold bt_patch relevant merged))"

fun for_each_cf :: "state_backend \<Rightarrow> column_family \<Rightarrow> ('s \<Rightarrow> bytes \<times> bytes \<Rightarrow> 'e + 's) \<Rightarrow> 's \<Rightarrow> 'e + 's" where
  "for_each_cf (Memory m) cf f acc = fold_result f acc (column_entries cf (\<lambda>_. True) m)"
| "for_each_cf (Cow base delta) cf f acc =
     fold_result f acc (fold bt_patch (column_entries cf (\<lambda>_. True) delta) (bt_collect (scan_prefix base cf [])))"

section \<open>Ordered map lemmas\<close>

lemma bt_insert_keys: "fst ` set (bt_insert k v m) = insert k (fst ` set m)"
  by (induction m rule: bt_insert.induct [of "\<lambda>k v m. fst ` set (bt_insert k v m) = insert k (fst ` set m)"]) auto

lemma bt_insert_wf [simp]: "bt_wf m \<Longrightarrow> bt_wf (bt_insert k v m)"
  unfolding bt_wf_def
proof (induction k v m rule: bt_insert.induct)
  case (2 k v k' v' m)
  have "k' < x" if "x \<in> set (map fst (bt_insert k v m))" "\<not> k < k'" "k \<noteq> k'" for x
    using that bt_insert_keys [of k v m] "2.prems" by auto
  with 2 show ?case by (auto dest: less_trans)
qed simp

lemma bt_remove_wf [simp]: "bt_wf m \<Longrightarrow> bt_wf (bt_remove k m)"
  by (simp add: bt_wf_def bt_remove_def sorted_wrt_map sorted_wrt_filter)

lemma bt_patch_wf [simp]: "bt_wf m \<Longrightarrow> bt_wf (bt_patch e m)"
  by (cases e; cases "snd e") auto

lemma bt_fold_patch_wf [simp]: "bt_wf m \<Longrightarrow> bt_wf (fold bt_patch es m)"
  by (induction es arbitrary: m) auto

lemma bt_wf_distinct: "bt_wf m \<Longrightarrow> distinct (map fst m)"
  by (simp add: bt_wf_def strict_sorted_iff)

lemma bt_wf_Nil [simp]: "bt_wf []"
  by (simp add: bt_wf_def)

lemma map_of_bt_insert: "bt_wf m \<Longrightarrow> map_of (bt_insert k v m) = (map_of m)(k \<mapsto> v)"
proof (induction k v m rule: bt_insert.induct)
  case (2 k v k' v' m)
  have "map_of m k = None" if "k < k'"
    using that "2.prems" by (auto simp: bt_wf_def map_of_eq_None_iff)
  with 2 show ?case by (auto simp: bt_wf_def fun_eq_iff)
qed auto

lemma map_of_bt_remove: "map_of (bt_remove k m) = (map_of m)(k := None)"
  by (induction m) (auto simp: bt_remove_def fun_eq_iff)

lemma map_of_bt_patch: "bt_wf m \<Longrightarrow> map_of (bt_patch (k, v) m) = (map_of m)(k := v)"
  by (cases v) (auto simp: map_of_bt_insert map_of_bt_remove)

lemma bt_wf_Cons: "bt_wf ((k, v) # m) \<longleftrightarrow> (\<forall>k' \<in> fst ` set m. k < k') \<and> bt_wf m"
  by (auto simp: bt_wf_def)

lemma map_of_fold_patch:
  assumes "bt_wf m" and "distinct (map fst es)"
  shows "map_of (fold bt_patch es m) k = (case map_of es k of Some v \<Rightarrow> v | None \<Rightarrow> map_of m k)"
  using assms
proof (induction es arbitrary: m)
  case (Cons e es)
  obtain k' v where e: "e = (k', v)" by (cases e)
  have "map_of es k' = None" using Cons.prems e by (auto simp: map_of_eq_None_iff)
  with Cons e show ?case by (auto simp: map_of_bt_patch split: option.split)
qed simp

lemma fold_bt_insert_append:
  assumes "bt_wf (m @ es)"
  shows "fold (\<lambda>(k, v). bt_insert k v) es m = m @ es"
  using assms
proof (induction es arbitrary: m)
  case (Cons e es)
  obtain k v where e: "e = (k, v)" by (cases e)
  have "bt_insert k v m = m @ [(k, v)]"
  proof -
    have "\<forall>k' \<in> fst ` set m. k' < k"
      using Cons.prems e by (auto simp: bt_wf_def sorted_wrt_append)
    then show ?thesis
      by (induction m) auto
  qed
  with Cons.IH [of "m @ [(k, v)]"] Cons.prems e show ?case by simp
qed simp

lemma bt_collect_id [simp]: "bt_wf es \<Longrightarrow> bt_collect es = es"
  using fold_bt_insert_append [of "[]" es] by (simp add: bt_collect_def)

text \<open>Two ordered maps with the same lookups are the same list.\<close>

lemma bt_ext:
  assumes "bt_wf m" and "bt_wf m'" and "\<And>k. map_of m k = map_of m' k"
  shows "m = m'"
proof -
  have "fst ` set m = fst ` set m'"
    using assms(3) by (metis (no_types, lifting) dom_map_of_conv_image_fst ext)
  moreover have "sorted (map fst m)" "distinct (map fst m)" "sorted (map fst m')" "distinct (map fst m')"
    using assms(1,2) by (simp_all add: bt_wf_def strict_sorted_iff)
  ultimately have keys: "map fst m = map fst m'"
    by (metis list.set_map sorted_distinct_set_unique)
  have "map (\<lambda>k. (k, the (map_of xs k))) (map fst xs) = xs" if "distinct (map fst xs)" for xs :: "('a \<times> 'b) list"
    unfolding map_map using that by (intro map_idI) (auto simp: map_of_eq_Some_iff)
  with keys assms(3) \<open>distinct (map fst m)\<close> \<open>distinct (map fst m')\<close> show ?thesis
    by (metis (no_types, lifting) map_cong)
qed

text \<open>A pivot splits an ordered map, and patches below and above the pivot stay on their side.\<close>

lemma bt_insert_left:
  "\<forall>k' \<in> fst ` set ys. k < k' \<Longrightarrow> bt_insert k v (xs @ ys) = bt_insert k v xs @ ys"
  by (induction xs) (cases ys; auto)+

lemma bt_insert_right:
  "\<forall>k' \<in> fst ` set xs. k' < k \<Longrightarrow> bt_insert k v (xs @ ys) = xs @ bt_insert k v ys"
  by (induction xs) auto

lemma bt_remove_left:
  "\<forall>k' \<in> fst ` set ys. (k :: 'k::linorder) < k' \<Longrightarrow> bt_remove k (xs @ ys) = bt_remove k xs @ ys"
  by (auto simp: bt_remove_def intro!: filter_True)

lemma bt_remove_right:
  "\<forall>k' \<in> fst ` set xs. k' < (k :: 'k::linorder) \<Longrightarrow> bt_remove k (xs @ ys) = xs @ bt_remove k ys"
  by (auto simp: bt_remove_def intro!: filter_True)

lemma bt_patch_left:
  "\<forall>k' \<in> fst ` set ys. fst e < k' \<Longrightarrow> bt_patch e (xs @ ys) = bt_patch e xs @ ys"
  by (cases e; cases "snd e") (auto simp: bt_insert_left bt_remove_left)

lemma bt_patch_right:
  "\<forall>k' \<in> fst ` set xs. k' < fst e \<Longrightarrow> bt_patch e (xs @ ys) = xs @ bt_patch e ys"
  by (cases e; cases "snd e") (auto simp: bt_insert_right bt_remove_right)

lemma bt_patch_keys: "fst ` set (bt_patch e m) \<subseteq> insert (fst e) (fst ` set m)"
proof (cases e)
  case (Pair k v)
  then show ?thesis by (cases v) (auto simp: bt_insert_keys bt_remove_def)
qed

lemma fold_bt_patch_keys: "fst ` set (fold bt_patch es m) \<subseteq> fst ` set es \<union> fst ` set m"
proof (induction es arbitrary: m)
  case (Cons e es)
  from Cons [of "bt_patch e m"] bt_patch_keys [of e m] show ?case by auto
qed simp

lemma fold_bt_patch_left:
  "\<forall>e \<in> set es. \<forall>k' \<in> fst ` set ys. fst e < k' \<Longrightarrow> fold bt_patch es (xs @ ys) = fold bt_patch es xs @ ys"
  by (induction es arbitrary: xs) (auto simp: bt_patch_left)

lemma fold_bt_patch_right:
  "\<forall>e \<in> set es. \<forall>k' \<in> fst ` set xs. k' < fst e \<Longrightarrow> fold bt_patch es (xs @ ys) = xs @ fold bt_patch es ys"
  by (induction es arbitrary: ys) (auto simp: bt_patch_right)

lemma length_bt_insert: "length m \<le> length (bt_insert k v m)"
  by (induction m) auto

lemma length_bt_remove: "distinct (map fst m) \<Longrightarrow> length m \<le> Suc (length (bt_remove k m))"
  unfolding bt_remove_def
proof (induction m)
  case (Cons e m)
  have "filter (\<lambda>e. fst e \<noteq> k) m = m" if "fst e = k"
  proof (intro filter_True ballI)
    fix x assume "x \<in> set m"
    then have "fst x \<in> fst ` set m" by (rule imageI)
    moreover have "k \<notin> fst ` set m" using that Cons.prems by (metis distinct.simps(2) list.set_map list.simps(9))
    ultimately show "fst x \<noteq> k" by blast
  qed
  with Cons show ?case by auto
qed simp

lemma length_fold_patch:
  "bt_wf m \<Longrightarrow> length m \<le> length (fold bt_patch es m) + length (filter (\<lambda>(_, v). v = None) es)"
proof (induction es arbitrary: m)
  case (Cons e es)
  obtain k v where e: "e = (k, v)" by (cases e)
  have "length m \<le> length (bt_patch e m) + (if v = None then 1 else 0)"
    using length_bt_insert length_bt_remove [OF bt_wf_distinct [OF Cons.prems]] e by (cases v) auto
  with Cons.IH [of "bt_patch e m"] Cons.prems e show ?case by (auto split: if_splits)
qed simp

text \<open>
  Patching only the first entries of a map gives the first entries of the patched map, as long as
  the cut leaves one entry for every deletion.
\<close>

lemma take_fold_patch:
  assumes wf: "bt_wf m" and es: "bt_wf es" and n: "limit + length (filter (\<lambda>(_, v). v = None) es) \<le> n"
  shows "take limit (fold bt_patch es (take n m)) = take limit (fold bt_patch es m)"
proof (cases "length m \<le> n \<or> limit = 0")
  case False
  define xs ys where "xs = take n m" and "ys = drop n m"
  have m: "m = xs @ ys" and len: "length xs = n" using False by (auto simp: xs_def ys_def)
  then obtain zs l where xs: "xs = zs @ [l]" using False n by (cases xs rule: rev_cases) auto
  define p where "p = fst l"
  have below: "\<forall>k \<in> fst ` set xs. k \<le> p" and above: "\<forall>k \<in> fst ` set ys. p < k"
    using wf by (auto simp: m xs p_def bt_wf_def sorted_wrt_append intro: less_imp_le)
  define low high where "low = takeWhile (\<lambda>e. fst e \<le> p) es" and "high = dropWhile (\<lambda>e. fst e \<le> p) es"
  have split: "es = low @ high" by (simp add: low_def high_def)
  have lo: "\<forall>e \<in> set low. fst e \<le> p" by (auto simp: low_def dest: set_takeWhileD)
  have hi: "\<forall>e \<in> set high. p < fst e"
  proof
    fix e assume "e \<in> set high"
    then have "high \<noteq> []" by auto
    then have "\<not> fst (hd high) \<le> p" unfolding high_def by (rule hd_dropWhile)
    moreover have "fst (hd high) \<le> fst e"
    proof -
      have "bt_wf high" using es split by (auto simp: bt_wf_def sorted_wrt_append)
      with \<open>e \<in> set high\<close> show ?thesis by (cases high) (auto simp: bt_wf_def)
    qed
    ultimately show "p < fst e" by auto
  qed
  let ?f = "fold bt_patch low xs"
  have wfx: "bt_wf xs" using wf by (auto simp: m bt_wf_def sorted_wrt_append)
  have keys: "\<forall>k \<in> fst ` set ?f. k \<le> p"
  proof
    fix k assume "k \<in> fst ` set ?f"
    from subsetD [OF fold_bt_patch_keys this] consider e where "e \<in> set low" "k = fst e" | "k \<in> fst ` set xs"
      by (elim UnE imageE) auto
    then show "k \<le> p" using lo below by cases auto
  qed
  have "fold bt_patch es m = ?f @ fold bt_patch high ys"
  proof -
    have "fold bt_patch low (xs @ ys) = ?f @ ys"
      using lo above by (intro fold_bt_patch_left ballI) (metis le_less_trans)
    moreover have "fold bt_patch high (?f @ ys) = ?f @ fold bt_patch high ys"
      using hi keys by (intro fold_bt_patch_right ballI) (metis le_less_trans)
    ultimately show ?thesis by (simp add: m split)
  qed
  moreover have "fold bt_patch es xs = ?f @ fold bt_patch high []"
  proof -
    have "fold bt_patch high (?f @ []) = ?f @ fold bt_patch high []"
      using hi keys by (intro fold_bt_patch_right ballI) (metis le_less_trans)
    then show ?thesis by (simp add: split)
  qed
  moreover have "limit \<le> length ?f"
    using length_fold_patch [OF wfx, of low] n len by (simp add: split)
  ultimately show ?thesis by (simp add: xs_def [symmetric])
qed auto

section \<open>What clients rely on\<close>

text \<open>
  A store that applies batches of puts and deletes. Its laws say that after a batch every key reads as its
  last operation in the batch says, and as before when the batch does not name it.
\<close>

fun batch_value :: "('k \<times> 'v option) list \<Rightarrow> 'k \<Rightarrow> 'v option \<Rightarrow> 'v option" where
  "batch_value [] k before = before"
| "batch_value ((k', v) # b) k before = batch_value b k (if k = k' then v else before)"

lemma batch_value_untouched: "k \<notin> fst ` set es \<Longrightarrow> batch_value es k v = v"
  by (induction es arbitrary: v) auto

lemma batch_value_append: "batch_value (es @ es') k v = batch_value es' k (batch_value es k v)"
  by (induction es k v rule: batch_value.induct) auto

locale batch_store =
  fixes read :: "'s \<Rightarrow> 'k \<Rightarrow> 'v option" and commit :: "'op list \<Rightarrow> 's \<Rightarrow> 's"
    and effect :: "'op \<Rightarrow> 'k \<times> 'v option" and valid :: "'s \<Rightarrow> bool"
  assumes read_commit: "valid s \<Longrightarrow> read (commit b s) k = batch_value (map effect b) k (read s k)"
    and commit_valid: "valid s \<Longrightarrow> valid (commit b s)"
begin

lemma read_untouched:
  assumes "valid s" and "k \<notin> fst ` effect ` set b"
  shows "read (commit b s) k = read s k"
  using assms by (simp add: read_commit batch_value_untouched)

lemma commit_cong:
  assumes "valid s" and "valid t" and "\<And>k. read s k = read t k"
  shows "read (commit b s) k = read (commit b t) k"
  using assms by (simp add: read_commit)

lemma commit_append:
  assumes "valid s"
  shows "read (commit b' (commit b s)) k = read (commit (b @ b') s) k"
  using assms by (simp add: read_commit commit_valid batch_value_append)

end

text \<open>Two stores over the same keys that read alike keep reading alike under the same batches.\<close>

locale mirrored_stores =
  a: batch_store read commit effect valid + b: batch_store read' commit' effect' valid'
  for read :: "'s \<Rightarrow> 'k \<Rightarrow> 'v option" and commit :: "'op list \<Rightarrow> 's \<Rightarrow> 's" and effect and valid
    and read' :: "'t \<Rightarrow> 'k \<Rightarrow> 'v option" and commit' :: "'op list \<Rightarrow> 't \<Rightarrow> 't" and effect' and valid' +
  assumes same_effect: "effect op = effect' op"
begin

lemma mirror_batches:
  assumes "valid s" and "valid' t" and "\<And>k. read s k = read' t k"
  shows "read (fold commit bs s) k = read' (fold commit' bs t) k"
  using assms
proof (induction bs arbitrary: s t)
  case (Cons b bs)
  have "map effect b = map effect' b" by (simp add: same_effect)
  with Cons.prems have "read (commit b s) k = read' (commit' b t) k" for k
    by (simp only: a.read_commit b.read_commit)
  then show ?case using Cons a.commit_valid b.commit_valid by simp
qed simp

end

section \<open>The byte store\<close>

fun backend_wf :: "state_backend \<Rightarrow> bool" where
  "backend_wf (Memory m) = bt_wf m"
| "backend_wf (Cow base delta) = (backend_wf base \<and> bt_wf delta)"

text \<open>The abstract content of a back end: one map over all columns.\<close>

fun view :: "state_backend \<Rightarrow> cf_key \<Rightarrow> bytes option" where
  "view (Memory m) k = map_of m k"
| "view (Cow base delta) k = (case map_of delta k of Some entry \<Rightarrow> entry | None \<Rightarrow> view base k)"

fun op_effect :: "cf_write_op \<Rightarrow> cf_key \<times> bytes option" where
  "op_effect (PutCf cf k v) = ((cf_byte cf, k), Some v)"
| "op_effect (DeleteCf cf k) = ((cf_byte cf, k), None)"

lemma lookup_cf_view: "lookup_cf st cf k = view st (cf_byte cf, k)"
  by (induction st) (auto split: option.split)

lemma write_mem_view:
  "bt_wf m \<Longrightarrow> map_of (fold write_mem ops m) k = batch_value (map op_effect ops) k (map_of m k) \<and> bt_wf (fold write_mem ops m)"
proof (induction ops arbitrary: m)
  case (Cons op ops)
  have "map_of (write_mem op m) k = (if k = fst (op_effect op) then snd (op_effect op) else map_of m k)"
    "bt_wf (write_mem op m)"
    using Cons.prems by (cases op; auto simp: map_of_bt_insert map_of_bt_remove)+
  then show ?case using Cons.IH [of "write_mem op m"] by (cases "op_effect op") simp
qed simp

lemma write_delta_view:
  "bt_wf m \<Longrightarrow>
     (case map_of (fold write_delta ops m) k of Some entry \<Rightarrow> entry | None \<Rightarrow> v)
       = batch_value (map op_effect ops) k (case map_of m k of Some entry \<Rightarrow> entry | None \<Rightarrow> v)
     \<and> bt_wf (fold write_delta ops m)"
proof (induction ops arbitrary: m)
  case (Cons op ops)
  have "(case map_of (write_delta op m) k of Some entry \<Rightarrow> entry | None \<Rightarrow> v)
      = (if k = fst (op_effect op) then snd (op_effect op) else case map_of m k of Some entry \<Rightarrow> entry | None \<Rightarrow> v)"
    "bt_wf (write_delta op m)"
    using Cons.prems by (cases op; auto simp: map_of_bt_insert)+
  then show ?case using Cons.IH [of "write_delta op m"] by (cases "op_effect op") simp
qed simp

interpretation bytes_store: batch_store view write_batch_cf op_effect backend_wf
proof
  fix st b k assume wf: "backend_wf st"
  show "view (write_batch_cf b st) k = batch_value (map op_effect b) k (view st k)"
    using wf by (cases st) (simp_all add: write_mem_view write_delta_view)
  show "backend_wf (write_batch_cf b st)"
    using wf by (cases st) (simp_all add: write_mem_view write_delta_view)
qed

fun typed_effect :: "write_op \<Rightarrow> meta_key \<times> meta_val option" where
  "typed_effect (Put k v) = (k, Some v)"
| "typed_effect (Delete k) = (k, None)"

interpretation typed_store: batch_store get_cf apply_batch typed_effect "\<lambda>_. True"
proof
  fix s b k
  show "get_cf (apply_batch b s) k = batch_value (map typed_effect b) k (get_cf s k)"
  proof (induction b arbitrary: s)
    case (Cons op b)
    then show ?case by (cases op) auto
  qed simp
qed simp

interpretation overlay_mirror: mirrored_stores view write_batch_cf op_effect backend_wf view write_batch_cf op_effect backend_wf
  by unfold_locales simp

section \<open>Scans read the abstract content\<close>

lemma column_entries_wf: "bt_wf m \<Longrightarrow> bt_wf (column_entries cf P m)"
  unfolding bt_wf_def column_entries_def
proof (induction m)
  case (Cons e m)
  then show ?case by (auto simp: case_prod_unfold less_prod_def split: if_splits)
qed simp

lemma map_of_column_entries:
  "map_of (column_entries cf P m) k = (if P k then map_of m (cf_byte cf, k) else None)"
  by (induction m) (auto simp: column_entries_def)

lemma sort_key_wf: "bt_wf m \<Longrightarrow> sort_key fst m = m"
  by (intro sort_key_id_if_sorted) (simp add: bt_wf_def strict_sorted_iff)

lemma scan_prefix_spec:
  "backend_wf st \<Longrightarrow>
     bt_wf (scan_prefix st cf prefix)
     \<and> map_of (scan_prefix st cf prefix) k = (if starts_with k prefix then view st (cf_byte cf, k) else None)"
proof (induction st)
  case (Memory m)
  then show ?case by (simp add: sort_key_wf column_entries_wf map_of_column_entries)
next
  case (Cow base delta)
  let ?es = "column_entries cf (\<lambda>k. starts_with k prefix) delta"
  have "bt_wf ?es" using Cow.prems by (simp add: column_entries_wf)
  then show ?case
    using Cow by (simp add: map_of_fold_patch bt_wf_distinct map_of_column_entries split: option.split)
qed

lemma filter_wf: "bt_wf m \<Longrightarrow> bt_wf (filter P m)"
  by (simp add: bt_wf_def sorted_wrt_map sorted_wrt_filter)

lemma map_of_filter_key: "map_of (filter (\<lambda>e. Q (fst e)) m) k = (if Q k then map_of m k else None)"
  by (induction m) auto

text \<open>The entries of a level of the stack after the cursor, without a limit.\<close>

definition rows_after :: "state_backend \<Rightarrow> column_family \<Rightarrow> bytes \<Rightarrow> bytes option \<Rightarrow> (bytes \<times> bytes) list" where
  "rows_after st cf prefix start_after = filter (\<lambda>e. starts_after start_after (fst e)) (scan_prefix st cf prefix)"

lemma rows_after_spec:
  assumes "backend_wf st"
  shows "bt_wf (rows_after st cf prefix start_after)"
    and "map_of (rows_after st cf prefix start_after) k
      = (if starts_with k prefix \<and> starts_after start_after k then view st (cf_byte cf, k) else None)"
  using scan_prefix_spec [OF assms] by (simp_all add: rows_after_def filter_wf map_of_filter_key)

lemma rows_after_Memory:
  "backend_wf (Memory m) \<Longrightarrow>
     rows_after (Memory m) cf prefix start_after
       = column_entries cf (\<lambda>k. starts_with k prefix \<and> starts_after start_after k) m"
  by (rule bt_ext) (simp_all add: rows_after_spec column_entries_wf map_of_column_entries)

lemma rows_after_Cow:
  "backend_wf (Cow base delta) \<Longrightarrow>
     rows_after (Cow base delta) cf prefix start_after
       = fold bt_patch (column_entries cf (\<lambda>k. starts_with k prefix \<and> starts_after start_after k) delta)
           (rows_after base cf prefix start_after)"
  by (rule bt_ext)
    (simp_all add: rows_after_spec column_entries_wf map_of_fold_patch bt_wf_distinct map_of_column_entries
      split: option.split)

text \<open>No level holds more rows than a \<open>usize\<close> counts.\<close>

fun rows_fit :: "state_backend \<Rightarrow> column_family \<Rightarrow> bytes \<Rightarrow> bytes option \<Rightarrow> bool" where
  "rows_fit (Memory m) cf prefix start_after = True"
| "rows_fit (Cow base delta) cf prefix start_after =
     (length (rows_after base cf prefix start_after) < 2 ^ 64 \<and> rows_fit base cf prefix start_after)"

lemma scan_after_limit_rows:
  "backend_wf st \<Longrightarrow> rows_fit st cf prefix start_after \<Longrightarrow>
     scan_prefix_after_limit st cf prefix start_after limit = take limit (rows_after st cf prefix start_after)"
proof (induction st arbitrary: limit)
  case (Memory m)
  then show ?case by (simp add: rows_after_Memory)
next
  case (Cow base delta)
  let ?es = "column_entries cf (\<lambda>k. starts_with k prefix \<and> starts_after start_after k) delta"
  let ?n = "limit + length (filter (\<lambda>(_, v). v = None) ?es)"
  let ?rows = "rows_after base cf prefix start_after"
  have wf: "bt_wf ?rows" "bt_wf ?es" using Cow.prems by (simp_all add: rows_after_spec column_entries_wf)
  have "take (min ?n (2 ^ 64 - 1)) ?rows = take ?n ?rows" using Cow.prems by (simp add: min_def)
  moreover have "bt_wf (take n ?rows)" for n
    using wf(1) by (simp add: bt_wf_def take_map [symmetric] sorted_wrt_take)
  ultimately show ?case
    using Cow take_fold_patch [OF wf, of limit ?n]
    by (simp add: Let_def usize_saturating_add_def rows_after_Cow)
qed

section \<open>Properties\<close>

text \<open>
  A store stacked from copy-on-write overlays refines one map over all columns: point reads
  return the map's value, a batch changes exactly the keys it names to its last operation on each, a
  fresh overlay reads as its base and writes to it leave the base unchanged.
\<close>

theorem overlay_refines_map:
  assumes "backend_wf st"
  shows "lookup_cf st cf k = view st (cf_byte cf, k)
    \<and> view (write_batch_cf ops st) (c, k) = batch_value (map op_effect ops) (c, k) (view st (c, k))
    \<and> view (open_cow_overlay st) (c, k) = view st (c, k)
    \<and> view (fold write_batch_cf batches (open_cow_overlay st)) (c, k) = view (fold write_batch_cf batches st) (c, k)
    \<and> (\<exists>delta. write_batch_cf ops (Cow st d) = Cow st delta)"
proof -
  have "view (fold write_batch_cf batches (open_cow_overlay st)) (c, k) = view (fold write_batch_cf batches st) (c, k)"
    using assms by (intro overlay_mirror.mirror_batches) (simp_all add: open_cow_overlay_def)
  with assms bytes_store.read_commit [OF assms, of ops "(c, k)"] show ?thesis
    by (simp add: lookup_cf_view open_cow_overlay_def)
qed

text \<open>
  Bounded scans are exact. On any stack of overlays \<open>scan_prefix_after_limit\<close> returns the first
  \<open>limit\<close> rows, in key order, of the rows with the prefix strictly after the cursor, although each overlay
  asks its base only for the limit plus one row per deletion; \<open>scan_prefix\<close> lists exactly the content with the
  prefix in key order.
\<close>

theorem bounded_scan_exact:
  assumes "backend_wf st" and "rows_fit st cf prefix start_after"
  shows "scan_prefix_after_limit st cf prefix start_after limit
      = take limit (filter (\<lambda>(k, _). starts_after start_after k) (scan_prefix st cf prefix))
    \<and> sorted_wrt (<) (map fst (scan_prefix st cf prefix))
    \<and> set (scan_prefix st cf prefix) = {(k, v). starts_with k prefix \<and> view st (cf_byte cf, k) = Some v}"
proof -
  let ?s = "scan_prefix st cf prefix"
  have spec: "bt_wf ?s" "\<And>k. map_of ?s k = (if starts_with k prefix then view st (cf_byte cf, k) else None)"
    using scan_prefix_spec [OF assms(1)] by blast+
  have "(k, v) \<in> set ?s \<longleftrightarrow> map_of ?s k = Some v" for k v
    using bt_wf_distinct [OF spec(1)] by (simp add: map_of_eq_Some_iff)
  then have "set ?s = {(k, v). starts_with k prefix \<and> view st (cf_byte cf, k) = Some v}"
    using spec(2) by (auto split: if_splits)
  with spec(1) scan_after_limit_rows [OF assms] show ?thesis
    by (simp add: bt_wf_def rows_after_def case_prod_unfold)
qed

definition demo_base :: state_backend where
  "demo_base = write_batch_cf [PutCf Meta [1, 1] [5], PutCf Meta [1, 2] [6], PutCf Meta [1, 3] [8], PutCf Meta [2] [0]]
     open_in_memory"

definition demo_stack :: state_backend where
  "demo_stack = write_batch_cf [DeleteCf Meta [1, 2], PutCf Meta [1, 9] [7]] (open_cow_overlay demo_base)"

lemma demo_stack_wf: "backend_wf demo_stack"
  by code_simp

theorem overlay_refines_map_witness:
  "lookup_cf demo_stack Meta [1, 2] = None \<and> view (open_cow_overlay demo_stack) (3, [1, 2]) = None"
proof -
  have "lookup_cf demo_stack Meta [1, 2] = None" by code_simp
  with overlay_refines_map [OF demo_stack_wf, of Meta "[1, 2]" "[]" 3 "[]" "[]"] show ?thesis by simp
qed

theorem bounded_scan_exact_witness:
  "scan_prefix_after_limit demo_stack Meta [1] (Some [1, 1]) 2 = [([1, 3], [8]), ([1, 9], [7])]"
proof -
  have "length (rows_after demo_base Meta [1] (Some [1, 1])) = 2" "rows_fit demo_base Meta [1] (Some [1, 1])" by code_simp+
  then have "rows_fit demo_stack Meta [1] (Some [1, 1])" by (simp add: demo_stack_def open_cow_overlay_def)
  moreover have "scan_prefix demo_stack Meta [1] = [([1, 1], [5]), ([1, 3], [8]), ([1, 9], [7])]" by code_simp
  ultimately show ?thesis
    using bounded_scan_exact [OF demo_stack_wf, of Meta "[1]" "Some [1, 1]" 2] by (simp add: starts_after_def)
qed

end
