(* ===== verification/Meta_Keys.thy ===== *)
theory Meta_Keys
  imports Kv_Store
begin

text \<open>
  The byte strings behind the typed keys of \<open>Ledger_Store\<close>. \<open>meta_key_bytes\<close> follows the key-building
  functions of the ledger modules: a literal prefix, then asset bytes, addresses, hashes and little-endian
  epochs of fixed width. Distinct typed keys have distinct byte strings, so a typed store behaves as the
  \<^verbatim>\<open>Meta\<close> column of the byte store does, for every injective or non-injective encoding of the values.
\<close>

section \<open>Bytes of words\<close>

definition be_bytes :: "nat \<Rightarrow> 'a::len word \<Rightarrow> bytes" where
  "be_bytes n w = map (\<lambda>i. ucast (drop_bit (8 * i) w)) (rev [0..<n])"

definition le_bytes :: "nat \<Rightarrow> 'a::len word \<Rightarrow> bytes" where
  "le_bytes n w = map (\<lambda>i. ucast (drop_bit (8 * i) w)) [0..<n]"

definition ascii :: "string \<Rightarrow> bytes" where
  "ascii s = map of_char s"

lemma ascii_simps [simp]: "ascii [] = []" "ascii (c # s) = of_char c # ascii s"
  by (simp_all add: ascii_def)

lemma bytes_length [simp]: "length (be_bytes n w) = n" "length (le_bytes n w) = n"
  by (simp_all add: be_bytes_def le_bytes_def)

lemma bytes_determine:
  fixes v w :: "'a::len word"
  assumes "\<And>i. i < n \<Longrightarrow> (ucast (drop_bit (8 * i) v) :: u8) = ucast (drop_bit (8 * i) w)" and "LENGTH('a) \<le> 8 * n"
  shows "v = w"
proof (rule bit_word_eqI)
  fix j assume j: "j < LENGTH('a)"
  let ?i = "j div 8" and ?r = "j mod 8"
  have "?i < n" using j assms(2) by linarith
  from assms(1) [OF this] have "bit (ucast (drop_bit (8 * ?i) v) :: u8) ?r = bit (ucast (drop_bit (8 * ?i) w) :: u8) ?r"
    by simp
  then show "bit v j = bit w j" by (simp add: bit_simps)
qed

lemma be_bytes_eq [simp]:
  "LENGTH('a::len) \<le> 8 * n \<Longrightarrow> be_bytes n (v :: 'a word) = be_bytes n w \<longleftrightarrow> v = w"
  using bytes_determine [of n v w] by (auto simp: be_bytes_def)

lemma le_bytes_eq [simp]:
  "LENGTH('a::len) \<le> 8 * n \<Longrightarrow> le_bytes n (v :: 'a word) = le_bytes n w \<longleftrightarrow> v = w"
  using bytes_determine [of n v w] by (auto simp: le_bytes_def)

section \<open>Keys\<close>

definition address_bytes :: "address \<Rightarrow> bytes" where
  "address_bytes a = be_bytes 20 a"

definition hash_bytes :: "hash \<Rightarrow> bytes" where
  "hash_bytes h = be_bytes 32 h"

fun meta_key_bytes :: "meta_key \<Rightarrow> bytes" where
  "meta_key_bytes (KAccount asset a) = ascii ''account/'' @ wire_byte asset # ascii ''/'' @ address_bytes a"
| "meta_key_bytes (KTickets a) = ascii ''account/drc/tickets/'' @ address_bytes a"
| "meta_key_bytes (KRegularKey a) = ascii ''account/drc/regular-key/'' @ address_bytes a"
| "meta_key_bytes (KSignerList a) = ascii ''account/drc/signer-list/'' @ address_bytes a"
| "meta_key_bytes (KPolicy a) = ascii ''policy/drc/account/'' @ address_bytes a"
| "meta_key_bytes (KPreauth a src) = ascii ''policy/drc/deposit-preauth/'' @ address_bytes a @ address_bytes src"
| "meta_key_bytes (KIssued asset) = ascii ''meta/issued_supply/'' @ [wire_byte asset]"
| "meta_key_bytes KIssuedLegacy = ascii ''meta/issued_supply''"
| "meta_key_bytes (KBurned asset) = ascii ''meta/burned_supply/'' @ [wire_byte asset]"
| "meta_key_bytes (KMaxSupply asset) = ascii ''meta/max_supply/'' @ [wire_byte asset]"
| "meta_key_bytes KMaxSupplyLegacy = ascii ''meta/max_supply''"
| "meta_key_bytes KSchema = ascii ''meta/schema_version''"
| "meta_key_bytes KLedgerIndexMarker = ascii ''ledger/drc/index/version''"
| "meta_key_bytes (KValidator asset a) = ascii ''stake/val/'' @ wire_byte asset # ascii ''/'' @ address_bytes a"
| "meta_key_bytes (KDelegation asset d v) =
     ascii ''stake/del/'' @ wire_byte asset # ascii ''/'' @ address_bytes d @ ascii ''/'' @ address_bytes v"
| "meta_key_bytes (KUnbonding asset a) = ascii ''stake/unbond/'' @ wire_byte asset # ascii ''/'' @ address_bytes a"
| "meta_key_bytes (KEpoch asset) = ascii ''stake/epoch/'' @ [wire_byte asset]"
| "meta_key_bytes (KSnapshot asset e) = ascii ''stake/snap/'' @ wire_byte asset # ascii ''/'' @ le_bytes 8 e"
| "meta_key_bytes (KRewardPool asset) = ascii ''stake/reward_pool/'' @ [wire_byte asset]"
| "meta_key_bytes (KReserve asset) = ascii ''stake/reserve_remaining/'' @ [wire_byte asset]"
| "meta_key_bytes (KEscrowLive i) = ascii ''escrow/drc/live/'' @ hash_bytes i"
| "meta_key_bytes (KEscrowOwner a) = ascii ''escrow/drc/owner/'' @ address_bytes a"
| "meta_key_bytes (KEscrowSettled i) = ascii ''escrow/drc/settled/'' @ hash_bytes i"
| "meta_key_bytes (KEscrowReceipt i) = ascii ''escrow/drc/receipt/'' @ hash_bytes i"
| "meta_key_bytes (KCertificate h) = ascii ''finality/cert/'' @ hash_bytes h"
| "meta_key_bytes (KAttIndex h) = ascii ''finality/idx/'' @ hash_bytes h"
| "meta_key_bytes (KLastAtt asset a e) =
     ascii ''finality/last_att/'' @ wire_byte asset # ascii ''/'' @ address_bytes a @ ascii ''/'' @ le_bytes 8 e"
| "meta_key_bytes KFinalizedTip = ascii ''finality/tip_blue_score''"

lemma address_bytes_eq [simp]: "address_bytes a = address_bytes b \<longleftrightarrow> a = b"
  by (simp add: address_bytes_def)

lemma hash_bytes_eq [simp]: "hash_bytes a = hash_bytes b \<longleftrightarrow> a = b"
  by (simp add: hash_bytes_def)

lemma field_lengths [simp]: "length (address_bytes a) = 20" "length (hash_bytes h) = 32"
  by (simp_all add: address_bytes_def hash_bytes_def)

lemma wire_byte_eq [simp]: "wire_byte a = wire_byte b \<longleftrightarrow> a = b"
  by (cases a; cases b) simp_all

lemma wire_byte_small: "wire_byte a = 0 \<or> wire_byte a = 1 \<or> wire_byte a = 2"
  by (cases a) simp_all

lemma wire_byte_not_d: "wire_byte a \<noteq> 100" "100 \<noteq> wire_byte a"
  by (cases a; simp)+

lemma meta_key_bytes_inj: "meta_key_bytes k = meta_key_bytes k' \<Longrightarrow> k = k'"
  by (cases k; cases k'; simp add: wire_byte_not_d)

section \<open>The typed store and the byte store\<close>

fun encode_op :: "(meta_val \<Rightarrow> bytes) \<Rightarrow> write_op \<Rightarrow> cf_write_op" where
  "encode_op enc (Put k v) = PutCf Meta (meta_key_bytes k) (enc v)"
| "encode_op enc (Delete k) = DeleteCf Meta (meta_key_bytes k)"

definition stored_as :: "(meta_val \<Rightarrow> bytes) \<Rightarrow> state_store \<Rightarrow> state_backend \<Rightarrow> bool" where
  "stored_as enc s st \<longleftrightarrow>
     (\<forall>k. lookup_cf st Meta (meta_key_bytes k) = map_option enc (get_cf s k))"

lemma stored_as_step:
  assumes "stored_as enc s st" and "backend_wf st"
  shows "stored_as enc (apply_batch b s) (write_batch_cf (map (encode_op enc) b) st)"
proof -
  have "batch_value (map (op_effect \<circ> encode_op enc) b) (3, meta_key_bytes k) (map_option enc v)
      = map_option enc (batch_value (map typed_effect b) k v)" for k v
  proof (induction b arbitrary: v)
    case (Cons op b)
    show ?case
    proof (cases op)
      case (Put k' v')
      show ?thesis
      proof (cases "k = k'")
        case False
        then have "meta_key_bytes k \<noteq> meta_key_bytes k'" using meta_key_bytes_inj by blast
        with False show ?thesis using Cons [of v] by (simp add: Put)
      qed (use Cons [of "Some v'"] in \<open>simp add: Put\<close>)
    next
      case (Delete k')
      show ?thesis
      proof (cases "k = k'")
        case False
        then have "meta_key_bytes k \<noteq> meta_key_bytes k'" using meta_key_bytes_inj by blast
        with False show ?thesis using Cons [of v] by (simp add: Delete)
      qed (use Cons [of None] in \<open>simp add: Delete\<close>)
    qed
  qed simp
  with assms show ?thesis
    by (simp add: stored_as_def lookup_cf_view bytes_store.read_commit typed_store.read_commit)
qed

text \<open>
  Property C29. The typed store refines the byte store. Whatever the encoding of values, if every typed key reads
  from the byte store as the encoding of its typed value, so it does after any sequence of typed batches
  written through a stack of overlays; in particular no two typed keys share a byte string.
\<close>

theorem typed_store_refines_bytes:
  assumes "stored_as enc s st" and "backend_wf st"
  shows "stored_as enc (fold apply_batch bs s) (fold (\<lambda>b. write_batch_cf (map (encode_op enc) b)) bs (open_cow_overlay st))
    \<and> inj meta_key_bytes"
proof -
  have "stored_as enc s (open_cow_overlay st) \<and> backend_wf (open_cow_overlay st)"
    using assms by (simp add: stored_as_def open_cow_overlay_def)
  moreover have "stored_as enc (fold apply_batch bs s) (fold (\<lambda>b. write_batch_cf (map (encode_op enc) b)) bs st')"
    if "stored_as enc s st' \<and> backend_wf st'" for s st'
    using that
  proof (induction bs arbitrary: s st')
    case (Cons b bs)
    then show ?case using stored_as_step bytes_store.commit_valid by simp
  qed simp
  ultimately show ?thesis using meta_key_bytes_inj by (auto intro: injI)
qed

theorem typed_store_refines_bytes_witness:
  "stored_as (\<lambda>_. [1]) (apply_batch [Put KSchema (VU32 22)] [])
     (write_batch_cf [PutCf Meta (ascii ''meta/schema_version'') [1]] (open_cow_overlay open_in_memory))"
proof -
  have "stored_as (\<lambda>_. [1]) [] open_in_memory" "backend_wf open_in_memory"
    by (simp_all add: stored_as_def open_in_memory_def get_cf_def)
  from typed_store_refines_bytes [OF this, of "[[Put KSchema (VU32 22)]]"] show ?thesis by simp
qed

end
