(* ===== verification/Utxo.thy ===== *)
theory Utxo
  imports Lanes Kv_Store "HOL-Library.Sublist"
begin

text \<open>
  The TLT transactions of a block (\<^verbatim>\<open>state-machine/src/apply.rs\<close>, \<^verbatim>\<open>types/src/transaction.rs\<close>,
  \<^verbatim>\<open>crypto/src/transaction.rs\<close>): which transfers of a block can be applied, how they and the coinbase
  change the set of unspent outputs, the journal that undoes them, and the checks a transfer passes
  before it enters the mempool.

  The \<^verbatim>\<open>Utxo\<close> column is an association list with distinct outpoints; hash sets and maps of the code are
  lists. The covenant lane is empty: it contributes no fee and no output. Hashes, signatures and Borsh are the
  parameters of \<open>crypto_env\<close>.
\<close>

section \<open>Transactions\<close>

record out_point =
  op_tx_id :: hash
  op_index :: u32

record tx_out =
  out_value :: amount
  out_address :: address

record transaction =
  t_version :: u32
  t_inputs :: "out_point list"
  t_outputs :: "tx_out list"
  t_nonce :: u64
  t_public_key :: bytes
  t_signature :: bytes

definition transaction_body :: "transaction \<Rightarrow> borsh_val list" where
  "transaction_body tx =
     [BU32 (t_version tx),
      BList (map (\<lambda>op. BList [BHash (op_tx_id op), BU32 (op_index op)]) (t_inputs tx)),
      BList (map (\<lambda>out. BList [BU64 (out_value out), BAddr (out_address out)]) (t_outputs tx)),
      BU64 (t_nonce tx)]"

definition signing_bytes :: "crypto_env \<Rightarrow> transaction \<Rightarrow> bytes" where
  "signing_bytes env tx = borsh_to_vec env (BStr ''agora-tx-v1'' # transaction_body tx)"

definition signing_bytes_bound :: "crypto_env \<Rightarrow> transaction \<Rightarrow> string \<Rightarrow> hash \<Rightarrow> bytes" where
  "signing_bytes_bound env tx chain gen =
     borsh_to_vec env ([BStr ''agora-tx-v1'', BStr chain, BHash gen] @ transaction_body tx)"

definition tx_id :: "crypto_env \<Rightarrow> transaction \<Rightarrow> hash" where
  "tx_id env tx = hash_borsh env (transaction_body tx @ [BBytes (t_public_key tx), BBytes (t_signature tx)])"

definition verify_signing :: "crypto_env \<Rightarrow> transaction \<Rightarrow> bytes \<Rightarrow> string + unit" where
  "verify_signing env tx signing =
     (if length (t_public_key tx) \<noteq> 33 \<or> length (t_signature tx) \<noteq> 64 then Err invalid_transaction_auth
      else if secp_verify env (t_public_key tx) signing (t_signature tx) then Ok ()
      else Err ''secp256k1 error'')"

definition signer_address :: "crypto_env \<Rightarrow> transaction \<Rightarrow> string + address" where
  "signer_address env tx =
     bind_result (verify_signing env tx (signing_bytes env tx)) (\<lambda>_.
     Ok (address_from_pubkey env (t_public_key tx)))"

definition verify_and_signer :: "crypto_env \<Rightarrow> transaction \<Rightarrow> tx_auth_context option \<Rightarrow> address res" where
  "verify_and_signer env tx auth =
     (case auth of
        Some ctx \<Rightarrow>
          bind_result (map_err InvalidTx
              (verify_signing env tx (signing_bytes_bound env tx (chain_id ctx) (genesis ctx)))) (\<lambda>_.
          if length (t_public_key tx) \<noteq> 33 then Err (InvalidTx ''bad pubkey'')
          else Ok (address_from_pubkey env (t_public_key tx)))
      | None \<Rightarrow> map_err InvalidTx (signer_address env tx))"

section \<open>The set of unspent outputs\<close>

type_synonym utxo_set = "(out_point \<times> tx_out) list"

datatype utxo_op = PutUtxo out_point tx_out | DeleteUtxo out_point

fun apply_utxo_op :: "utxo_op \<Rightarrow> utxo_set \<Rightarrow> utxo_set" where
  "apply_utxo_op (PutUtxo op out) u = AList.update op out u"
| "apply_utxo_op (DeleteUtxo op) u = AList.delete op u"

definition apply_utxo_batch :: "utxo_op list \<Rightarrow> utxo_set \<Rightarrow> utxo_set" where
  "apply_utxo_batch b u = fold apply_utxo_op b u"

definition load_utxo :: "utxo_set \<Rightarrow> out_point \<Rightarrow> tx_out res" where
  "load_utxo u op = ok_or (map_of u op) (MissingUtxo ''outpoint'')"

definition output_points :: "crypto_env \<Rightarrow> transaction \<Rightarrow> (out_point \<times> tx_out) list" where
  "output_points env tx =
     map (\<lambda>(i, out). (\<lparr>op_tx_id = tx_id env tx, op_index = of_nat i\<rparr>, out)) (enumerate 0 (t_outputs tx))"

definition coinbase_outpoints_exist :: "crypto_env \<Rightarrow> utxo_set \<Rightarrow> transaction \<Rightarrow> bool" where
  "coinbase_outpoints_exist env u tx = list_ex (\<lambda>(op, _). map_of u op \<noteq> None) (output_points env tx)"

definition sum_values :: "state_error \<Rightarrow> tx_out list \<Rightarrow> amount res" where
  "sum_values err outs =
     fold_result (\<lambda>total out. ok_or (checked_add total (out_value out)) err) 0 outs"

section \<open>Fees and mempool admission\<close>

definition transfer_fee :: "utxo_set \<Rightarrow> transaction \<Rightarrow> amount res" where
  "transfer_fee u tx =
     (if t_inputs tx = [] then Ok 0
      else
      bind_result (fold_result (\<lambda>v op. bind_result (load_utxo u op) (\<lambda>out.
          ok_or (checked_add v (out_value out)) (InvalidTx ''input value overflow''))) 0 (t_inputs tx)) (\<lambda>input_value.
      bind_result (sum_values (InvalidTx ''output value overflow'') (t_outputs tx)) (\<lambda>output_value.
      if input_value < output_value then Err (InvalidTx ''insufficient funds'')
      else Ok (input_value - output_value))))"

definition MAX_TX_INPUTS :: nat where "MAX_TX_INPUTS = 64"

definition MAX_TX_OUTPUTS :: nat where "MAX_TX_OUTPUTS = 64"

definition MAX_TX_BYTES :: nat where "MAX_TX_BYTES = 100000"

fun mempool_inputs ::
    "utxo_set \<Rightarrow> out_point list \<Rightarrow> address \<Rightarrow> out_point list \<Rightarrow> amount \<Rightarrow> out_point list \<Rightarrow> amount res" where
  "mempool_inputs u reserved signer seen v [] = Ok v"
| "mempool_inputs u reserved signer seen v (op # ops) =
     (if op \<in> set seen \<or> op \<in> set reserved then Err (DoubleSpend ''outpoint'')
      else
      bind_result (load_utxo u op) (\<lambda>out.
      if out_address out \<noteq> signer then Err (InvalidTx ''input not owned by signer'')
      else
      bind_result (ok_or (checked_add v (out_value out)) (InvalidTx ''input value overflow'')) (\<lambda>v'.
      mempool_inputs u reserved signer (op # seen) v' ops)))"

definition validate_mempool_tx_with_auth ::
    "crypto_env \<Rightarrow> utxo_set \<Rightarrow> transaction \<Rightarrow> out_point list \<Rightarrow> tx_auth_context option \<Rightarrow> amount res" where
  "validate_mempool_tx_with_auth env u tx reserved auth =
     (if t_inputs tx = [] then Err (InvalidTx ''coinbase not allowed in mempool'')
      else if MAX_TX_INPUTS < length (t_inputs tx) then Err (BlockLimit ''too many inputs'')
      else if MAX_TX_OUTPUTS < length (t_outputs tx) then Err (BlockLimit ''too many outputs'')
      else if MAX_TX_BYTES < length (borsh_to_vec env (transaction_body tx
                @ [BBytes (t_public_key tx), BBytes (t_signature tx)]))
      then Err (BlockLimit ''tx too large'')
      else
      bind_result (verify_and_signer env tx auth) (\<lambda>signer.
      bind_result (mempool_inputs u reserved signer [] 0 (t_inputs tx)) (\<lambda>input_value.
      bind_result (sum_values (InvalidTx ''output value overflow'') (t_outputs tx)) (\<lambda>output_value.
      if input_value < output_value then Err (InvalidTx ''insufficient funds'')
      else Ok (input_value - output_value)))))"

definition balance_of :: "utxo_set \<Rightarrow> address \<Rightarrow> amount res" where
  "balance_of u a =
     sum_values (Storage ''balance overflow'') (filter (\<lambda>out. out_address out = a) (map snd u))"

section \<open>Selection\<close>

text \<open>
  The pre-scan: inputs are resolved against the outputs of the block first. \<open>None\<close> means that the
  transfer is skipped (an input is missing, reserved by an earlier transfer, or repeated).
\<close>

fun select_inputs ::
    "utxo_set \<Rightarrow> utxo_set \<Rightarrow> out_point list \<Rightarrow> out_point list \<Rightarrow> amount \<Rightarrow> out_point list
     \<Rightarrow> (out_point list \<times> amount) option res" where
  "select_inputs u created reserved pending v [] = Ok (Some (pending, v))"
| "select_inputs u created reserved pending v (op # ops) =
     (if op \<in> set reserved \<or> op \<in> set pending then Ok None
      else
      case (case map_of created op of Some out \<Rightarrow> Some out | None \<Rightarrow> map_of u op) of
        None \<Rightarrow> Ok None
      | Some out \<Rightarrow>
          bind_result (ok_or (checked_add v (out_value out)) (InvalidTx ''input value overflow'')) (\<lambda>v'.
          select_inputs u created reserved (pending @ [op]) v' ops))"

record selection =
  sl_out :: "(transaction \<times> amount) list"
  sl_reserved :: "out_point list"
  sl_created :: utxo_set

definition add_outputs :: "crypto_env \<Rightarrow> transaction \<Rightarrow> utxo_set \<Rightarrow> utxo_set" where
  "add_outputs env tx created = fold (\<lambda>(op, out). AList.update op out) (output_points env tx) created"

definition seed_coinbase ::
    "crypto_env \<Rightarrow> utxo_set \<Rightarrow> apply_mode \<Rightarrow> transaction list \<Rightarrow> utxo_set" where
  "seed_coinbase env u mode txs =
     fold (\<lambda>tx created.
         if t_inputs tx \<noteq> [] then created
         else if mode = Virtual \<and> coinbase_outpoints_exist env u tx then created
         else add_outputs env tx created) txs []"

definition select_step ::
    "crypto_env \<Rightarrow> utxo_set \<Rightarrow> tx_auth_context option \<Rightarrow> apply_mode \<Rightarrow> selection \<Rightarrow> transaction \<Rightarrow> selection res" where
  "select_step env u auth mode sl tx =
     (if t_inputs tx = [] then Ok sl
      else
      bind_result (if mode = Strict then bind_result (verify_and_signer env tx auth) (\<lambda>_. Ok ()) else Ok ()) (\<lambda>_.
      bind_result (select_inputs u (sl_created sl) (sl_reserved sl) [] 0 (t_inputs tx)) (\<lambda>found.
      case found of
        None \<Rightarrow> Ok (if mode = Strict then sl\<lparr>sl_out := sl_out sl @ [(tx, 0)]\<rparr> else sl)
      | Some (pending, input_value) \<Rightarrow>
          bind_result (sum_values (InvalidTx ''output value overflow'') (t_outputs tx)) (\<lambda>output_value.
          if input_value < output_value then Err (InvalidTx ''insufficient funds'')
          else Ok (sl\<lparr>sl_out := sl_out sl @ [(tx, input_value - output_value)],
                     sl_reserved := sl_reserved sl @ pending,
                     sl_created := add_outputs env tx (sl_created sl)\<rparr>)))))"

definition selectable_transfers ::
    "crypto_env \<Rightarrow> utxo_set \<Rightarrow> transaction list \<Rightarrow> tx_auth_context option \<Rightarrow> apply_mode
     \<Rightarrow> (transaction \<times> amount) list res" where
  "selectable_transfers env u txs auth mode =
     bind_result (fold_result (select_step env u auth mode)
        \<lparr>sl_out = [], sl_reserved = [], sl_created = seed_coinbase env u mode txs\<rparr> txs) (\<lambda>sl.
     Ok (sl_out sl))"

section \<open>Application\<close>

text \<open>What the loop over the transactions threads: the batch, the journal lists and the in-block sets.\<close>

record tx_state =
  ts_batch :: "utxo_op list"
  ts_spent :: utxo_set
  ts_created :: "out_point list"
  ts_spent_in_block :: "out_point list"
  ts_created_in_block :: utxo_set
  ts_coinbase_created :: "out_point list"

definition spend_utxo :: "out_point \<Rightarrow> tx_out \<Rightarrow> tx_state \<Rightarrow> tx_state" where
  "spend_utxo op out ts =
     (let ts1 = ts\<lparr>ts_batch := ts_batch ts @ [DeleteUtxo op], ts_spent_in_block := op # ts_spent_in_block ts\<rparr>
      in if map_of (ts_created_in_block ts) op \<noteq> None
         then ts1\<lparr>ts_created_in_block := AList.delete op (ts_created_in_block ts),
                  ts_created := filter (\<lambda>c. c \<noteq> op) (ts_created ts)\<rparr>
         else ts1\<lparr>ts_spent := ts_spent ts @ [(op, out)]\<rparr>)"

definition create_output ::
    "utxo_set \<Rightarrow> bool \<Rightarrow> tx_state \<Rightarrow> out_point \<times> tx_out \<Rightarrow> tx_state res" where
  "create_output u coinbase ts entry =
     (case entry of (op, out) \<Rightarrow>
        if map_of (ts_created_in_block ts) op \<noteq> None then Err (DuplicateOutpoint ''outpoint'')
        else if map_of u op \<noteq> None then Err (DuplicateOutpoint ''outpoint (already in utxo set)'')
        else Ok (ts\<lparr>ts_batch := ts_batch ts @ [PutUtxo op out],
                    ts_created := ts_created ts @ [op],
                    ts_created_in_block := AList.update op out (ts_created_in_block ts),
                    ts_coinbase_created := (if coinbase then [op] else []) @ ts_coinbase_created ts\<rparr>))"

definition create_outputs ::
    "crypto_env \<Rightarrow> utxo_set \<Rightarrow> bool \<Rightarrow> transaction \<Rightarrow> tx_state \<Rightarrow> tx_state res" where
  "create_outputs env u coinbase tx ts = fold_result (create_output u coinbase) ts (output_points env tx)"

definition apply_coinbase ::
    "crypto_env \<Rightarrow> utxo_set \<Rightarrow> transaction \<Rightarrow> amount \<Rightarrow> tx_state \<Rightarrow> (tx_state \<times> amount) res" where
  "apply_coinbase env u tx coinbase_reward ts =
     (if t_outputs tx = [] then Err (Coinbase ''coinbase has no outputs'')
      else
      bind_result (sum_values (Coinbase ''output overflow'') (t_outputs tx)) (\<lambda>total.
      if coinbase_reward < total then Err (Coinbase ''coinbase exceeds reward'')
      else
      bind_result (create_outputs env u True tx ts) (\<lambda>ts'. Ok (ts', total))))"

fun resolve_inputs ::
    "utxo_set \<Rightarrow> tx_state \<Rightarrow> address \<Rightarrow> utxo_set \<Rightarrow> amount \<Rightarrow> out_point list \<Rightarrow> (utxo_set \<times> amount) res" where
  "resolve_inputs u ts signer pending v [] = Ok (pending, v)"
| "resolve_inputs u ts signer pending v (op # ops) =
     (if op \<in> set (ts_spent_in_block ts) then Err (DoubleSpend ''outpoint'')
      else if op \<in> set (ts_coinbase_created ts) then Err (ImmatureCoinbase ''outpoint (same-block)'')
      else
      bind_result (case map_of (ts_created_in_block ts) op of Some out \<Rightarrow> Ok out | None \<Rightarrow> load_utxo u op) (\<lambda>out.
      if out_address out \<noteq> signer then Err (InvalidTx ''input not owned by signer'')
      else
      bind_result (ok_or (checked_add v (out_value out)) (InvalidTx ''input value overflow'')) (\<lambda>v'.
      resolve_inputs u ts signer (pending @ [(op, out)]) v' ops)))"

definition apply_transfer ::
    "crypto_env \<Rightarrow> utxo_set \<Rightarrow> transaction \<Rightarrow> tx_auth_context option \<Rightarrow> tx_state \<Rightarrow> tx_state res" where
  "apply_transfer env u tx auth ts =
     bind_result (verify_and_signer env tx auth) (\<lambda>signer.
     bind_result (resolve_inputs u ts signer [] 0 (t_inputs tx)) (\<lambda>(pending_spends, input_value).
     bind_result (sum_values (InvalidTx ''output value overflow'') (t_outputs tx)) (\<lambda>output_value.
     if input_value < output_value then Err (InvalidTx ''insufficient funds'')
     else create_outputs env u False tx (fold (\<lambda>(op, out). spend_utxo op out) pending_spends ts))))"

record tx_loop =
  tl_state :: tx_state
  tl_coinbases :: u32
  tl_coinbase_total :: amount
  tl_pending :: "(transaction \<times> amount) list"
  tl_accepted_ids :: "hash list"
  tl_statuses :: "transaction_acceptance list"

definition accept_tx :: "crypto_env \<Rightarrow> transaction \<Rightarrow> tx_state \<Rightarrow> tx_loop \<Rightarrow> tx_loop" where
  "accept_tx env tx ts lp =
     lp\<lparr>tl_state := ts, tl_accepted_ids := tx_id env tx # tl_accepted_ids lp,
        tl_statuses := tl_statuses lp @ [Accepted]\<rparr>"

definition tx_step ::
    "crypto_env \<Rightarrow> utxo_set \<Rightarrow> tx_auth_context option \<Rightarrow> apply_mode \<Rightarrow> amount \<Rightarrow> tx_loop \<Rightarrow> transaction
     \<Rightarrow> tx_loop res" where
  "tx_step env u auth mode coinbase_budget lp tx =
     (if t_inputs tx = []
      then let lp1 = lp\<lparr>tl_coinbases := tl_coinbases lp + 1\<rparr> in
        if 1 < tl_coinbases lp1 then Err (Coinbase ''multiple coinbase txs'')
        else if mode = Virtual \<and> coinbase_outpoints_exist env u tx
        then Ok (lp1\<lparr>tl_statuses := tl_statuses lp1 @ [ExactDuplicate]\<rparr>)
        else bind_result (apply_coinbase env u tx coinbase_budget (tl_state lp1)) (\<lambda>(ts, total).
             Ok (accept_tx env tx ts (lp1\<lparr>tl_coinbase_total := total\<rparr>)))
      else if (case tl_pending lp of (t, _) # _ \<Rightarrow> tx_id env t = tx_id env tx | [] \<Rightarrow> False)
      then bind_result (apply_transfer env u tx auth (tl_state lp)) (\<lambda>ts.
           Ok (accept_tx env tx ts (lp\<lparr>tl_pending := tl (tl_pending lp)\<rparr>)))
      else if mode = Virtual
      then bind_result (verify_and_signer env tx auth) (\<lambda>_.
           Ok (lp\<lparr>tl_statuses := tl_statuses lp
                  @ [if tx_id env tx \<in> set (tl_accepted_ids lp) then ExactDuplicate else ConflictLost]\<rparr>))
      else bind_result (apply_transfer env u tx auth (tl_state lp)) (\<lambda>ts. Ok (accept_tx env tx ts lp)))"

record utxo_result =
  ur_batch :: "utxo_op list"
  ur_spent :: utxo_set
  ur_created :: "out_point list"
  ur_fees :: amount
  ur_subsidy :: amount
  ur_coinbase_total :: amount
  ur_statuses :: "transaction_acceptance list"

definition tx_state_new :: tx_state where
  "tx_state_new = \<lparr>ts_batch = [], ts_spent = [], ts_created = [], ts_spent_in_block = [],
     ts_created_in_block = [], ts_coinbase_created = []\<rparr>"

definition apply_transactions ::
    "crypto_env \<Rightarrow> utxo_set \<Rightarrow> transaction list \<Rightarrow> amount \<Rightarrow> tx_auth_context option \<Rightarrow> apply_mode
     \<Rightarrow> utxo_result res" where
  "apply_transactions env u txs emission_reward auth mode =
     bind_result (selectable_transfers env u txs auth mode) (\<lambda>transferable.
     bind_result (fold_result (\<lambda>total (_, fee). ok_or (checked_add total fee) (InvalidTx ''fee overflow''))
        0 transferable) (\<lambda>applied_fees.
     bind_result (ok_or (checked_add emission_reward applied_fees) (Coinbase ''reward overflow'')) (\<lambda>coinbase_budget.
     bind_result (fold_result (tx_step env u auth mode coinbase_budget)
        \<lparr>tl_state = tx_state_new, tl_coinbases = 0, tl_coinbase_total = 0, tl_pending = transferable,
         tl_accepted_ids = [], tl_statuses = []\<rparr> txs) (\<lambda>lp.
     if tl_coinbases lp = 0 then Err (Coinbase ''missing coinbase'')
     else Ok \<lparr>ur_batch = ts_batch (tl_state lp), ur_spent = ts_spent (tl_state lp),
              ur_created = ts_created (tl_state lp), ur_fees = applied_fees,
              ur_subsidy = saturating_sub (tl_coinbase_total lp) (min applied_fees (tl_coinbase_total lp)),
              ur_coinbase_total = tl_coinbase_total lp, ur_statuses = tl_statuses lp\<rparr>))))"

text \<open>Undoing a block: created outputs are deleted and spent outputs restored, newest first.\<close>

definition revert_utxo_batch :: "out_point list \<Rightarrow> utxo_set \<Rightarrow> utxo_op list" where
  "revert_utxo_batch created spent =
     map DeleteUtxo (rev created) @ map (\<lambda>(op, out). PutUtxo op out) (rev spent)"

section \<open>Value of a set of outputs\<close>

fun utxo_effect :: "utxo_op \<Rightarrow> out_point \<times> tx_out option" where
  "utxo_effect (PutUtxo op out) = (op, Some out)"
| "utxo_effect (DeleteUtxo op) = (op, None)"

lemma map_of_utxo_op [simp]:
  "map_of (AList.update k v u) k' = (if k' = k then Some v else map_of u k')"
  "map_of (AList.delete k u) k' = (if k' = k then None else map_of u k')"
  by (auto simp: update_conv' delete_conv')

lemma apply_utxo_batch_simps [simp]:
  "apply_utxo_batch [] u = u"
  "apply_utxo_batch (w # b) u = apply_utxo_batch b (apply_utxo_op w u)"
  "apply_utxo_batch (b @ b') u = apply_utxo_batch b' (apply_utxo_batch b u)"
  by (simp_all add: apply_utxo_batch_def)

interpretation utxo_column: batch_store map_of apply_utxo_batch utxo_effect "\<lambda>_. True"
proof
  fix u b k
  show "map_of (apply_utxo_batch b u) k = batch_value (map utxo_effect b) k (map_of u k)"
  proof (induction b arbitrary: u)
    case (Cons op b)
    then show ?case by (cases op) auto
  qed simp
qed simp

definition utxo_wf :: "utxo_set \<Rightarrow> bool" where
  "utxo_wf u \<longleftrightarrow> distinct (map fst u)"

lemma utxo_wf_apply [simp]: "utxo_wf u \<Longrightarrow> utxo_wf (apply_utxo_batch b u)"
proof (induction b arbitrary: u)
  case (Cons op b)
  have "utxo_wf (apply_utxo_op op u)"
    using Cons.prems by (cases op) (auto simp: utxo_wf_def distinct_update distinct_delete)
  then show ?case using Cons.IH by simp
qed simp

definition value_of :: "tx_out option \<Rightarrow> nat" where
  "value_of x = (case x of Some out \<Rightarrow> unat (out_value out) | None \<Rightarrow> 0)"

lemma value_of_simps [simp]: "value_of None = 0" "value_of (Some out) = unat (out_value out)"
  by (simp_all add: value_of_def)

definition utxo_total :: "utxo_set \<Rightarrow> nat" where
  "utxo_total u = sum_list (map (\<lambda>e. unat (out_value (snd e))) u)"

lemma utxo_total_Cons [simp]: "utxo_total (e # u) = unat (out_value (snd e)) + utxo_total u"
  by (simp add: utxo_total_def)

lemma utxo_total_delete:
  "utxo_wf u \<Longrightarrow> utxo_total (AList.delete k u) + value_of (map_of u k) = utxo_total u"
  unfolding utxo_wf_def
proof (induction u)
  case (Cons e u)
  obtain k' out where e: "e = (k', out)" by (cases e)
  show ?case
  proof (cases "k' = k")
    case True
    then have "AList.delete k u = u" using Cons.prems e by (intro AList.delete_id) auto
    then show ?thesis using True e by (simp add: AList.delete_eq)
  next
    case False
    then show ?thesis using Cons e by (simp add: AList.delete_eq)
  qed
qed (simp add: utxo_total_def)

lemma utxo_total_update:
  "utxo_wf u \<Longrightarrow> utxo_total (AList.update k out u) + value_of (map_of u k) = utxo_total u + unat (out_value out)"
  unfolding utxo_wf_def
proof (induction u)
  case (Cons e u)
  then show ?case by (cases e) auto
qed (simp add: utxo_total_def)

section \<open>Invariant of the transaction loop\<close>

text \<open>The unspent outputs as the block has left them so far.\<close>

definition utxo_view :: "utxo_set \<Rightarrow> tx_state \<Rightarrow> utxo_set" where
  "utxo_view u ts = apply_utxo_batch (ts_batch ts) u"

text \<open>
  The view is the committed set without the outputs spent and with the outputs created in the block; created
  outputs are new; the journal lists exactly the surviving created outputs and the spent committed ones.
\<close>

definition tx_ok :: "utxo_set \<Rightarrow> tx_state \<Rightarrow> bool" where
  "tx_ok u ts \<longleftrightarrow>
     (\<forall>op. map_of (utxo_view u ts) op = (case map_of (ts_created_in_block ts) op of Some out \<Rightarrow> Some out
        | None \<Rightarrow> if op \<in> set (ts_spent_in_block ts) then None else map_of u op))
     \<and> (\<forall>op. map_of (ts_created_in_block ts) op \<noteq> None \<longrightarrow> map_of u op = None)
     \<and> set (ts_created ts) = dom (map_of (ts_created_in_block ts))
     \<and> distinct (map fst (ts_spent ts))
     \<and> (\<forall>op. map_of (ts_spent ts) op = (if op \<in> set (ts_spent_in_block ts) then map_of u op else None))"

lemma tx_ok_new: "tx_ok u tx_state_new"
  by (simp add: tx_ok_def tx_state_new_def utxo_view_def)

lemma spend_utxo_ok:
  assumes "tx_ok u ts" and "op \<notin> set (ts_spent_in_block ts)" and "map_of (utxo_view u ts) op = Some out"
    and "utxo_wf u"
  shows "tx_ok u (spend_utxo op out ts)"
    and "utxo_total (utxo_view u (spend_utxo op out ts)) + unat (out_value out) = utxo_total (utxo_view u ts)"
    and "ts_spent_in_block (spend_utxo op out ts) = op # ts_spent_in_block ts"
    and "map_of (utxo_view u (spend_utxo op out ts)) op' = (if op' = op then None else map_of (utxo_view u ts) op')"
    and "ts_coinbase_created (spend_utxo op out ts) = ts_coinbase_created ts"
    and "map_of (ts_created_in_block (spend_utxo op out ts)) op' = (if op' = op then None else map_of (ts_created_in_block ts) op')"
proof -
  have view: "utxo_view u (spend_utxo op out ts) = AList.delete op (utxo_view u ts)"
    by (simp add: utxo_view_def spend_utxo_def Let_def)
  show "utxo_total (utxo_view u (spend_utxo op out ts)) + unat (out_value out) = utxo_total (utxo_view u ts)"
    using utxo_total_delete [of "utxo_view u ts" op] assms(3,4) by (simp add: view) (simp add: utxo_view_def)
  show "ts_spent_in_block (spend_utxo op out ts) = op # ts_spent_in_block ts"
    "ts_coinbase_created (spend_utxo op out ts) = ts_coinbase_created ts"
    "map_of (ts_created_in_block (spend_utxo op out ts)) op' = (if op' = op then None else map_of (ts_created_in_block ts) op')" for op'
    by (auto simp: spend_utxo_def Let_def)
  show "map_of (utxo_view u (spend_utxo op out ts)) op' = (if op' = op then None else map_of (utxo_view u ts) op')" for op'
    by (simp add: view)
  show "tx_ok u (spend_utxo op out ts)"
  proof (cases "map_of (ts_created_in_block ts) op")
    case None
    then have "map_of u op = Some out" using assms(1-3) by (simp add: tx_ok_def)
    moreover have "op \<notin> fst ` set (ts_spent ts)"
      using assms(1,2) by (simp add: tx_ok_def map_of_eq_None_iff [symmetric])
    ultimately show ?thesis
      using assms(1,2) None
      by (auto simp: tx_ok_def view) (auto simp: spend_utxo_def Let_def map_add_def split: option.split)
  next
    case (Some o')
    then have "map_of u op = None" using assms(1) by (simp add: tx_ok_def)
    with Some show ?thesis
      using assms(1,2) by (auto simp: tx_ok_def view) (auto simp: spend_utxo_def Let_def split: option.split if_splits)
  qed
qed

text \<open>Spending a list of distinct outputs.\<close>

definition spend_all :: "utxo_set \<Rightarrow> tx_state \<Rightarrow> tx_state" where
  "spend_all qs ts = fold (\<lambda>(op, out). spend_utxo op out) qs ts"

lemma spend_all_ok:
  assumes "tx_ok u ts" and "distinct (map fst qs)" and "utxo_wf u"
    and "\<forall>(op, out) \<in> set qs. op \<notin> set (ts_spent_in_block ts) \<and> map_of (utxo_view u ts) op = Some out"
  shows "tx_ok u (spend_all qs ts)
    \<and> utxo_total (utxo_view u (spend_all qs ts)) + sum_list (map (\<lambda>q. unat (out_value (snd q))) qs) = utxo_total (utxo_view u ts)
    \<and> set (ts_spent_in_block (spend_all qs ts)) = fst ` set qs \<union> set (ts_spent_in_block ts)
    \<and> ts_coinbase_created (spend_all qs ts) = ts_coinbase_created ts
    \<and> (\<forall>op. map_of (ts_created_in_block (spend_all qs ts)) op
         = (if op \<in> fst ` set qs then None else map_of (ts_created_in_block ts) op))"
  using assms
proof (induction qs arbitrary: ts)
  case (Cons q qs)
  obtain op out where q: "q = (op, out)" by (cases q)
  have op: "op \<notin> set (ts_spent_in_block ts)" "map_of (utxo_view u ts) op = Some out" using Cons.prems(4) q by auto
  note S = spend_utxo_ok [OF Cons.prems(1) op Cons.prems(3)]
  have "\<forall>(op', out') \<in> set qs. op' \<notin> set (ts_spent_in_block (spend_utxo op out ts))
      \<and> map_of (utxo_view u (spend_utxo op out ts)) op' = Some out'"
  proof (clarify)
    fix op' out' assume in_qs: "(op', out') \<in> set qs"
    then have "op' \<in> fst ` set qs" by force
    then have "op' \<noteq> op" using Cons.prems(2) q by auto
    with in_qs Cons.prems(4) show "op' \<notin> set (ts_spent_in_block (spend_utxo op out ts))
        \<and> map_of (utxo_view u (spend_utxo op out ts)) op' = Some out'" by (auto simp: S(3,4))
  qed
  from Cons.IH [OF S(1) _ Cons.prems(3) this] Cons.prems(2) show ?case
    by (auto simp: q spend_all_def S(3,5,6) S(2) [symmetric])
qed (simp add: spend_all_def)

lemma create_output_ok:
  assumes "tx_ok u ts" and "create_output u cb ts (op, out) = Ok ts'" and "utxo_wf u"
  shows "tx_ok u ts' \<and> utxo_total (utxo_view u ts') = utxo_total (utxo_view u ts) + unat (out_value out)
    \<and> ts_spent_in_block ts' = ts_spent_in_block ts
    \<and> map_of (ts_created_in_block ts') = (map_of (ts_created_in_block ts))(op \<mapsto> out)
    \<and> ts_coinbase_created ts' = (if cb then [op] else []) @ ts_coinbase_created ts
    \<and> map_of u op = None"
proof -
  have new: "map_of (ts_created_in_block ts) op = None" "map_of u op = None"
    and ts': "ts' = ts\<lparr>ts_batch := ts_batch ts @ [PutUtxo op out], ts_created := ts_created ts @ [op],
       ts_created_in_block := AList.update op out (ts_created_in_block ts),
       ts_coinbase_created := (if cb then [op] else []) @ ts_coinbase_created ts\<rparr>"
    using assms(2) by (auto simp: create_output_def split: if_splits)
  have view: "utxo_view u ts' = AList.update op out (utxo_view u ts)" by (simp add: ts' utxo_view_def)
  have "map_of (utxo_view u ts) op = None" using assms(1) new by (simp add: tx_ok_def)
  then have "utxo_total (utxo_view u ts') = utxo_total (utxo_view u ts) + unat (out_value out)"
    using utxo_total_update [of "utxo_view u ts" op out] assms(3) by (simp add: view) (simp add: utxo_view_def)
  moreover have "tx_ok u ts'"
    using assms(1) new by (auto simp: tx_ok_def view) (auto simp: ts' split: if_splits)
  ultimately show ?thesis using new by (auto simp: ts' fun_eq_iff)
qed

lemma create_entries_ok:
  assumes "tx_ok u ts" and "fold_result (create_output u cb) ts es = Ok ts'" and "utxo_wf u"
  shows "tx_ok u ts' \<and> utxo_total (utxo_view u ts') = utxo_total (utxo_view u ts) + sum_list (map (\<lambda>e. unat (out_value (snd e))) es)
    \<and> ts_spent_in_block ts' = ts_spent_in_block ts
    \<and> map_of (ts_created_in_block ts') = map_of (ts_created_in_block ts) ++ map_of (rev es)
    \<and> set (ts_coinbase_created ts') = (if cb then fst ` set es else {}) \<union> set (ts_coinbase_created ts)
    \<and> (\<forall>op \<in> fst ` set es. map_of u op = None)"
  using assms(1,2)
proof (induction es arbitrary: ts)
  case (Cons e es)
  obtain op out where e: "e = (op, out)" by (cases e)
  from Cons.prems(2) obtain t1 where t1: "create_output u cb ts (op, out) = Ok t1"
    and rest: "fold_result (create_output u cb) t1 es = Ok ts'" by (auto simp: e)
  note C = create_output_ok [OF Cons.prems(1) t1 assms(3)]
  from Cons.IH [OF _ rest] C show ?case by (auto simp: e map_add_def fun_eq_iff split: option.split)
qed simp

lemma sum_values_sum:
  "sum_values err outs = Ok v \<Longrightarrow> unat v = sum_list (map (\<lambda>o'. unat (out_value o')) outs)"
proof -
  have "fold_result (\<lambda>total out. ok_or (checked_add total (out_value out)) err) a outs = Ok v \<Longrightarrow>
      unat v = unat a + sum_list (map (\<lambda>o'. unat (out_value o')) outs)" for a
    by (induction outs arbitrary: a) (auto dest: checked_add_Some)
  from this [of 0] show "sum_values err outs = Ok v \<Longrightarrow> ?thesis" by (simp add: sum_values_def)
qed

lemma output_points_values:
  "map snd (output_points env tx) = t_outputs tx"
  by (simp add: output_points_def case_prod_unfold comp_def)

lemma create_outputs_ok:
  assumes "tx_ok u ts" and "create_outputs env u cb tx ts = Ok ts'" and "utxo_wf u"
    and "sum_values err (t_outputs tx) = Ok v"
  shows "tx_ok u ts' \<and> utxo_total (utxo_view u ts') = utxo_total (utxo_view u ts) + unat v
    \<and> ts_spent_in_block ts' = ts_spent_in_block ts
    \<and> map_of (ts_created_in_block ts') = map_of (ts_created_in_block ts) ++ map_of (rev (output_points env tx))
    \<and> set (ts_coinbase_created ts') = (if cb then fst ` set (output_points env tx) else {}) \<union> set (ts_coinbase_created ts)
    \<and> (\<forall>op \<in> fst ` set (output_points env tx). map_of u op = None)"
proof -
  have "map (\<lambda>e. unat (out_value (snd e))) (output_points env tx) = map (\<lambda>o'. unat (out_value o')) (t_outputs tx)"
    by (simp add: output_points_values [symmetric, of tx env] del: output_points_values)
  with create_entries_ok [OF assms(1) assms(2) [unfolded create_outputs_def] assms(3)] sum_values_sum [OF assms(4)]
  show ?thesis by simp
qed

lemma resolve_inputs_ok:
  assumes "tx_ok u ts" and "resolve_inputs u ts signer p v ops = Ok (p', v')"
  shows "\<exists>qs. p' = p @ qs \<and> map fst qs = ops \<and> unat v' = unat v + sum_list (map (\<lambda>q. unat (out_value (snd q))) qs)
    \<and> (\<forall>(op, out) \<in> set qs. op \<notin> set (ts_spent_in_block ts) \<and> op \<notin> set (ts_coinbase_created ts)
         \<and> map_of (utxo_view u ts) op = Some out \<and> out_address out = signer)"
  using assms(2)
proof (induction ops arbitrary: p v)
  case (Cons op ops)
  from Cons.prems obtain out v1 where out: "op \<notin> set (ts_spent_in_block ts)" "op \<notin> set (ts_coinbase_created ts)"
      "(case map_of (ts_created_in_block ts) op of Some out \<Rightarrow> Ok out | None \<Rightarrow> load_utxo u op) = Ok out"
      "out_address out = signer" "checked_add v (out_value out) = Some v1"
    and rest: "resolve_inputs u ts signer (p @ [(op, out)]) v1 ops = Ok (p', v')"
    by (auto split: if_splits)
  from out(1,3) have view: "map_of (utxo_view u ts) op = Some out"
    using assms(1) by (auto simp: tx_ok_def load_utxo_def split: option.splits)
  from Cons.IH [OF rest] obtain qs where "p' = (p @ [(op, out)]) @ qs" "map fst qs = ops"
      "unat v' = unat v1 + sum_list (map (\<lambda>q. unat (out_value (snd q))) qs)"
      "\<forall>(op, out) \<in> set qs. op \<notin> set (ts_spent_in_block ts) \<and> op \<notin> set (ts_coinbase_created ts)
         \<and> map_of (utxo_view u ts) op = Some out \<and> out_address out = signer" by blast
  with out view checked_add_Some [OF out(5)] show ?case by (intro exI [of _ "(op, out) # qs"]) auto
qed simp

text \<open>
  What a successful transfer does: its inputs are distinct unspent outputs of the signer, and the view loses
  their value and gains that of its outputs.
\<close>

lemma apply_transfer_ok:
  assumes "tx_ok u ts" and "apply_transfer env u tx auth ts = Ok ts'" and "utxo_wf u" and "distinct (t_inputs tx)"
  obtains qs signer vin vout where "verify_and_signer env tx auth = Ok signer" and "map fst qs = t_inputs tx"
    and "vin = sum_list (map (\<lambda>q. unat (out_value (snd q))) qs)"
    and "sum_values (InvalidTx ''output value overflow'') (t_outputs tx) = Ok vout" and "unat vout \<le> vin"
    and "\<forall>(op, out) \<in> set qs. op \<notin> set (ts_spent_in_block ts) \<and> op \<notin> set (ts_coinbase_created ts)
         \<and> map_of (utxo_view u ts) op = Some out \<and> out_address out = signer"
    and "tx_ok u ts'" and "utxo_total (utxo_view u ts') + vin = utxo_total (utxo_view u ts) + unat vout"
    and "set (ts_spent_in_block ts') = set (t_inputs tx) \<union> set (ts_spent_in_block ts)"
    and "\<forall>op. map_of (ts_created_in_block ts') op
         = (case map_of (rev (output_points env tx)) op of Some out \<Rightarrow> Some out
            | None \<Rightarrow> if op \<in> set (t_inputs tx) then None else map_of (ts_created_in_block ts) op)"
    and "set (ts_coinbase_created ts') = set (ts_coinbase_created ts)"
    and "\<forall>op \<in> fst ` set (output_points env tx). map_of u op = None"
proof -
  from assms(2) obtain signer p v vout where sg: "verify_and_signer env tx auth = Ok signer"
    and res: "resolve_inputs u ts signer [] 0 (t_inputs tx) = Ok (p, v)"
    and vout: "sum_values (InvalidTx ''output value overflow'') (t_outputs tx) = Ok vout" and le: "\<not> v < vout"
    and cr: "create_outputs env u False tx (spend_all p ts) = Ok ts'"
    by (auto simp: apply_transfer_def spend_all_def split: if_splits)
  from resolve_inputs_ok [OF assms(1) res] have qs: "map fst p = t_inputs tx"
    "unat v = sum_list (map (\<lambda>q. unat (out_value (snd q))) p)"
    "\<forall>(op, out) \<in> set p. op \<notin> set (ts_spent_in_block ts) \<and> op \<notin> set (ts_coinbase_created ts)
         \<and> map_of (utxo_view u ts) op = Some out \<and> out_address out = signer" by auto
  have keys: "fst ` set p = set (t_inputs tx)" using qs(1) by (metis list.set_map)
  have "\<forall>(op, out) \<in> set p. op \<notin> set (ts_spent_in_block ts) \<and> map_of (utxo_view u ts) op = Some out"
    using qs(3) by blast
  note S = spend_all_ok [OF assms(1) _ assms(3) this, unfolded qs(1), OF assms(4), unfolded keys]
  note C = create_outputs_ok [OF conjunct1 [OF S] cr assms(3) vout]
  show thesis
    using S C le by (intro that [OF sg qs(1) refl vout _ qs(3)])
      (auto simp: word_less_nat_alt qs(2) map_add_def split: option.split)
qed

section \<open>Selection promises exactly the fees that are collected\<close>

definition found_output :: "utxo_set \<Rightarrow> utxo_set \<Rightarrow> out_point \<Rightarrow> tx_out option" where
  "found_output u created op = (case map_of created op of Some out \<Rightarrow> Some out | None \<Rightarrow> map_of u op)"

lemma select_inputs_ok:
  assumes "select_inputs u created reserved p v ops = Ok (Some (p', v'))" and "distinct p"
  shows "p' = p @ ops \<and> distinct (p @ ops) \<and> set ops \<inter> set reserved = {}
    \<and> unat v' = unat v + sum_list (map (\<lambda>op. value_of (found_output u created op)) ops)"
  using assms
proof (induction ops arbitrary: p v)
  case (Cons op ops)
  from Cons.prems(1) obtain out v1 where new: "op \<notin> set reserved" "op \<notin> set p"
    and out: "found_output u created op = Some out" and v1: "checked_add v (out_value out) = Some v1"
    and rest: "select_inputs u created reserved (p @ [op]) v1 ops = Ok (Some (p', v'))"
    by (auto simp: found_output_def split: if_splits option.splits)
  from Cons.IH [OF rest] Cons.prems(2) new out checked_add_Some [OF v1] show ?case by auto
qed simp

text \<open>A selection as a chain: each transfer is resolvable after the ones before it, with its fee.\<close>

fun selection_chain :: "crypto_env \<Rightarrow> utxo_set \<Rightarrow> utxo_set \<Rightarrow> (transaction \<times> amount) list \<Rightarrow> bool" where
  "selection_chain env u created [] = True"
| "selection_chain env u created ((tx, fee) # sel) =
     (t_inputs tx \<noteq> [] \<and> distinct (t_inputs tx)
      \<and> (\<exists>vout. sum_values (InvalidTx ''output value overflow'') (t_outputs tx) = Ok vout
           \<and> sum_list (map (\<lambda>op. value_of (found_output u created op)) (t_inputs tx)) = unat vout + unat fee)
      \<and> selection_chain env u (add_outputs env tx created) sel)"

lemma select_fold_chain:
  assumes "fold_result (select_step env u auth Virtual) sl txs = Ok sl'"
  shows "\<exists>sel. sl_out sl' = sl_out sl @ sel \<and> selection_chain env u (sl_created sl) sel
    \<and> subseq (map fst sel) (filter (\<lambda>tx. t_inputs tx \<noteq> []) txs)"
  using assms
proof (induction txs arbitrary: sl)
  case (Cons tx txs)
  from Cons.prems obtain s1 where s1: "select_step env u auth Virtual sl tx = Ok s1"
    and rest: "fold_result (select_step env u auth Virtual) s1 txs = Ok sl'" by auto
  from Cons.IH [OF rest] obtain sel where sel: "sl_out sl' = sl_out s1 @ sel"
      "selection_chain env u (sl_created s1) sel" "subseq (map fst sel) (filter (\<lambda>tx. t_inputs tx \<noteq> []) txs)" by blast
  show ?case
  proof (cases "s1 = sl")
    case True
    with sel show ?thesis by (intro exI [of _ sel]) auto
  next
    case False
    with s1 obtain pending vin vout where ne: "t_inputs tx \<noteq> []"
      and inp: "select_inputs u (sl_created sl) (sl_reserved sl) [] 0 (t_inputs tx) = Ok (Some (pending, vin))"
      and vout: "sum_values (InvalidTx ''output value overflow'') (t_outputs tx) = Ok vout" and le: "\<not> vin < vout"
      and s1': "s1 = sl\<lparr>sl_out := sl_out sl @ [(tx, vin - vout)], sl_reserved := sl_reserved sl @ pending,
          sl_created := add_outputs env tx (sl_created sl)\<rparr>"
      by (auto simp: select_step_def split: if_splits option.splits)
    have "unat vin = unat vout + unat (vin - vout)" using le by (simp add: unat_sub word_less_nat_alt word_le_nat_alt)
    with select_inputs_ok [OF inp] ne vout sel s1' show ?thesis
      by (intro exI [of _ "(tx, vin - vout) # sel"]) auto
  qed
qed auto

lemma map_of_add_outputs:
  "map_of (add_outputs env tx created) = map_of created ++ map_of (rev (output_points env tx))"
proof -
  have "map_of (fold (\<lambda>(op, out). AList.update op out) es created) = map_of created ++ map_of (rev es)" for es
    by (induction es arbitrary: created) (auto simp: map_add_def fun_eq_iff split: option.split)
  then show ?thesis by (simp add: add_outputs_def)
qed

lemma map_of_rev_key: "map_of (rev es) op = Some out \<Longrightarrow> op \<in> fst ` set es"
  by (metis map_of_SomeD set_rev fst_conv image_eqI)

lemma no_coinbase_outpoint:
  "\<not> coinbase_outpoints_exist env u tx \<Longrightarrow> op \<in> fst ` set (output_points env tx) \<Longrightarrow> map_of u op = None"
  by (force simp: coinbase_outpoints_exist_def list_ex_iff)

lemma seed_coinbase_new:
  assumes "map_of (seed_coinbase env u Virtual txs) op \<noteq> None"
  shows "map_of u op = None"
proof -
  have "\<forall>op. map_of (fold (\<lambda>tx created. if t_inputs tx \<noteq> [] then created
         else if Virtual = Virtual \<and> coinbase_outpoints_exist env u tx then created
         else add_outputs env tx created) txs c) op \<noteq> None \<longrightarrow> map_of u op = None"
    if "\<forall>op. map_of c op \<noteq> None \<longrightarrow> map_of u op = None" for c
    using that
  proof (induction txs arbitrary: c)
    case (Cons tx txs)
    let ?c = "if t_inputs tx \<noteq> [] then c else if Virtual = Virtual \<and> coinbase_outpoints_exist env u tx then c
        else add_outputs env tx c"
    have "\<forall>op. map_of ?c op \<noteq> None \<longrightarrow> map_of u op = None"
      using Cons.prems
      by (auto simp: map_of_add_outputs map_add_def
          dest!: map_of_rev_key intro: no_coinbase_outpoint split: option.splits)
    from Cons.IH [OF this] show ?case by simp
  qed simp
  from this [of "[]"] assms show ?thesis by (auto simp: seed_coinbase_def)
qed

text \<open>The relation between the selection and the application at the same transaction.\<close>

definition selection_rel :: "utxo_set \<Rightarrow> utxo_set \<Rightarrow> tx_state \<Rightarrow> bool" where
  "selection_rel u created ts \<longleftrightarrow>
     (\<forall>op. map_of created op \<noteq> None \<longrightarrow> map_of u op = None)
     \<and> (\<forall>op out. map_of (ts_created_in_block ts) op = Some out \<longrightarrow> op \<notin> set (ts_coinbase_created ts)
          \<longrightarrow> map_of created op = Some out)"

lemma transfer_collects_fee:
  assumes "tx_ok u ts" and "apply_transfer env u tx auth ts = Ok ts'" and "utxo_wf u"
    and rel: "selection_rel u created ts" and chain: "selection_chain env u created ((tx, fee) # sel)"
  shows "tx_ok u ts' \<and> utxo_total (utxo_view u ts') + unat fee = utxo_total (utxo_view u ts)
    \<and> selection_rel u (add_outputs env tx created) ts'"
proof -
  have "distinct (t_inputs tx)" using chain by simp
  from assms(1-3) this obtain qs signer vin vout where qs: "map fst qs = t_inputs tx"
    and vin: "vin = sum_list (map (\<lambda>q. unat (out_value (snd q))) qs)"
    and vout: "sum_values (InvalidTx ''output value overflow'') (t_outputs tx) = Ok vout"
    and each: "\<forall>(op, out) \<in> set qs. op \<notin> set (ts_spent_in_block ts) \<and> op \<notin> set (ts_coinbase_created ts)
         \<and> map_of (utxo_view u ts) op = Some out \<and> out_address out = signer"
    and ok: "tx_ok u ts'" and tot: "utxo_total (utxo_view u ts') + vin = utxo_total (utxo_view u ts) + unat vout"
    and cre: "\<forall>op. map_of (ts_created_in_block ts') op
         = (case map_of (rev (output_points env tx)) op of Some out \<Rightarrow> Some out
            | None \<Rightarrow> if op \<in> set (t_inputs tx) then None else map_of (ts_created_in_block ts) op)"
    and cb: "set (ts_coinbase_created ts') = set (ts_coinbase_created ts)"
    and new: "\<forall>op \<in> fst ` set (output_points env tx). map_of u op = None"
    by (rule apply_transfer_ok)
  have found: "found_output u created op = Some out" if "(op, out) \<in> set qs" for op out
    using that each assms(1) rel
    by (fastforce simp: found_output_def tx_ok_def selection_rel_def split: option.splits)
  have "map (\<lambda>op. value_of (found_output u created op)) (t_inputs tx) = map (\<lambda>q. unat (out_value (snd q))) qs"
    using found by (auto simp: qs [symmetric])
  with chain vout vin have "vin = unat vout + unat fee" by simp
  with tot have "utxo_total (utxo_view u ts') + unat fee = utxo_total (utxo_view u ts)" by simp
  moreover have "selection_rel u (add_outputs env tx created) ts'"
    unfolding selection_rel_def
  proof (intro conjI allI impI)
    fix op assume "map_of (add_outputs env tx created) op \<noteq> None"
    then show "map_of u op = None"
      using rel new by (auto simp: selection_rel_def map_of_add_outputs map_add_def dest!: map_of_rev_key split: option.splits)
  next
    fix op out assume "map_of (ts_created_in_block ts') op = Some out" "op \<notin> set (ts_coinbase_created ts')"
    then show "map_of (add_outputs env tx created) op = Some out"
      using rel cre cb by (auto simp: selection_rel_def map_of_add_outputs map_add_def split: option.splits if_splits)
  qed
  ultimately show ?thesis using ok by blast
qed

section \<open>The transaction loop\<close>

lemma coinbase_step_ok:
  assumes "tx_ok u ts" and "apply_coinbase env u tx budget ts = Ok (ts', paid)" and "utxo_wf u"
    and "selection_rel u created ts"
  shows "tx_ok u ts' \<and> utxo_total (utxo_view u ts') = utxo_total (utxo_view u ts) + unat paid \<and> paid \<le> budget
    \<and> selection_rel u created ts' \<and> ts_spent_in_block ts' = ts_spent_in_block ts"
proof -
  from assms(2) have vout: "sum_values (Coinbase ''output overflow'') (t_outputs tx) = Ok paid" and le: "\<not> budget < paid"
    and cr: "create_outputs env u True tx ts = Ok ts'"
    by (auto simp: apply_coinbase_def split: if_splits)
  note C = create_outputs_ok [OF assms(1) cr assms(3) vout]
  have "selection_rel u created ts'"
    using C assms(4) by (auto simp: selection_rel_def map_add_def dest!: map_of_rev_key split: option.splits)
  with C le show ?thesis by auto
qed

definition loop_ok :: "crypto_env \<Rightarrow> utxo_set \<Rightarrow> tx_loop \<Rightarrow> transaction list \<Rightarrow> bool" where
  "loop_ok env u lp txs \<longleftrightarrow>
     tx_ok u (tl_state lp)
     \<and> (\<exists>created. selection_rel u created (tl_state lp) \<and> selection_chain env u created (tl_pending lp))
     \<and> subseq (map fst (tl_pending lp)) (filter (\<lambda>tx. t_inputs tx \<noteq> []) txs)
     \<and> (tl_coinbases lp = 0 \<and> tl_coinbase_total lp = 0 \<or> tl_coinbases lp = 1)"

definition pending_fees :: "tx_loop \<Rightarrow> nat" where
  "pending_fees lp = sum_list (map (\<lambda>p. unat (snd p)) (tl_pending lp))"

lemma tx_step_ok:
  assumes step: "tx_step env u auth Virtual budget lp tx = Ok lp'" and lp: "loop_ok env u lp (tx # txs)"
    and wf: "utxo_wf u" and inj: "inj_on (tx_id env) (set (tx # txs))"
  shows "loop_ok env u lp' txs
    \<and> utxo_total (utxo_view u (tl_state lp')) + pending_fees lp + unat (tl_coinbase_total lp)
        = utxo_total (utxo_view u (tl_state lp)) + pending_fees lp' + unat (tl_coinbase_total lp')
    \<and> (tl_coinbase_total lp \<le> budget \<longrightarrow> tl_coinbase_total lp' \<le> budget)"
proof (cases "t_inputs tx = []")
  case True
  with step lp have zero: "tl_coinbases lp = 0" "tl_coinbase_total lp = 0"
    by (auto simp: tx_step_def Let_def loop_ok_def split: if_splits)
  show ?thesis
  proof (cases "coinbase_outpoints_exist env u tx")
    case True
    with \<open>t_inputs tx = []\<close> step zero lp show ?thesis
      by (auto simp: tx_step_def Let_def loop_ok_def pending_fees_def split: if_splits)
  next
    case False
    with True step zero obtain ts paid where cb: "apply_coinbase env u tx budget (tl_state lp) = Ok (ts, paid)"
      and lp': "lp' = accept_tx env tx ts (lp\<lparr>tl_coinbases := 1, tl_coinbase_total := paid\<rparr>)"
      by (auto simp: tx_step_def Let_def split: if_splits)
    from lp obtain created where "tx_ok u (tl_state lp)" "selection_rel u created (tl_state lp)"
      "selection_chain env u created (tl_pending lp)" by (auto simp: loop_ok_def)
    with coinbase_step_ok [OF this(1) cb wf this(2)] lp True zero show ?thesis
      by (auto simp: loop_ok_def lp' accept_tx_def pending_fees_def)
  qed
next
  case False
  from lp obtain created where ok: "tx_ok u (tl_state lp)" and rel: "selection_rel u created (tl_state lp)"
    and chain: "selection_chain env u created (tl_pending lp)"
    and sub: "subseq (map fst (tl_pending lp)) (tx # filter (\<lambda>tx. t_inputs tx \<noteq> []) txs)"
    using False by (auto simp: loop_ok_def)
  show ?thesis
  proof (cases "case tl_pending lp of (t, _) # _ \<Rightarrow> tx_id env t = tx_id env tx | [] \<Rightarrow> False")
    case True
    then obtain t fee sel where pend: "tl_pending lp = (t, fee) # sel" and same: "tx_id env t = tx_id env tx"
      by (auto split: list.splits)
    have "t \<in> set (tx # txs)" using list_emb_set [OF sub, of t] pend by auto
    then have t: "t = tx" using inj_onD [OF inj same] by simp
    from step True False obtain ts where tr: "apply_transfer env u tx auth (tl_state lp) = Ok ts"
      and lp': "lp' = accept_tx env tx ts (lp\<lparr>tl_pending := tl (tl_pending lp)\<rparr>)"
      by (auto simp: tx_step_def)
    from transfer_collects_fee [OF ok tr wf rel] chain have T: "tx_ok u ts"
        "utxo_total (utxo_view u ts) + unat fee = utxo_total (utxo_view u (tl_state lp))"
        "selection_rel u (add_outputs env tx created) ts" by (auto simp: pend t)
    have "selection_chain env u (add_outputs env tx created) sel" using chain by (simp add: pend t)
    moreover have "subseq (map fst sel) (filter (\<lambda>tx. t_inputs tx \<noteq> []) txs)" using sub by (simp add: pend t)
    ultimately show ?thesis
      using T lp by (auto simp: loop_ok_def lp' accept_tx_def pend pending_fees_def)
  next
    case other: False
    then have "subseq (map fst (tl_pending lp)) (filter (\<lambda>tx. t_inputs tx \<noteq> []) txs)"
      using sub by (auto simp: subseq_Cons' split: list.splits if_splits)
    with other step False lp ok rel chain show ?thesis
      by (auto simp: tx_step_def loop_ok_def pending_fees_def)
  qed
qed

lemma tx_loop_ok:
  assumes "fold_result (tx_step env u auth Virtual budget) lp txs = Ok lp'" and "loop_ok env u lp txs"
    and "utxo_wf u" and "inj_on (tx_id env) (set txs)" and "tl_coinbase_total lp \<le> budget"
  shows "loop_ok env u lp' []
    \<and> utxo_total (utxo_view u (tl_state lp')) + pending_fees lp + unat (tl_coinbase_total lp)
        = utxo_total (utxo_view u (tl_state lp)) + unat (tl_coinbase_total lp')
    \<and> tl_coinbase_total lp' \<le> budget"
  using assms
proof (induction txs arbitrary: lp)
  case Nil
  then show ?case by (cases "tl_pending lp") (auto simp: loop_ok_def pending_fees_def)
next
  case (Cons tx txs)
  from Cons.prems(1) obtain l1 where l1: "tx_step env u auth Virtual budget lp tx = Ok l1"
    and rest: "fold_result (tx_step env u auth Virtual budget) l1 txs = Ok lp'" by auto
  from tx_step_ok [OF l1 Cons.prems(2-4)] Cons.IH [OF rest] Cons.prems show ?case by auto
qed

lemma pending_total:
  "fold_result (\<lambda>sum (_, fee). ok_or (checked_add sum fee) err) a xs = Ok v \<Longrightarrow>
     unat v = unat a + sum_list (map (\<lambda>p. unat (snd p)) xs)"
  by (induction xs arbitrary: a) (auto dest: checked_add_Some)

lemma apply_transactions_cases:
  assumes "apply_transactions env u txs emission auth Virtual = Ok r" and "utxo_wf u" and "inj_on (tx_id env) (set txs)"
  obtains lp where "loop_ok env u lp []" and "ur_batch r = ts_batch (tl_state lp)" and "ur_spent r = ts_spent (tl_state lp)"
    and "ur_created r = ts_created (tl_state lp)" and "ur_coinbase_total r = tl_coinbase_total lp"
    and "utxo_total (utxo_view u (tl_state lp)) + unat (ur_fees r) = utxo_total u + unat (tl_coinbase_total lp)"
    and "unat (tl_coinbase_total lp) \<le> unat emission + unat (ur_fees r)"
    and "unat (ur_subsidy r) = unat (tl_coinbase_total lp) - unat (ur_fees r)"
proof -
  from assms(1) obtain sel fees budget lp where
    sel: "selectable_transfers env u txs auth Virtual = Ok sel"
    and fees: "fold_result (\<lambda>sum (_, fee). ok_or (checked_add sum fee) (InvalidTx ''fee overflow'')) 0 sel = Ok fees"
    and budget: "checked_add emission fees = Some budget"
    and run: "fold_result (tx_step env u auth Virtual budget)
        \<lparr>tl_state = tx_state_new, tl_coinbases = 0, tl_coinbase_total = 0, tl_pending = sel,
         tl_accepted_ids = [], tl_statuses = []\<rparr> txs = Ok lp" (is "fold_result _ ?l0 _ = _")
    and r: "r = \<lparr>ur_batch = ts_batch (tl_state lp), ur_spent = ts_spent (tl_state lp),
              ur_created = ts_created (tl_state lp), ur_fees = fees,
              ur_subsidy = saturating_sub (tl_coinbase_total lp) (min fees (tl_coinbase_total lp)),
              ur_coinbase_total = tl_coinbase_total lp, ur_statuses = tl_statuses lp\<rparr>"
    by (auto simp: apply_transactions_def split: if_splits)
  let ?created = "seed_coinbase env u Virtual txs"
  from sel obtain sl where fold: "fold_result (select_step env u auth Virtual)
        \<lparr>sl_out = [], sl_reserved = [], sl_created = ?created\<rparr> txs = Ok sl" and "sel = sl_out sl"
    by (auto simp: selectable_transfers_def)
  with select_fold_chain [OF fold] have "selection_chain env u ?created sel"
    "subseq (map fst sel) (filter (\<lambda>tx. t_inputs tx \<noteq> []) txs)" by auto
  moreover have "selection_rel u ?created tx_state_new"
    using seed_coinbase_new by (auto simp: selection_rel_def tx_state_new_def)
  ultimately have "loop_ok env u ?l0 txs" by (auto simp: loop_ok_def tx_ok_new)
  from tx_loop_ok [OF run this assms(2,3)] pending_total [OF fees] checked_add_Some [OF budget]
  show thesis
    by (intro that [of lp]) (auto simp: r pending_fees_def utxo_view_def tx_state_new_def word_le_nat_alt
        unat_saturating_sub min_def)
qed

lemma utxo_revert_value:
  assumes "distinct (map fst spent)"
  shows "map_of (apply_utxo_batch (revert_utxo_batch created spent) u) op
    = (case map_of spent op of Some out \<Rightarrow> Some out | None \<Rightarrow> if op \<in> set created then None else map_of u op)"
proof -
  have del: "map_of (apply_utxo_batch (map DeleteUtxo cs) v) op = (if op \<in> set cs then None else map_of v op)" for cs v
    by (induction cs arbitrary: v) auto
  have put: "map_of (apply_utxo_batch (map (\<lambda>(op, out). PutUtxo op out) es) v) op = (map_of v ++ map_of (rev es)) op" for es v
    by (induction es arbitrary: v) (auto simp: map_add_def split: option.split)
  show ?thesis by (simp add: revert_utxo_batch_def del put map_add_def split: option.split)
qed

section \<open>Properties of the transaction lane\<close>

text \<open>
  Property C26. The transaction lane creates no value. When the transactions of a block are applied in virtual mode,
  with no two of them sharing an id, the value of all unspent outputs grows by exactly what the coinbase pays
  less the fees of the accepted transfers, the coinbase pays at most the emission plus those fees, and the
  growth is covered by the subsidy that is added to the issued supply, which never exceeds the emission.
\<close>

theorem transactions_conserve_value:
  assumes "apply_transactions env u txs emission auth Virtual = Ok r" and "utxo_wf u" and "inj_on (tx_id env) (set txs)"
  shows "let u' = apply_utxo_batch (ur_batch r) u in
      utxo_wf u' \<and> utxo_total u' + unat (ur_fees r) = utxo_total u + unat (ur_coinbase_total r)
      \<and> utxo_total u' \<le> utxo_total u + unat (ur_subsidy r) \<and> ur_subsidy r \<le> emission"
proof -
  obtain lp where loop: "loop_ok env u lp []" and r: "ur_batch r = ts_batch (tl_state lp)"
    "ur_spent r = ts_spent (tl_state lp)" "ur_created r = ts_created (tl_state lp)" "ur_coinbase_total r = tl_coinbase_total lp"
    and sums: "utxo_total (utxo_view u (tl_state lp)) + unat (ur_fees r) = utxo_total u + unat (tl_coinbase_total lp)"
      "unat (tl_coinbase_total lp) \<le> unat emission + unat (ur_fees r)"
      "unat (ur_subsidy r) = unat (tl_coinbase_total lp) - unat (ur_fees r)"
    by (rule apply_transactions_cases [OF assms])
  then show ?thesis using assms(2) by (auto simp: Let_def utxo_view_def word_le_nat_alt)
qed

text \<open>
  The journal of the transaction lane undoes it: outputs listed as spent existed with the recorded
  value and are listed once, and deleting the created and restoring the spent outputs gives back the set from before
  the block.
\<close>

theorem transactions_revert:
  assumes "apply_transactions env u txs emission auth Virtual = Ok r" and "utxo_wf u" and "inj_on (tx_id env) (set txs)"
  shows "distinct (map fst (ur_spent r)) \<and> (\<forall>(op, out) \<in> set (ur_spent r). map_of u op = Some out)
    \<and> (\<forall>op. map_of (apply_utxo_batch (revert_utxo_batch (ur_created r) (ur_spent r))
                (apply_utxo_batch (ur_batch r) u)) op = map_of u op)"
proof -
  obtain lp where "loop_ok env u lp []" and r: "ur_batch r = ts_batch (tl_state lp)"
    "ur_spent r = ts_spent (tl_state lp)" "ur_created r = ts_created (tl_state lp)" "ur_coinbase_total r = tl_coinbase_total lp"
    and "utxo_total (utxo_view u (tl_state lp)) + unat (ur_fees r) = utxo_total u + unat (tl_coinbase_total lp)"
      "unat (tl_coinbase_total lp) \<le> unat emission + unat (ur_fees r)"
      "unat (ur_subsidy r) = unat (tl_coinbase_total lp) - unat (ur_fees r)"
    by (rule apply_transactions_cases [OF assms])
  from \<open>loop_ok env u lp []\<close> have ok: "tx_ok u (tl_state lp)" by (simp add: loop_ok_def)
  have d: "distinct (map fst (ts_spent (tl_state lp)))" using ok by (simp add: tx_ok_def)
  have "map_of u op = Some out" if "(op, out) \<in> set (ts_spent (tl_state lp))" for op out
  proof -
    have "map_of (ts_spent (tl_state lp)) op = Some out" using d that by (rule map_of_is_SomeI)
    moreover have "map_of (ts_spent (tl_state lp)) op
        = (if op \<in> set (ts_spent_in_block (tl_state lp)) then map_of u op else None)" using ok by (simp add: tx_ok_def)
    ultimately show ?thesis by (simp split: if_splits)
  qed
  moreover have "map_of (apply_utxo_batch (revert_utxo_batch (ur_created r) (ur_spent r))
                (apply_utxo_batch (ur_batch r) u)) op = map_of u op" for op
    using ok utxo_revert_value [OF d, of "ts_created (tl_state lp)" "utxo_view u (tl_state lp)" op]
    by (auto simp: r utxo_view_def [symmetric] tx_ok_def split: option.splits if_splits)
  ultimately show ?thesis using d by (auto simp: r)
qed

section \<open>Signatures and mempool\<close>

text \<open>In either mode the batch deletes a committed output only for a transfer signed by its owner.\<close>

definition owner_signed ::
    "crypto_env \<Rightarrow> tx_auth_context option \<Rightarrow> transaction set \<Rightarrow> out_point \<Rightarrow> tx_out \<Rightarrow> bool" where
  "owner_signed env auth txs op out \<longleftrightarrow>
     (\<exists>tx \<in> txs. op \<in> set (t_inputs tx) \<and> verify_and_signer env tx auth = Ok (out_address out))"

definition signed_ok ::
    "crypto_env \<Rightarrow> tx_auth_context option \<Rightarrow> transaction set \<Rightarrow> utxo_set \<Rightarrow> tx_state \<Rightarrow> bool" where
  "signed_ok env auth txs u ts \<longleftrightarrow>
     (\<forall>op. map_of (ts_created_in_block ts) op \<noteq> None \<longrightarrow> map_of u op = None)
     \<and> (\<forall>op out. PutUtxo op out \<in> set (ts_batch ts) \<longrightarrow> map_of u op = None)
     \<and> (\<forall>op out. DeleteUtxo op \<in> set (ts_batch ts) \<longrightarrow> map_of u op = Some out \<longrightarrow> owner_signed env auth txs op out)"

lemma signed_ok_create:
  "signed_ok env auth X u ts \<Longrightarrow> fold_result (create_output u cb) ts es = Ok ts' \<Longrightarrow> signed_ok env auth X u ts'"
proof (erule fold_result_invariant [where P = "signed_ok env auth X u"], assumption)
  fix t e t' assume "signed_ok env auth X u t" "create_output u cb t e = Ok t'"
  then show "signed_ok env auth X u t'"
    by (cases e) (auto simp: signed_ok_def create_output_def split: if_splits; blast)
qed

lemma signed_ok_spend:
  "signed_ok env auth X u ts \<Longrightarrow> (\<And>out'. map_of u op = Some out' \<Longrightarrow> owner_signed env auth X op out')
     \<Longrightarrow> signed_ok env auth X u (spend_utxo op out ts)"
  by (auto simp: signed_ok_def spend_utxo_def Let_def split: if_splits)

lemma signed_ok_spend_all:
  "signed_ok env auth X u ts \<Longrightarrow> (\<forall>(op, out) \<in> set qs. \<forall>out'. map_of u op = Some out' \<longrightarrow> owner_signed env auth X op out')
     \<Longrightarrow> signed_ok env auth X u (spend_all qs ts)"
  unfolding spend_all_def
  by (induction qs arbitrary: ts) (auto intro: signed_ok_spend)

lemma resolve_inputs_owner:
  assumes "resolve_inputs u ts signer p v ops = Ok (p', v')"
    and "\<forall>op. map_of (ts_created_in_block ts) op \<noteq> None \<longrightarrow> map_of u op = None"
  shows "\<exists>qs. p' = p @ qs \<and> (\<forall>(op, out) \<in> set qs. op \<in> set ops \<and> (\<forall>out'. map_of u op = Some out' \<longrightarrow> out_address out' = signer))"
  using assms(1)
proof (induction ops arbitrary: p v)
  case (Cons op ops)
  from Cons.prems obtain out v1 where
      out: "(case map_of (ts_created_in_block ts) op of Some out \<Rightarrow> Ok out | None \<Rightarrow> load_utxo u op) = Ok out"
      "out_address out = signer"
    and rest: "resolve_inputs u ts signer (p @ [(op, out)]) v1 ops = Ok (p', v')"
    by (auto split: if_splits)
  have "\<forall>out'. map_of u op = Some out' \<longrightarrow> out_address out' = signer"
    using out assms(2) by (auto simp: load_utxo_def split: option.splits)
  with Cons.IH [OF rest] show ?case by fastforce
qed simp

lemma signed_ok_transfer:
  assumes "signed_ok env auth X u ts" and "apply_transfer env u tx auth ts = Ok ts'" and "tx \<in> X"
  shows "signed_ok env auth X u ts'"
proof -
  from assms(2) obtain signer p v where sg: "verify_and_signer env tx auth = Ok signer"
    and res: "resolve_inputs u ts signer [] 0 (t_inputs tx) = Ok (p, v)"
    and cr: "fold_result (create_output u False) (spend_all p ts) (output_points env tx) = Ok ts'"
    by (auto simp: apply_transfer_def spend_all_def create_outputs_def split: if_splits)
  have "\<forall>(op, out) \<in> set p. \<forall>out'. map_of u op = Some out' \<longrightarrow> owner_signed env auth X op out'"
  proof (clarify)
    fix op out out' assume "(op, out) \<in> set p" "map_of u op = Some out'"
    with resolve_inputs_owner [OF res] assms(1) have "op \<in> set (t_inputs tx)" "out_address out' = signer"
      by (auto simp: signed_ok_def)
    with assms(3) sg show "owner_signed env auth X op out'" by (auto simp: owner_signed_def)
  qed
  from signed_ok_create [OF signed_ok_spend_all [OF assms(1) this] cr] show ?thesis .
qed

lemma signed_ok_step:
  assumes "signed_ok env auth X u (tl_state lp)" and "tx_step env u auth mode budget lp tx = Ok lp'" and "tx \<in> X"
  shows "signed_ok env auth X u (tl_state lp')"
  using assms signed_ok_transfer [OF assms(1) _ assms(3)]
  by (auto simp: tx_step_def Let_def accept_tx_def apply_coinbase_def create_outputs_def
      intro: signed_ok_create split: if_splits)

text \<open>
  Property C27. Outputs are spent only by their owners: in strict and in virtual mode, a committed output that a block
  removes or changes is an input of one of its transactions whose signature verifies for the address that
  owns the output.
\<close>

theorem outputs_spent_by_owner:
  assumes "apply_transactions env u txs emission auth mode = Ok r" and "map_of u op = Some out"
    and "map_of (apply_utxo_batch (ur_batch r) u) op \<noteq> Some out"
  shows "\<exists>tx \<in> set txs. op \<in> set (t_inputs tx) \<and> verify_and_signer env tx auth = Ok (out_address out)"
proof -
  from assms(1) obtain sel budget lp where r: "ur_batch r = ts_batch (tl_state lp)"
    and run: "fold_result (tx_step env u auth mode budget)
        \<lparr>tl_state = tx_state_new, tl_coinbases = 0, tl_coinbase_total = 0, tl_pending = sel,
         tl_accepted_ids = [], tl_statuses = []\<rparr> txs = Ok lp" (is "fold_result _ ?l0 _ = _")
    by (auto simp: apply_transactions_def split: if_splits)
  have start: "signed_ok env auth (set txs) u (tl_state ?l0)" by (simp add: signed_ok_def tx_state_new_def)
  have "signed_ok env auth (set txs) u (tl_state lp)"
    by (rule fold_result_invariant [OF run, where P = "\<lambda>l. signed_ok env auth (set txs) u (tl_state l)", OF start])
      (rule signed_ok_step)
  moreover have "op \<in> fst ` utxo_effect ` set (ur_batch r)"
    using utxo_column.read_untouched assms(2,3) by metis
  then have "(\<exists>out. PutUtxo op out \<in> set (ur_batch r)) \<or> DeleteUtxo op \<in> set (ur_batch r)"
  proof (elim imageE)
    fix e w assume "op = fst e" "e = utxo_effect w" "w \<in> set (ur_batch r)"
    then show ?thesis by (cases w) auto
  qed
  ultimately show ?thesis using assms(2) by (auto simp: signed_ok_def r owner_signed_def)
qed

lemma mempool_inputs_agree:
  assumes "mempool_inputs u reserved signer seen v ops = Ok v'" and "set p = set seen"
    and "ts_spent_in_block ts = []" and "ts_coinbase_created ts = []" and "ts_created_in_block ts = []"
  shows "select_inputs u [] [] p v ops = Ok (Some (p @ ops, v'))
    \<and> (\<exists>qs. resolve_inputs u ts signer q v ops = Ok (q @ qs, v'))"
  using assms(1,2)
proof (induction ops arbitrary: seen p q v)
  case (Cons op ops)
  from Cons.prems(1) obtain out v1 where new: "op \<notin> set seen" and out: "map_of u op = Some out"
    and own: "out_address out = signer" and v1: "checked_add v (out_value out) = Some v1"
    and rest: "mempool_inputs u reserved signer (op # seen) v1 ops = Ok v'"
    by (auto simp: load_utxo_def split: if_splits)
  from Cons.IH [OF rest, of "p @ [op]" "q @ [(op, out)]"] Cons.prems(2) new out own v1 assms(3-5) show ?case
    by (auto simp: load_utxo_def)
qed simp

lemma create_entries_succeed:
  assumes "distinct (map fst es)" and "\<forall>op \<in> fst ` set es. map_of u op = None \<and> map_of (ts_created_in_block ts) op = None"
  shows "\<exists>ts'. fold_result (create_output u cb) ts es = Ok ts'"
  using assms
proof (induction es arbitrary: ts)
  case (Cons e es)
  obtain op out where e: "e = (op, out)" by (cases e)
  from Cons.prems obtain t1 where t1: "create_output u cb ts e = Ok t1"
    "ts_created_in_block t1 = AList.update op out (ts_created_in_block ts)"
    by (auto simp: e create_output_def)
  have "\<forall>op' \<in> fst ` set es. map_of u op' = None \<and> map_of (ts_created_in_block t1) op' = None"
    using Cons.prems by (auto simp: e t1(2))
  from Cons.IH [OF _ this] Cons.prems(1) t1(1) show ?case by (auto simp: e)
qed simp

lemma output_points_distinct:
  assumes "length (t_outputs tx) \<le> MAX_TX_OUTPUTS"
  shows "distinct (map fst (output_points env tx))"
proof -
  have "map fst (output_points env tx) = map (\<lambda>i. \<lparr>op_tx_id = tx_id env tx, op_index = of_nat i\<rparr>) [0..<length (t_outputs tx)]"
    by (simp add: output_points_def case_prod_unfold comp_def enumerate_eq_zip map_fst_zip
        flip: map_map [of "\<lambda>i. \<lparr>op_tx_id = tx_id env tx, op_index = of_nat i\<rparr>" fst, unfolded comp_def])
  moreover have "inj_on (\<lambda>i. \<lparr>op_tx_id = tx_id env tx, op_index = (of_nat i :: u32)\<rparr>) {0..<length (t_outputs tx)}"
  proof (rule inj_onI)
    fix i j assume "i \<in> {0..<length (t_outputs tx)}" "j \<in> {0..<length (t_outputs tx)}"
      and eq: "\<lparr>op_tx_id = tx_id env tx, op_index = (of_nat i :: u32)\<rparr> = \<lparr>op_tx_id = tx_id env tx, op_index = of_nat j\<rparr>"
    then have "i < 2 ^ 32" "j < 2 ^ 32" using assms by (auto simp: MAX_TX_OUTPUTS_def)
    then have "unat (of_nat i :: u32) = i" "unat (of_nat j :: u32) = j"
      by (simp_all add: unsigned_of_nat take_bit_nat_eq_self)
    with eq show "i = j" by (metis out_point.ext_inject)
  qed
  ultimately show ?thesis by (simp add: distinct_map)
qed


section \<open>Concrete blocks\<close>

text \<open>An environment in which the id of a transaction is its nonce.\<close>

definition utxo_env :: crypto_env where
  "utxo_env =
     \<lparr>borsh_to_vec = (\<lambda>vs. []), hash_borsh = (\<lambda>vs. case vs ! 3 of BU64 n \<Rightarrow> ucast n | _ \<Rightarrow> 0),
      secp_verify = (\<lambda>pk msg sig. sig = replicate 64 (hd pk)),
      address_from_pubkey = (\<lambda>pk. ucast (hd pk))\<rparr>"

definition demo_point :: out_point where
  "demo_point = \<lparr>op_tx_id = 1, op_index = 0\<rparr>"

definition demo_utxos :: utxo_set where
  "demo_utxos = [(demo_point, \<lparr>out_value = 10, out_address = 7\<rparr>)]"

definition demo_coinbase :: transaction where
  "demo_coinbase = \<lparr>t_version = 1, t_inputs = [], t_outputs = [\<lparr>out_value = 5, out_address = 9\<rparr>], t_nonce = 100,
     t_public_key = [], t_signature = []\<rparr>"

definition demo_spend :: transaction where
  "demo_spend = \<lparr>t_version = 1, t_inputs = [demo_point],
     t_outputs = [\<lparr>out_value = 6, out_address = 8\<rparr>, \<lparr>out_value = 3, out_address = 7\<rparr>], t_nonce = 200,
     t_public_key = replicate 33 7, t_signature = replicate 64 7\<rparr>"

definition demo_result :: utxo_result where
  "demo_result = (case apply_transactions utxo_env demo_utxos [demo_coinbase, demo_spend] 4 None Virtual of
     Inr r \<Rightarrow> r | Inl _ \<Rightarrow> \<lparr>ur_batch = [], ur_spent = [], ur_created = [], ur_fees = 0, ur_subsidy = 0,
       ur_coinbase_total = 0, ur_statuses = []\<rparr>)"

lemma demo_applies:
  "apply_transactions utxo_env demo_utxos [demo_coinbase, demo_spend] 4 None Virtual = Ok demo_result"
  "ur_fees demo_result = 1" "ur_subsidy demo_result = 4" "ur_coinbase_total demo_result = 5"
  "map_of (apply_utxo_batch (ur_batch demo_result) demo_utxos) demo_point = None"
  "ur_spent demo_result = demo_utxos"
  by code_simp+

lemma demo_utxos_wf: "utxo_wf demo_utxos"
  by code_simp

lemma demo_ids: "inj_on (tx_id utxo_env) (set [demo_coinbase, demo_spend])"
proof -
  have "tx_id utxo_env demo_coinbase \<noteq> tx_id utxo_env demo_spend" by code_simp
  then show ?thesis by (auto simp: inj_on_def)
qed

theorem transactions_conserve_value_witness:
  "utxo_total (apply_utxo_batch (ur_batch demo_result) demo_utxos) + 1 = utxo_total demo_utxos + 5 \<and> ur_subsidy demo_result \<le> 4"
  using transactions_conserve_value [OF demo_applies(1) demo_utxos_wf demo_ids] by (simp add: Let_def demo_applies)

theorem transactions_revert_witness:
  "map_of (apply_utxo_batch (revert_utxo_batch (ur_created demo_result) (ur_spent demo_result))
     (apply_utxo_batch (ur_batch demo_result) demo_utxos)) demo_point = Some \<lparr>out_value = 10, out_address = 7\<rparr>"
  using transactions_revert [OF demo_applies(1) demo_utxos_wf demo_ids] by (simp add: demo_utxos_def)

theorem outputs_spent_by_owner_witness:
  "\<exists>tx \<in> {demo_coinbase, demo_spend}. demo_point \<in> set (t_inputs tx) \<and> verify_and_signer utxo_env tx None = Ok 7"
  using outputs_spent_by_owner [OF demo_applies(1), of demo_point "\<lparr>out_value = 10, out_address = 7\<rparr>"] demo_applies(5)
  by (simp add: demo_utxos_def)


definition double_input :: transaction where
  "double_input = \<lparr>t_version = 1, t_inputs = [demo_point, demo_point],
     t_outputs = [\<lparr>out_value = 20, out_address = 7\<rparr>], t_nonce = 300,
     t_public_key = replicate 33 7, t_signature = replicate 64 7\<rparr>"

definition empty_coinbase :: transaction where
  "empty_coinbase = \<lparr>t_version = 1, t_inputs = [], t_outputs = [\<lparr>out_value = 0, out_address = 9\<rparr>], t_nonce = 100,
     t_public_key = [], t_signature = []\<rparr>"

text \<open>
  Strict application counts a repeated input twice. A transfer that lists the same output of 10 units as
  two inputs is accepted in strict mode with outputs of 20 units: the value of all unspent outputs grows although
  the emission is zero and no fee is collected. Virtual mode skips the same transfer.
\<close>

theorem strict_double_input_inflates:
  "case apply_transactions utxo_env demo_utxos [empty_coinbase, double_input] 0 None Strict of
     Inr r \<Rightarrow> ur_fees r = 0 \<and> ur_subsidy r = 0 \<and> ur_statuses r = [Accepted, Accepted]
       \<and> utxo_total (apply_utxo_batch (ur_batch r) demo_utxos) = 20 \<and> utxo_total demo_utxos = 10
   | Inl _ \<Rightarrow> False"
  by code_simp

lemma virtual_double_input_skipped:
  "case apply_transactions utxo_env demo_utxos [empty_coinbase, double_input] 0 None Virtual of
     Inr r \<Rightarrow> ur_statuses r = [Accepted, ConflictLost] \<and> utxo_total (apply_utxo_batch (ur_batch r) demo_utxos) = 10
   | Inl _ \<Rightarrow> False"
  by code_simp

end
