(* ===== verification/Chain_Reorg.thy ===== *)
theory Chain_Reorg
  imports Ghostdag Daa Finality Utxo
begin

text \<open>
  The virtual ledger of a node and its reorganisation (\<open>node-bin/src/admit/mod.rs\<close>): the ledger reached by
  applying the blue blocks of the virtual tip in order, the revert journals kept with it, the two phase switch
  from one tip to another through the \<open>pending_virtual\<close> marker, the restoration after a failed switch, the
  recovery of an interrupted one and the rehearsal of a candidate on an overlay.

  A switch is a list of durable writes, so that a crash is a prefix of that list. The ledger itself is a
  record of operations, \<open>ledger_ops\<close>; the transaction lane of \<open>Utxo\<close> is the instance the properties use.
  The acceptance record of a block is written and deleted together with its journal and is left out, as are the
  primary transaction pointers that the last write refreshes for lookups by id.
\<close>

section \<open>Errors of admission\<close>

datatype admit_error =
    InvalidPow
  | WrongDifficulty u32 u32
  | MissingParent hash
  | Duplicate hash
  | StorageError string
  | StateFailure state_error
  | ConsensusError consensus_error
  | UncoloredBlock hash
  | UtxoError state_error
  | SubsidyExceedsEmission u64 u64
  | BadTxRoot
  | TooManyParents nat nat
  | TooFewParents
  | DuplicateParent hash
  | BlockTooLarge nat nat
  | TooManyTransactions nat nat
  | TooManyDataCommitments nat nat
  | TxTooLarge nat nat nat
  | TooManyTxInputs nat nat nat
  | TooManyTxOutputs nat nat nat
  | TimestampTooFarAhead u64 u64
  | TimestampBeforeParent u64 u64
  | ImmatureCoinbaseSpend out_point
  | SupplyCap
  | FinalityReorg u64 u64
  | InvalidAttestation string
  | Panicked string

definition wrap_err :: "('e \<Rightarrow> 'f) \<Rightarrow> 'e + 'a \<Rightarrow> 'f + 'a" where
  "wrap_err f r = (case r of Inl e \<Rightarrow> Inl (f e) | Inr x \<Rightarrow> Inr x)"

lemma wrap_err_simps [simp, result_simps]:
  "wrap_err f (Inl e) = Inl (f e)" "wrap_err f (Inr x) = Inr x"
  by (simp_all add: wrap_err_def)

lemma wrap_err_Ok [simp]: "wrap_err f r = Inr x \<longleftrightarrow> r = Inr x"
  by (cases r) simp_all

section \<open>The node's view of the chain\<close>

text \<open>A ledger a block can be applied to and taken back from by its journal; the journal records the subsidy.\<close>

record ('s, 'b, 'j) ledger_ops =
  lo_apply :: "'b \<Rightarrow> u64 \<Rightarrow> u64 \<Rightarrow> 's \<Rightarrow> ('j \<times> 's) res"
  lo_revert :: "'j \<Rightarrow> 's \<Rightarrow> 's res"
  lo_subsidy :: "'j \<Rightarrow> u64"

record 'b chain =
  ch_genesis :: hash
  ch_dag :: dag
  ch_ghostdag :: ghostdag
  ch_emission :: emission_schedule
  ch_max_supply :: u64
  ch_bodies :: "hash \<Rightarrow> 'b option"

record ('s, 'j) virtual_store =
  vs_state :: 's
  vs_issued :: u64
  vs_journals :: "(hash \<times> 'j) list"
  vs_virtual_tip :: "hash option"
  vs_pending :: "hash option"

definition virtual_tip :: "'b chain \<Rightarrow> ('s, 'j) virtual_store \<Rightarrow> hash" where
  "virtual_tip ch st = (case vs_virtual_tip st of None \<Rightarrow> ch_genesis ch | Some h \<Rightarrow> h)"

definition applied_blues :: "'b chain \<Rightarrow> hash \<Rightarrow> admit_error + hash list" where
  "applied_blues ch tip = wrap_err ConsensusError (blue_order (ch_ghostdag ch) (ch_dag ch) tip)"

fun common_prefix_len :: "'a list \<Rightarrow> 'a list \<Rightarrow> nat" where
  "common_prefix_len (x # xs) (y # ys) = (if x = y then Suc (common_prefix_len xs ys) else 0)"
| "common_prefix_len _ _ = 0"

definition clamp_emission :: "u64 \<Rightarrow> u64 \<Rightarrow> u64 \<Rightarrow> u64" where
  "clamp_emission max_supply issued scheduled = min scheduled (saturating_sub max_supply issued)"

section \<open>One block\<close>

text \<open>The transition of \<open>apply_block_to_virtual\<close> on the ledger and the issued supply.\<close>

definition apply_body ::
    "('s, 'b, 'j) ledger_ops \<Rightarrow> 'b chain \<Rightarrow> hash \<Rightarrow> 's \<times> u64 \<Rightarrow> admit_error + ('j \<times> 's \<times> u64)" where
  "apply_body ops ch h p =
     (case p of (s, issued) \<Rightarrow>
     bind_result (ok_or (ch_bodies ch h) (StorageError ''missing block'')) (\<lambda>b.
     bind_result (ok_or (blue_score (ch_ghostdag ch) h) (UncoloredBlock h)) (\<lambda>score.
     bind_result (ok_or (reward_at_blue_score (ch_emission ch) score) (Panicked ''halving interval is zero'')) (\<lambda>scheduled.
     let emission = clamp_emission (ch_max_supply ch) issued scheduled in
     bind_result (wrap_err UtxoError (lo_apply ops b emission score s)) (\<lambda>(j, s').
     if emission < lo_subsidy ops j then Err (SubsidyExceedsEmission (lo_subsidy ops j) emission)
     else if ch_max_supply ch < saturating_add issued (lo_subsidy ops j) then Err SupplyCap
     else Ok (j, s', saturating_add issued (lo_subsidy ops j)))))))"

definition apply_block_to_virtual ::
    "('s, 'b, 'j) ledger_ops \<Rightarrow> 'b chain \<Rightarrow> ('s, 'j) virtual_store \<Rightarrow> hash \<Rightarrow> admit_error + ('s, 'j) virtual_store" where
  "apply_block_to_virtual ops ch st h =
     (if h = ch_genesis ch then Ok st
      else if map_of (vs_journals st) h \<noteq> None then Ok st
      else bind_result (apply_body ops ch h (vs_state st, vs_issued st)) (\<lambda>(j, s', issued).
           Ok (st\<lparr>vs_state := s', vs_issued := issued, vs_journals := AList.update h j (vs_journals st)\<rparr>)))"

text \<open>
  Planning to unapply a block appends its revert to a batch. The journal is read from the store, which the batch has
  not changed yet; the batch is represented by the store it leads to. The flag says that a journal was found.
\<close>

definition plan_unapply_block ::
    "('s, 'b, 'j) ledger_ops \<Rightarrow> 'b chain \<Rightarrow> (hash \<times> 'j) list \<Rightarrow> ('s, 'j) virtual_store \<Rightarrow> hash
     \<Rightarrow> admit_error + ('s, 'j) virtual_store" where
  "plan_unapply_block ops ch js st h =
     (if h = ch_genesis ch then Ok st
      else case map_of js h of
        None \<Rightarrow> Ok st
      | Some j \<Rightarrow>
          bind_result (wrap_err UtxoError (lo_revert ops j (vs_state st))) (\<lambda>s'.
          Ok (st\<lparr>vs_state := s', vs_issued := saturating_sub (vs_issued st) (lo_subsidy ops j),
                 vs_journals := AList.delete h (vs_journals st)\<rparr>)))"

definition unapply_suffix ::
    "('s, 'b, 'j) ledger_ops \<Rightarrow> 'b chain \<Rightarrow> ('s, 'j) virtual_store \<Rightarrow> hash list \<Rightarrow> admit_error + ('s, 'j) virtual_store" where
  "unapply_suffix ops ch st hs = fold_result (plan_unapply_block ops ch (vs_journals st)) st (rev hs)"

section \<open>Switching the virtual tip\<close>

text \<open>
  Blocks are applied one durable write at a time. The result lists the stores after each write and, when a block
  fails, the error with the number of blocks applied before it.
\<close>

fun apply_suffix ::
    "('s, 'b, 'j) ledger_ops \<Rightarrow> 'b chain \<Rightarrow> ('s, 'j) virtual_store \<Rightarrow> hash list
     \<Rightarrow> ('s, 'j) virtual_store list \<times> (admit_error \<times> nat) option" where
  "apply_suffix ops ch st [] = ([], None)"
| "apply_suffix ops ch st (h # hs) =
     (case apply_block_to_virtual ops ch st h of
        Inl e \<Rightarrow> ([], Some (e, 0))
      | Inr st' \<Rightarrow>
          (case apply_suffix ops ch st' hs of
             (ws, failed) \<Rightarrow> (st' # ws, map_option (\<lambda>(e, k). (e, Suc k)) failed)))"

fun undo_partial ::
    "('s, 'b, 'j) ledger_ops \<Rightarrow> 'b chain \<Rightarrow> ('s, 'j) virtual_store \<Rightarrow> hash list
     \<Rightarrow> ('s, 'j) virtual_store list \<times> bool" where
  "undo_partial ops ch st [] = ([], True)"
| "undo_partial ops ch st (h # hs) =
     (case plan_unapply_block ops ch (vs_journals st) st h of
        Inl e \<Rightarrow> ([], False)
      | Inr st' \<Rightarrow> (case undo_partial ops ch st' hs of (ws, ok) \<Rightarrow> (st' # ws, ok)))"

definition try_restore_after_failed_reorg ::
    "('s, 'b, 'j) ledger_ops \<Rightarrow> 'b chain \<Rightarrow> ('s, 'j) virtual_store \<Rightarrow> hash list \<Rightarrow> hash list
     \<Rightarrow> ('s, 'j) virtual_store list \<times> bool" where
  "try_restore_after_failed_reorg ops ch st old_suffix partial_new =
     (case undo_partial ops ch st (rev partial_new) of (us, undone) \<Rightarrow>
        if \<not> undone then (us, False)
        else case apply_suffix ops ch (last (st # us)) old_suffix of
          (ws, failed) \<Rightarrow> (us @ ws, failed = None))"

definition set_tip :: "hash \<Rightarrow> ('s, 'j) virtual_store \<Rightarrow> ('s, 'j) virtual_store" where
  "set_tip h st = st\<lparr>vs_virtual_tip := Some h, vs_pending := None\<rparr>"

definition reorg_utxo_to_virtual ::
    "('s, 'b, 'j) ledger_ops \<Rightarrow> 'b chain \<Rightarrow> ('s, 'j) virtual_store \<Rightarrow> hash \<Rightarrow> hash
     \<Rightarrow> ('s, 'j) virtual_store list \<times> (admit_error + unit)" where
  "reorg_utxo_to_virtual ops ch st old new =
     (if old = new then ([set_tip new st], Ok ())
      else
      let st0 = st\<lparr>vs_pending := Some new\<rparr> in
      case bind_result (applied_blues ch old) (\<lambda>applied.
           bind_result (applied_blues ch new) (\<lambda>target.
           let n = common_prefix_len applied target in
           bind_result (unapply_suffix ops ch st0 (drop n applied)) (\<lambda>st1.
           Ok (drop n applied, drop n target, st1)))) of
        Inl e \<Rightarrow> ([st0], Err e)
      | Inr (old_suffix, new_suffix, st1) \<Rightarrow>
          (case apply_suffix ops ch st1 new_suffix of
             (ws, None) \<Rightarrow> ([st0, st1] @ ws @ [set_tip new (last (st1 # ws))], Ok ())
           | (ws, Some (e, offset)) \<Rightarrow>
               (case try_restore_after_failed_reorg ops ch (last (st1 # ws)) old_suffix (take offset new_suffix) of
                  (rs, restored) \<Rightarrow>
                    ([st0, st1] @ ws @ rs @ (if restored then [set_tip old (last (st1 # ws @ rs))] else []), Err e))))"

definition recover_pending_virtual ::
    "('s, 'b, 'j) ledger_ops \<Rightarrow> 'b chain \<Rightarrow> ('s, 'j) virtual_store
     \<Rightarrow> ('s, 'j) virtual_store list \<times> (admit_error + unit)" where
  "recover_pending_virtual ops ch st =
     (case vs_pending st of
        None \<Rightarrow> ([], Ok ())
      | Some pending \<Rightarrow> reorg_utxo_to_virtual ops ch st (virtual_tip ch st) pending)"

text \<open>
  The stores a crash can leave: any durable write of a switch, or of a later recovery, that still carries the marker.
\<close>

inductive interrupted ::
    "('s, 'b, 'j) ledger_ops \<Rightarrow> 'b chain \<Rightarrow> ('s, 'j) virtual_store \<Rightarrow> hash \<Rightarrow> ('s, 'j) virtual_store \<Rightarrow> bool"
  for ops ch st new where
  crash: "w \<in> set (fst (reorg_utxo_to_virtual ops ch st (virtual_tip ch st) new)) \<Longrightarrow> vs_pending w \<noteq> None
    \<Longrightarrow> interrupted ops ch st new w"
| crash_again: "interrupted ops ch st new w \<Longrightarrow> w' \<in> set (fst (recover_pending_virtual ops ch w)) \<Longrightarrow> vs_pending w' \<noteq> None
    \<Longrightarrow> interrupted ops ch st new w'"

section \<open>Rehearsal and guard\<close>

text \<open>The block a candidate's rehearsal applies: the candidate itself is not stored yet.\<close>

definition rehearse_block ::
    "('s, 'b, 'j) ledger_ops \<Rightarrow> 'b chain \<Rightarrow> 'b \<Rightarrow> hash \<Rightarrow> 's \<times> u64 \<Rightarrow> hash \<Rightarrow> admit_error + ('s \<times> u64)" where
  "rehearse_block ops ch block bid p h =
     (if h = ch_genesis ch then Ok p
      else case p of (s, issued) \<Rightarrow>
      bind_result (if h = bid then Ok block else ok_or (ch_bodies ch h) (StorageError ''missing body for blue'')) (\<lambda>b.
      let score = (case blue_score (ch_ghostdag ch) h of None \<Rightarrow> 1 | Some x \<Rightarrow> x) in
      bind_result (ok_or (reward_at_blue_score (ch_emission ch) score) (Panicked ''halving interval is zero'')) (\<lambda>scheduled.
      let emission = min scheduled (saturating_sub (ch_max_supply ch) (min issued (ch_max_supply ch))) in
      bind_result (wrap_err UtxoError (lo_apply ops b emission score s)) (\<lambda>(j, s').
      if ch_max_supply ch < saturating_add issued (lo_subsidy ops j) then Err SupplyCap
      else Ok (s', saturating_add issued (lo_subsidy ops j))))))"

definition validate_blue_order_utxo ::
    "('s, 'b, 'j) ledger_ops \<Rightarrow> 'b chain \<Rightarrow> ('s, 'j) virtual_store \<Rightarrow> 'b \<Rightarrow> hash \<Rightarrow> admit_error + unit" where
  "validate_blue_order_utxo ops ch st block bid =
     bind_result (applied_blues ch bid) (\<lambda>blues.
     bind_result (applied_blues ch (virtual_tip ch st)) (\<lambda>applied.
     let n = common_prefix_len applied blues in
     bind_result (fold_result (\<lambda>ov. plan_unapply_block ops ch (vs_journals ov) ov) st (rev (drop n applied))) (\<lambda>ov.
     bind_result (fold_result (rehearse_block ops ch block bid) (vs_state ov, vs_issued ov) (drop n blues)) (\<lambda>_.
     Ok ()))))"

definition guard_reorg_vs_finality ::
    "'b chain \<Rightarrow> u64 option \<Rightarrow> hash \<Rightarrow> hash \<Rightarrow> admit_error + unit" where
  "guard_reorg_vs_finality ch finalized old_virtual new_virtual =
     (case finalized of
        None \<Rightarrow> Ok ()
      | Some f \<Rightarrow>
          if old_virtual = new_virtual then Ok ()
          else
          bind_result (applied_blues ch old_virtual) (\<lambda>applied.
          bind_result (applied_blues ch new_virtual) (\<lambda>target.
          let score = (\<lambda>h. case blue_score (ch_ghostdag ch) h of None \<Rightarrow> 0 | Some x \<Rightarrow> x) in
          bind_result (fold_result (\<lambda>_ h. if score h \<le> f then Err (FinalityReorg f (score h)) else Ok ())
             () (drop (common_prefix_len applied target) applied)) (\<lambda>_.
          wrap_err (\<lambda>_. FinalityReorg f (score new_virtual)) (assert_reorg_allowed (Some f) (score new_virtual))))))"


section \<open>The ledger a node should have\<close>

text \<open>
  \<open>replays\<close> applies blocks one after the other and records their journals; a store is \<open>synced\<close> to a list of blocks
  when it holds the ledger of that replay, up to an equivalence of ledgers, with its issued supply and journals.
\<close>

fun replays ::
    "('s, 'b, 'j) ledger_ops \<Rightarrow> 'b chain \<Rightarrow> 's \<times> u64 \<Rightarrow> (hash \<times> 'j) list \<Rightarrow> 's \<times> u64 \<Rightarrow> bool" where
  "replays ops ch p [] q = (p = q)"
| "replays ops ch p ((h, j) # js) q = (\<exists>s i. apply_body ops ch h p = Ok (j, s, i) \<and> replays ops ch (s, i) js q)"

definition ledger_blocks :: "'b chain \<Rightarrow> hash list \<Rightarrow> hash list" where
  "ledger_blocks ch L = filter (\<lambda>h. h \<noteq> ch_genesis ch) L"

definition replayable :: "('s, 'b, 'j) ledger_ops \<Rightarrow> 'b chain \<Rightarrow> 's \<times> u64 \<Rightarrow> hash list \<Rightarrow> bool" where
  "replayable ops ch base L \<longleftrightarrow> (\<exists>js q. map fst js = ledger_blocks ch L \<and> replays ops ch base js q)"

definition synced ::
    "('s \<Rightarrow> 's \<Rightarrow> bool) \<Rightarrow> ('s, 'b, 'j) ledger_ops \<Rightarrow> 'b chain \<Rightarrow> 's \<times> u64 \<Rightarrow> hash list
     \<Rightarrow> ('s, 'j) virtual_store \<Rightarrow> bool" where
  "synced same ops ch base L st \<longleftrightarrow>
     (\<exists>js s. map fst js = ledger_blocks ch L \<and> replays ops ch base js (s, vs_issued st)
        \<and> same s (vs_state st) \<and> map_of (vs_journals st) = map_of js)"

definition same_marks :: "('s, 'j) virtual_store \<Rightarrow> ('s, 'j) virtual_store \<Rightarrow> bool" where
  "same_marks st st' \<longleftrightarrow> vs_virtual_tip st' = vs_virtual_tip st \<and> vs_pending st' = vs_pending st"

lemma ledger_blocks_simps [simp]:
  "ledger_blocks ch [] = []"
  "ledger_blocks ch (L @ M) = ledger_blocks ch L @ ledger_blocks ch M"
  "ledger_blocks ch [h] = (if h = ch_genesis ch then [] else [h])"
  "set (ledger_blocks ch L) = set L - {ch_genesis ch}"
  by (auto simp: ledger_blocks_def)

lemma replays_append:
  "replays ops ch p (js @ js') q \<longleftrightarrow> (\<exists>r. replays ops ch p js r \<and> replays ops ch r js' q)"
proof (induction js arbitrary: p)
  case (Cons e js)
  then show ?case by (cases e) auto
qed simp

lemma replays_det:
  assumes "replays ops ch p js q" and "replays ops ch p js' q'" and "map fst js = map fst js'"
  shows "js = js' \<and> q = q'"
  using assms
proof (induction js arbitrary: p js')
  case (Cons e js)
  then obtain h j j' js2 where "e = (h, j)" "js' = (h, j') # js2" by (cases e; cases js') auto
  with Cons.prems obtain s i where "apply_body ops ch h p = Ok (j, s, i)" "replays ops ch (s, i) js q"
    "j' = j" "replays ops ch (s, i) js2 q'" "map fst js = map fst js2" by auto
  with Cons.IH [of "(s, i)" js2] \<open>e = (h, j)\<close> \<open>js' = (h, j') # js2\<close> show ?case by simp
qed auto

lemma replayable_prefix: "replayable ops ch base (L @ M) \<Longrightarrow> replayable ops ch base L"
proof -
  assume "replayable ops ch base (L @ M)"
  then obtain js q where js: "map fst js = ledger_blocks ch L @ ledger_blocks ch M" "replays ops ch base js q"
    by (auto simp: replayable_def)
  define n where "n = length (ledger_blocks ch L)"
  from js(1) have "map fst (take n js) = ledger_blocks ch L" by (simp add: n_def take_map [symmetric])
  moreover have "\<exists>r. replays ops ch base (take n js) r"
    using js(2) replays_append [of ops ch base "take n js" "drop n js" q] by auto
  ultimately show ?thesis by (auto simp: replayable_def)
qed

lemma synced_replayable: "synced same ops ch base L st \<Longrightarrow> replayable ops ch base L"
  by (auto simp: synced_def replayable_def)

lemma synced_journal:
  "synced same ops ch base L st \<Longrightarrow> map_of (vs_journals st) h = None \<longleftrightarrow> h = ch_genesis ch \<or> h \<notin> set L"
proof -
  assume "synced same ops ch base L st"
  then obtain js where "map fst js = ledger_blocks ch L" "map_of (vs_journals st) = map_of js"
    by (auto simp: synced_def)
  then show ?thesis by (metis DiffE Diff_iff ledger_blocks_simps(4) list.set_map map_of_eq_None_iff singletonD singletonI)
qed

lemma synced_marks [simp]:
  "synced same ops ch base L (st\<lparr>vs_pending := p\<rparr>) = synced same ops ch base L st"
  "synced same ops ch base L (set_tip h st) = synced same ops ch base L st"
  by (simp_all add: synced_def set_tip_def)

lemma set_tip_marks [simp]: "vs_virtual_tip (set_tip h st) = Some h" "vs_pending (set_tip h st) = None"
  by (simp_all add: set_tip_def)

lemma map_of_snoc: "h \<notin> fst ` set js \<Longrightarrow> map_of (js @ [(h, j)]) = (map_of js)(h \<mapsto> j)"
  by (induction js) (auto simp: fun_upd_twist)

lemma common_prefix_take: "take (common_prefix_len xs ys) xs = take (common_prefix_len xs ys) ys"
  by (induction xs ys rule: common_prefix_len.induct) auto

lemma clamp_emission_undo:
  assumes "sub \<le> clamp_emission max_supply issued scheduled"
  shows "saturating_sub (saturating_add issued sub) sub = issued"
proof -
  have "unat sub \<le> unat max_supply - unat issued"
    using assms by (auto simp: clamp_emission_def word_le_nat_alt min_def unat_saturating_sub split: if_splits)
  moreover have "unat max_supply < 2 ^ 64" using unsigned_less [of max_supply] by simp
  moreover have "unat issued < 2 ^ 64" using unsigned_less [of issued] by simp
  ultimately have "unat (saturating_sub (saturating_add issued sub) sub) = unat issued"
    by (simp add: unat_saturating_sub unat_saturating_add)
  then show ?thesis by (simp add: word_unat_eq_iff)
qed


section \<open>Switching over a reversible ledger\<close>

text \<open>Blocks already in the list are skipped, new ones are appended: what the idempotent application does.\<close>

definition add_block_to :: "hash \<Rightarrow> hash list \<Rightarrow> hash list" where
  "add_block_to h L = (if h \<in> set L then L else L @ [h])"

lemma add_blocks_after:
  assumes "distinct (P @ T)" and "n \<le> length T"
  shows "fold add_block_to (take k T) (P @ take n T) = P @ take (max k n) T"
proof (induction k)
  case (Suc k)
  show ?case
  proof (cases "k < length T")
    case True
    then have "fold add_block_to (take (Suc k) T) (P @ take n T) = add_block_to (T ! k) (P @ take (max k n) T)"
      using Suc by (simp add: take_Suc_conv_app_nth)
    moreover have "T ! k \<notin> set P" using assms(1) True by auto
    moreover have "T ! k \<in> set (take (max k n) T) \<longleftrightarrow> k < n"
    proof
      assume "T ! k \<in> set (take (max k n) T)"
      then obtain m where "m < max k n" "m < length T" "T ! m = T ! k" by (auto simp: in_set_conv_nth)
      with True assms(1) show "k < n" by (auto simp: nth_eq_iff_index_eq)
    next
      assume "k < n"
      with True show "T ! k \<in> set (take (max k n) T)" by (auto simp: in_set_conv_nth intro!: exI [of _ k])
    qed
    ultimately have "fold add_block_to (take (Suc k) T) (P @ take n T)
        = (if k < n then P @ take n T else P @ take k T @ [T ! k])"
      by (simp add: add_block_to_def max_def)
    then show ?thesis using True by (simp add: max_def take_Suc_conv_app_nth)
  qed (use Suc assms(2) in \<open>simp add: max_def\<close>)
qed simp

definition all_bodies :: "('b \<Rightarrow> bool) \<Rightarrow> 'b chain \<Rightarrow> bool" where
  "all_bodies ok ch \<longleftrightarrow> (\<forall>h b. ch_bodies ch h = Some b \<longrightarrow> ok b)"

text \<open>What a switch must leave behind: the target on success, the old tip on failure, and no pending marker.\<close>

definition switched ::
    "('s \<Rightarrow> 's \<Rightarrow> bool) \<Rightarrow> ('s, 'b, 'j) ledger_ops \<Rightarrow> 'b chain \<Rightarrow> 's \<times> u64 \<Rightarrow> hash \<times> hash list \<Rightarrow> hash \<times> hash list
     \<Rightarrow> ('s, 'j) virtual_store list \<times> (admit_error + unit) \<Rightarrow> bool" where
  "switched same ops ch base src dst run \<longleftrightarrow>
     (let st = last (fst run); (tip, order) = (case snd run of Inr _ \<Rightarrow> dst | Inl _ \<Rightarrow> src)
      in synced same ops ch base order st \<and> vs_virtual_tip st = Some tip \<and> vs_pending st = None)"

locale reversible_ledger =
  fixes ops :: "('s, 'b, 'j) ledger_ops" and same :: "'s \<Rightarrow> 's \<Rightarrow> bool" and wf_block :: "'b \<Rightarrow> bool"
  assumes same_sym: "same s t \<Longrightarrow> same t s"
    and same_trans: "same s t \<Longrightarrow> same t u \<Longrightarrow> same s u"
    and apply_same: "wf_block b \<Longrightarrow> same s t \<Longrightarrow> lo_apply ops b e sc s = Ok (j, s')
      \<Longrightarrow> \<exists>t'. lo_apply ops b e sc t = Ok (j, t') \<and> same s' t'"
    and subsidy_bound: "wf_block b \<Longrightarrow> same s s \<Longrightarrow> lo_apply ops b e sc s = Ok (j, s') \<Longrightarrow> lo_subsidy ops j \<le> e"
    and revert_apply: "wf_block b \<Longrightarrow> same s s \<Longrightarrow> lo_apply ops b e sc s = Ok (j, s') \<Longrightarrow> same s' t
      \<Longrightarrow> \<exists>u. lo_revert ops j t = Ok u \<and> same s u"
begin

lemma apply_body_same:
  assumes "all_bodies wf_block ch" and "same s t" and "apply_body ops ch h (s, i) = Ok (j, s', i')"
  shows "\<exists>t'. apply_body ops ch h (t, i) = Ok (j, t', i') \<and> same s' t'"
proof -
  from assms(3) obtain b sc sch where b: "ch_bodies ch h = Some b" "blue_score (ch_ghostdag ch) h = Some sc"
    "reward_at_blue_score (ch_emission ch) sc = Some sch"
    and app: "lo_apply ops b (clamp_emission (ch_max_supply ch) i sch) sc s = Ok (j, s')"
    by (auto simp: apply_body_def Let_def split: if_splits)
  from b(1) assms(1) have "wf_block b" by (auto simp: all_bodies_def)
  from apply_same [OF this assms(2) app] b assms(3) app show ?thesis
    by (auto simp: apply_body_def Let_def split: if_splits)
qed

lemma revert_body:
  assumes "all_bodies wf_block ch" and "same s s" and "apply_body ops ch h (s, i) = Ok (j, s', i')" and "same s' t"
  shows "\<exists>u. lo_revert ops j t = Ok u \<and> same s u \<and> saturating_sub i' (lo_subsidy ops j) = i"
proof -
  from assms(3) obtain b sc sch where b: "ch_bodies ch h = Some b"
    and app: "lo_apply ops b (clamp_emission (ch_max_supply ch) i sch) sc s = Ok (j, s')"
    and i': "i' = saturating_add i (lo_subsidy ops j)"
      "lo_subsidy ops j \<le> clamp_emission (ch_max_supply ch) i sch"
    by (auto simp: apply_body_def Let_def not_less split: if_splits)
  from b assms(1) have "wf_block b" by (auto simp: all_bodies_def)
  from revert_apply [OF this assms(2) app assms(4)] clamp_emission_undo [OF i'(2)] i'(1) show ?thesis by auto
qed

lemma replays_same:
  assumes "all_bodies wf_block ch" and "replays ops ch (s, i) js (s', i')" and "same s s"
  shows "same s' s'"
  using assms(2,3)
proof (induction js arbitrary: s i)
  case (Cons e js)
  then obtain h j t k where "e = (h, j)" "apply_body ops ch h (s, i) = Ok (j, t, k)"
    "replays ops ch (t, k) js (s', i')" by (cases e) auto
  with Cons.IH apply_body_same [OF assms(1) Cons.prems(2)] show ?case by force
qed simp

lemma synced_apply:
  assumes "all_bodies wf_block ch" and "synced same ops ch base L st" and "apply_block_to_virtual ops ch st h = Ok st'"
  shows "synced same ops ch base (add_block_to h L) st' \<and> same_marks st st'"
proof (cases "h = ch_genesis ch \<or> h \<in> set L")
  case True
  with assms(2,3) synced_journal [OF assms(2), of h] show ?thesis
    by (auto simp: apply_block_to_virtual_def add_block_to_def same_marks_def synced_def split: if_splits)
next
  case False
  from assms(2) obtain js s where js: "map fst js = ledger_blocks ch L" "replays ops ch base js (s, vs_issued st)"
    "same s (vs_state st)" "map_of (vs_journals st) = map_of js" by (auto simp: synced_def)
  from False assms(3) synced_journal [OF assms(2), of h] obtain j s' i' where
    app: "apply_body ops ch h (vs_state st, vs_issued st) = Ok (j, s', i')"
    and st': "st' = st\<lparr>vs_state := s', vs_issued := i', vs_journals := AList.update h j (vs_journals st)\<rparr>"
    by (auto simp: apply_block_to_virtual_def split: if_splits)
  from apply_body_same [OF assms(1) same_sym [OF js(3)] app] obtain t where
    t: "apply_body ops ch h (s, vs_issued st) = Ok (j, t, i')" "same s' t" by auto
  have "h \<notin> fst ` set js" using False js(1) by (metis DiffD1 ledger_blocks_simps(4) list.set_map)
  then have "map_of (js @ [(h, j)]) = (map_of js)(h \<mapsto> j)"
    by (rule map_of_snoc)
  moreover have "replays ops ch base (js @ [(h, j)]) (t, i')" using js(2) t(1) by (auto simp: replays_append)
  ultimately show ?thesis
    using False js st' same_sym [OF t(2)]
    by (auto simp: synced_def same_marks_def add_block_to_def update_conv' simp del: map_of_append
        intro!: exI [of _ "js @ [(h, j)]"] exI [of _ t])
qed

lemma synced_undo:
  assumes "all_bodies wf_block ch" and "same (fst base) (fst base)" and "synced same ops ch base (L @ [h]) st"
    and "h \<notin> set L" and "map_of js0 h = map_of (vs_journals st) h"
  shows "\<exists>st'. plan_unapply_block ops ch js0 st h = Ok st' \<and> synced same ops ch base L st' \<and> same_marks st st'
    \<and> map_of (vs_journals st') = (map_of (vs_journals st))(h := None)"
proof (cases "h = ch_genesis ch")
  case True
  with assms(3) synced_journal [OF assms(3), of h] show ?thesis
    by (auto simp: plan_unapply_block_def synced_def same_marks_def fun_upd_idem)
next
  case False
  with assms(3) obtain js j s where js: "map fst js = ledger_blocks ch L"
    "replays ops ch base (js @ [(h, j)]) (s, vs_issued st)"
    "same s (vs_state st)" "map_of (vs_journals st) = map_of (js @ [(h, j)])"
    by (auto simp: synced_def map_eq_append_conv)
  from js(2) obtain r i where r: "replays ops ch base js (r, i)" "apply_body ops ch h (r, i) = Ok (j, s, vs_issued st)"
    by (auto simp: replays_append)
  have "same r r" using replays_same [OF assms(1), of "fst base" "snd base" js r i] r(1) assms(2) by simp
  from revert_body [OF assms(1) this r(2) js(3)] obtain u where
    u: "lo_revert ops j (vs_state st) = Ok u" "same r u" "saturating_sub (vs_issued st) (lo_subsidy ops j) = i" by auto
  have "h \<notin> fst ` set js" using js(1) assms(4) by (metis DiffD1 ledger_blocks_simps(4) list.set_map)
  then have none: "map_of js h = None" and m: "map_of (js @ [(h, j)]) = (map_of js)(h \<mapsto> j)"
    by (simp add: map_of_eq_None_iff, rule map_of_snoc)
  then have "map_of (AList.delete h (vs_journals st)) = map_of js"
    using js(4) none by (simp add: delete_conv' fun_upd_idem)
  then show ?thesis
    using False assms(5) js(1,4) m none r(1) u
    by (auto simp: plan_unapply_block_def synced_def same_marks_def fun_upd_idem intro!: exI [of _ js] exI [of _ r])
qed

lemma unapply_list:
  assumes "all_bodies wf_block ch" and "same (fst base) (fst base)" and "distinct (P @ A)"
    and "synced same ops ch base (P @ take m A) st" and "m \<le> length A"
    and "\<forall>h\<in>set A. map_of js0 h = map_of (vs_journals st) h"
  shows "\<exists>st'. fold_result (plan_unapply_block ops ch js0) st (rev A) = Ok st'
    \<and> synced same ops ch base P st' \<and> same_marks st st'"
  using assms(3-6)
proof (induction A arbitrary: m st rule: rev_induct)
  case Nil
  then show ?case by (auto simp: same_marks_def)
next
  case (snoc h A)
  show ?case
  proof (cases "m \<le> length A")
    case True
    then have "synced same ops ch base (P @ take m A) st" using snoc.prems(2) by simp
    moreover from synced_journal [OF this, of h] have "map_of js0 h = None"
      using snoc.prems(1,4) by (auto dest: in_set_takeD)
    then have "plan_unapply_block ops ch js0 st h = Ok st" by (simp add: plan_unapply_block_def)
    ultimately show ?thesis using snoc.IH [of m st] snoc.prems True by auto
  next
    case False
    then have "synced same ops ch base ((P @ A) @ [h]) st" using snoc.prems(2,3) by (simp add: le_antisym)
    moreover have "h \<notin> set (P @ A)" "map_of js0 h = map_of (vs_journals st) h" using snoc.prems(1,4) by auto
    ultimately obtain st1 where st1: "plan_unapply_block ops ch js0 st h = Ok st1" "synced same ops ch base (P @ A) st1"
      "same_marks st st1" "map_of (vs_journals st1) = (map_of (vs_journals st))(h := None)"
      using synced_undo [OF assms(1,2)] by blast
    moreover have "\<forall>g\<in>set A. map_of js0 g = map_of (vs_journals st1) g" using st1(4) snoc.prems(1,4) by auto
    ultimately show ?thesis using snoc.IH [of "length A" st1] snoc.prems(1) by (auto simp: same_marks_def)
  qed
qed

lemma unapply_none:
  assumes "synced same ops ch base L st" and "set A \<inter> set L \<subseteq> {ch_genesis ch}"
  shows "unapply_suffix ops ch st A = Ok st"
proof -
  have "plan_unapply_block ops ch (vs_journals st) st h = Ok st" if "h \<in> set A" for h
    using synced_journal [OF assms(1), of h] assms(2) that by (auto simp: plan_unapply_block_def split: option.split)
  then have "fold_result (plan_unapply_block ops ch (vs_journals st)) st hs = Ok st" if "set hs \<subseteq> set A" for hs
    using that by (induction hs) auto
  then show ?thesis by (simp add: unapply_suffix_def)
qed

lemma apply_suffix_synced:
  assumes "all_bodies wf_block ch" and "synced same ops ch base L st" and "apply_suffix ops ch st T = (ws, failed)"
    and "k \<le> length ws"
  shows "synced same ops ch base (fold add_block_to (take k T) L) ((st # ws) ! k) \<and> same_marks st ((st # ws) ! k)"
  using assms(2-)
proof (induction T arbitrary: L st ws failed k)
  case Nil
  then show ?case by (simp add: same_marks_def)
next
  case (Cons h T)
  show ?case
  proof (cases k)
    case (Suc n)
    with Cons.prems obtain st1 ws1 f1 where st1: "apply_block_to_virtual ops ch st h = Ok st1"
      "apply_suffix ops ch st1 T = (ws1, f1)" "ws = st1 # ws1" by (auto split: sum.splits prod.splits)
    from synced_apply [OF assms(1) Cons.prems(1) st1(1)] Cons.IH [of "add_block_to h L" st1 ws1 f1 n] st1 Suc Cons.prems(3)
    show ?thesis by (auto simp: same_marks_def)
  qed (use Cons.prems in \<open>simp add: same_marks_def\<close>)
qed

lemma apply_suffix_length:
  assumes "apply_suffix ops ch st T = (ws, failed)"
  shows "case failed of None \<Rightarrow> length ws = length T | Some (e, k) \<Rightarrow> length ws = k \<and> k < length T"
  using assms
proof (induction T arbitrary: st ws failed)
  case (Cons h T)
  show ?case
  proof (cases "apply_block_to_virtual ops ch st h")
    case (Inr st1)
    obtain ws1 f1 where rest: "apply_suffix ops ch st1 T = (ws1, f1)" by fastforce
    with Inr Cons.prems have "ws = st1 # ws1" "failed = map_option (\<lambda>(e, k). (e, Suc k)) f1" by auto
    with Cons.IH [OF rest] show ?thesis by (cases f1) auto
  qed (use Cons.prems in auto)
qed simp

lemma apply_suffix_fails:
  "apply_suffix ops ch st T = (ws, Some (e, off)) \<Longrightarrow> apply_block_to_virtual ops ch (last (st # ws)) (T ! off) = Err e"
proof (induction T arbitrary: st ws off)
  case (Cons h T)
  show ?case
  proof (cases "apply_block_to_virtual ops ch st h")
    case (Inr st1)
    obtain ws1 f1 where rest: "apply_suffix ops ch st1 T = (ws1, f1)" by fastforce
    with Inr Cons.prems obtain k where "ws = st1 # ws1" "f1 = Some (e, k)" "off = Suc k" by auto
    with Cons.IH rest show ?thesis by simp
  qed (use Cons.prems in auto)
qed simp

lemma replayable_applies:
  assumes "all_bodies wf_block ch" and "synced same ops ch base L st" and "replayable ops ch base (L @ [h])"
  shows "\<exists>st'. apply_block_to_virtual ops ch st h = Ok st'"
proof (cases "h = ch_genesis ch \<or> map_of (vs_journals st) h \<noteq> None")
  case True
  then show ?thesis by (auto simp: apply_block_to_virtual_def)
next
  case False
  from assms(2) obtain js s where js: "map fst js = ledger_blocks ch L" "replays ops ch base js (s, vs_issued st)"
    "same s (vs_state st)" by (auto simp: synced_def)
  from assms(3) False obtain js' j q where "map fst js' = ledger_blocks ch L" "replays ops ch base (js' @ [(h, j)]) q"
    by (auto simp: replayable_def map_eq_append_conv)
  with js obtain s' i' where "apply_body ops ch h (s, vs_issued st) = Ok (j, s', i')"
    by (auto simp: replays_append dest: replays_det)
  from apply_body_same [OF assms(1) js(3) this] show ?thesis using False by (auto simp: apply_block_to_virtual_def)
qed

lemma apply_suffix_succeeds:
  assumes "all_bodies wf_block ch" and "synced same ops ch base P st" and "replayable ops ch base (P @ A)" and "distinct (P @ A)"
  shows "snd (apply_suffix ops ch st A) = None"
  using assms(2-)
proof (induction A arbitrary: P st)
  case (Cons h A)
  then have "replayable ops ch base ((P @ [h]) @ A)" by simp
  with replayable_applies [OF assms(1) Cons.prems(1) replayable_prefix] obtain st' where
    st': "apply_block_to_virtual ops ch st h = Ok st'" by blast
  from synced_apply [OF assms(1) Cons.prems(1) st'] Cons.prems(3) have "synced same ops ch base (P @ [h]) st'"
    by (simp add: add_block_to_def)
  from Cons.IH [OF this] Cons.prems st' show ?case by (auto split: prod.splits)
qed simp

text \<open>Between the two tips the store is synced to a prefix of one of the two orders, and the markers do not change.\<close>

definition between ::
    "'b chain \<Rightarrow> 's \<times> u64 \<Rightarrow> hash list \<Rightarrow> hash list \<Rightarrow> hash list \<Rightarrow> ('s, 'j) virtual_store \<Rightarrow> bool" where
  "between ch base P A T w \<longleftrightarrow>
     (\<exists>k\<le>length T. synced same ops ch base (P @ take k T) w) \<or> (\<exists>m\<le>length A. synced same ops ch base (P @ take m A) w)"

lemma between_take: "between ch base P A (take n T) w \<Longrightarrow> between ch base P A T w"
  unfolding between_def
proof (elim disjE exE conjE)
  fix k assume "k \<le> length (take n T)" and "synced same ops ch base (P @ take k (take n T)) w"
  then have "k \<le> length T" "synced same ops ch base (P @ take k T) w" by (simp_all add: min_def split: if_splits)
  then show "(\<exists>k\<le>length T. synced same ops ch base (P @ take k T) w) \<or> (\<exists>m\<le>length A. synced same ops ch base (P @ take m A) w)"
    by (intro disjI1 exI conjI)
qed (intro disjI2 exI conjI)

lemma undo_partial_synced:
  assumes "all_bodies wf_block ch" and "same (fst base) (fst base)" and "distinct (P @ N)" and "synced same ops ch base (P @ N) st"
  shows "\<exists>us. undo_partial ops ch st (rev N) = (us, True) \<and> synced same ops ch base P (last (st # us))
    \<and> (\<forall>w\<in>set us. same_marks st w \<and> (\<exists>k\<le>length N. synced same ops ch base (P @ take k N) w))"
  using assms(3,4)
proof (induction N arbitrary: st rule: rev_induct)
  case (snoc h N)
  then have "synced same ops ch base ((P @ N) @ [h]) st" "h \<notin> set (P @ N)" by auto
  from synced_undo [OF assms(1,2) this refl] obtain st1 where
    st1: "plan_unapply_block ops ch (vs_journals st) st h = Ok st1" "synced same ops ch base (P @ N) st1" "same_marks st st1"
    by blast
  from snoc.IH [OF _ st1(2)] snoc.prems(1) obtain us where us: "undo_partial ops ch st1 (rev N) = (us, True)"
    "synced same ops ch base P (last (st1 # us))"
    "\<forall>w\<in>set us. same_marks st1 w \<and> (\<exists>k\<le>length N. synced same ops ch base (P @ take k N) w)" by auto
  have "same_marks st w \<and> (\<exists>k\<le>length (N @ [h]). synced same ops ch base (P @ take k (N @ [h])) w)" if "w \<in> set (st1 # us)" for w
  proof -
    from st1(2) have "synced same ops ch base (P @ take (length N) N) st1" by simp
    with that st1(3) us(3) have "same_marks st w" "\<exists>k\<le>length N. synced same ops ch base (P @ take k N) w"
      by (auto simp: same_marks_def)
    then show ?thesis by (metis diff_is_0_eq le_SucI length_append_singleton self_append_conv take0 take_append)
  qed
  with us st1(1) show ?case by (intro exI [of _ "st1 # us"]) auto
qed simp

lemma between_apply:
  assumes "all_bodies wf_block ch" and "distinct (P @ T)" and "n \<le> length T" and "synced same ops ch base (P @ take n T) st"
    and "apply_suffix ops ch st T = (ws, failed)"
  shows "(\<forall>w\<in>set (st # ws). same_marks st w \<and> (\<exists>k\<le>length T. synced same ops ch base (P @ take k T) w))
    \<and> (failed = None \<longrightarrow> synced same ops ch base (P @ T) (last (st # ws)))
    \<and> (\<forall>e off. failed = Some (e, off) \<longrightarrow> synced same ops ch base (P @ take off T) (last (st # ws)))"
proof -
  have at: "synced same ops ch base (P @ take (max k n) T) ((st # ws) ! k) \<and> same_marks st ((st # ws) ! k)"
    if "k \<le> length ws" for k
    using apply_suffix_synced [OF assms(1,4,5) that] add_blocks_after [OF assms(2,3)] by simp
  have each: "same_marks st w \<and> (\<exists>k\<le>length T. synced same ops ch base (P @ take k T) w)" if w: "w \<in> set (st # ws)" for w
  proof -
    from w obtain k where "k \<le> length ws" "w = (st # ws) ! k" by (metis in_set_conv_nth length_Cons less_Suc_eq_le)
    moreover have "take (max k n) T = take (min (max k n) (length T)) T" by (auto simp: min_def)
    ultimately show ?thesis using at [of k] by (metis min.cobounded2)
  qed
  have last: "last (st # ws) = (st # ws) ! length ws" by (simp add: last_conv_nth)
  have skips: "n \<le> off" if f: "failed = Some (e, off)" for e off
  proof (rule ccontr)
    assume "\<not> n \<le> off"
    have "length ws = off" "off < length T" using apply_suffix_length [OF assms(5)] f by auto
    with at [of off] last \<open>\<not> n \<le> off\<close> have "synced same ops ch base (P @ take n T) (last (st # ws))" by simp
    moreover have "T ! off \<in> set (take n T)" using \<open>\<not> n \<le> off\<close> \<open>off < length T\<close> by (auto simp: in_set_conv_nth)
    ultimately have "apply_block_to_virtual ops ch (last (st # ws)) (T ! off) = Ok (last (st # ws))"
      using synced_journal [of same ops ch base "P @ take n T" "last (st # ws)" "T ! off"]
      by (auto simp: apply_block_to_virtual_def)
    with apply_suffix_fails assms(5) f show False by force
  qed
  have none: "synced same ops ch base (P @ T) (last (st # ws))" if "failed = None"
    using that at [of "length ws"] last apply_suffix_length [OF assms(5)] assms(3) by (simp add: max_def split: if_splits)
  have some: "synced same ops ch base (P @ take off T) (last (st # ws))" if f: "failed = Some (e, off)" for e off
    using f skips [OF f] at [of "length ws"] last apply_suffix_length [OF assms(5)] by (simp add: max_def split: if_splits)
  show ?thesis
  proof (intro conjI allI impI)
    show "\<forall>w\<in>set (st # ws). same_marks st w \<and> (\<exists>k\<le>length T. synced same ops ch base (P @ take k T) w)"
      by (rule ballI) (rule each)
  qed (fact none, fact some)
qed

lemma restore_synced:
  assumes "all_bodies wf_block ch" and "same (fst base) (fst base)" and "distinct (P @ A)" and "distinct (P @ N)"
    and "replayable ops ch base (P @ A)" and "synced same ops ch base (P @ N) st"
  shows "\<exists>rs. try_restore_after_failed_reorg ops ch st A N = (rs, True) \<and> synced same ops ch base (P @ A) (last (st # rs))
    \<and> (\<forall>w\<in>set rs. same_marks st w \<and> between ch base P A N w)"
proof -
  from undo_partial_synced [OF assms(1,2,4,6)] obtain us where
    us: "undo_partial ops ch st (rev N) = (us, True)" "synced same ops ch base P (last (st # us))"
    "\<forall>w\<in>set us. same_marks st w \<and> (\<exists>k\<le>length N. synced same ops ch base (P @ take k N) w)" by blast
  obtain ws failed where app: "apply_suffix ops ch (last (st # us)) A = (ws, failed)" by fastforce
  with apply_suffix_succeeds [OF assms(1) us(2) assms(5,3)] have "failed = None" by simp
  moreover have "synced same ops ch base (P @ take 0 A) (last (st # us))" using us(2) by simp
  note redo = between_apply [OF assms(1,3) _ this app]
  moreover have "same_marks st (last (st # us))" using us(3) by (auto simp: same_marks_def)
  ultimately have "synced same ops ch base (P @ A) (last (st # us @ ws))"
    "\<forall>w\<in>set (us @ ws). same_marks st w \<and> between ch base P A N w"
    using us(3) by (simp_all add: last_append between_def same_marks_def ball_Un split: if_splits)
  then show ?thesis
    using us(1) app \<open>failed = None\<close> by (intro exI [of _ "us @ ws"]) (simp add: try_restore_after_failed_reorg_def)
qed

text \<open>
  One switch from \<open>old\<close> to \<open>new\<close>, whose blue orders share the prefix \<open>P\<close>, once the abandoned suffix is unapplied.
\<close>

lemma reorg_from_prefix:
  assumes ok: "all_bodies wf_block ch" "same (fst base) (fst base)" and dist: "distinct (P @ A)" "distinct (P @ T)"
    and old: "replayable ops ch base (P @ A)"
    and orders: "applied_blues ch old = Ok (P @ A)" "applied_blues ch new = Ok (P @ T)"
      "common_prefix_len (P @ A) (P @ T) = length P" "old \<noteq> new"
    and st0: "st0 = st\<lparr>vs_pending := Some new\<rparr>" "between ch base P A T st0"
    and st1: "unapply_suffix ops ch st0 A = Ok st1" "same_marks st0 st1" "synced same ops ch base (P @ take n T) st1" "n \<le> length T"
    and run: "reorg_utxo_to_virtual ops ch st old new = (ws, r)"
  shows "switched same ops ch base (old, P @ A) (new, P @ T) (ws, r)
     \<and> (\<forall>w\<in>set (butlast ws). same_marks st0 w \<and> between ch base P A T w)"
proof -
  obtain as failed where app: "apply_suffix ops ch st1 T = (as, failed)" by fastforce
  note between_apply [OF ok(1) dist(2) st1(4,3) app]
  then have applied: "\<forall>w\<in>set (st1 # as). same_marks st0 w \<and> between ch base P A T w"
    using st1(2) by (auto simp: between_def same_marks_def)
  have st0_between: "same_marks st0 st0 \<and> between ch base P A T st0" using st0(2) by (simp add: same_marks_def)
  show ?thesis
  proof (cases failed)
    case None
    with run app st0(1) st1(1) orders have "r = Ok ()" "ws = ([st0, st1] @ as) @ [set_tip new (last (st1 # as))]"
      by (simp_all add: reorg_utxo_to_virtual_def Let_def)
    with None applied st0_between between_apply [OF ok(1) dist(2) st1(4,3) app] show ?thesis
      by (simp add: switched_def butlast_append)
  next
    case (Some f)
    then obtain e off where f: "failed = Some (e, off)" by (cases f) auto
    define N where "N = take off T"
    have "length as = off" "off < length T" using apply_suffix_length [OF app] f by auto
    then have N: "synced same ops ch base (P @ N) (last (st1 # as))" "distinct (P @ N)"
      using between_apply [OF ok(1) dist(2) st1(4,3) app] f dist(2) by (auto simp: N_def dest: in_set_takeD)
    from restore_synced [OF ok dist(1) N(2) old N(1)] obtain rs where
      rs: "try_restore_after_failed_reorg ops ch (last (st1 # as)) A N = (rs, True)"
      "synced same ops ch base (P @ A) (last (last (st1 # as) # rs))"
      "\<forall>w\<in>set rs. same_marks (last (st1 # as)) w \<and> between ch base P A N w" by blast
    have "between ch base P A N w \<Longrightarrow> between ch base P A T w" for w
      unfolding N_def by (rule between_take)
    moreover have "same_marks st0 (last (st1 # as))" using applied by simp
    ultimately have restored: "\<forall>w\<in>set rs. same_marks st0 w \<and> between ch base P A T w"
      using rs(3) by (auto simp: same_marks_def)
    from run app st0(1) st1(1) orders f rs(1) have "r = Err e"
      "ws = ([st0, st1] @ as @ rs) @ [set_tip old (last (st1 # as @ rs))]"
      by (simp_all add: reorg_utxo_to_virtual_def Let_def N_def)
    with rs(2) applied restored st0_between show ?thesis
      by (simp add: switched_def butlast_append last_append ball_Un split: if_splits)
  qed
qed

lemma reorg_from:
  assumes ok: "all_bodies wf_block ch" "same (fst base) (fst base)" and dist: "distinct (P @ A)" "distinct (P @ T)"
    and old: "replayable ops ch base (P @ A)"
    and orders: "applied_blues ch old = Ok (P @ A)" "applied_blues ch new = Ok (P @ T)"
      "common_prefix_len (P @ A) (P @ T) = length P" "old \<noteq> new"
    and at: "(\<exists>m\<le>length A. synced same ops ch base (P @ take m A) st)
      \<or> (\<exists>k\<le>length T. synced same ops ch base (P @ take k T) st) \<and> set A \<inter> set T = {}"
    and run: "reorg_utxo_to_virtual ops ch st old new = (ws, r)"
  shows "switched same ops ch base (old, P @ A) (new, P @ T) (ws, r)
     \<and> (\<forall>w\<in>set (butlast ws). same_marks (st\<lparr>vs_pending := Some new\<rparr>) w \<and> between ch base P A T w)"
proof -
  define st0 where "st0 = st\<lparr>vs_pending := Some new\<rparr>"
  have btw: "between ch base P A T st0" using at unfolding between_def st0_def by auto
  from at have "\<exists>n\<le>length T. \<exists>st1. unapply_suffix ops ch st0 A = Ok st1 \<and> same_marks st0 st1
      \<and> synced same ops ch base (P @ take n T) st1"
  proof (elim disjE exE conjE)
    fix m assume m: "m \<le> length A" "synced same ops ch base (P @ take m A) st"
    then have "synced same ops ch base (P @ take m A) st0" by (simp add: st0_def)
    from unapply_list [OF ok dist(1) this m(1), of "vs_journals st0"] obtain st1 where
      "unapply_suffix ops ch st0 A = Ok st1" "synced same ops ch base (P @ take 0 T) st1" "same_marks st0 st1"
      by (auto simp: unapply_suffix_def)
    then show ?thesis by blast
  next
    fix k assume k: "k \<le> length T" "synced same ops ch base (P @ take k T) st" "set A \<inter> set T = {}"
    then have k0: "synced same ops ch base (P @ take k T) st0" by (simp add: st0_def)
    have "set A \<inter> set (P @ take k T) \<subseteq> {ch_genesis ch}" using k(3) dist(1) by (auto dest: in_set_takeD)
    from unapply_none [OF k0 this] k(1) k0 show ?thesis by (auto simp: same_marks_def)
  qed
  then show ?thesis
    using reorg_from_prefix [OF ok dist old orders st0_def btw _ _ _ _ run] st0_def by blast
qed

lemma interrupted_between:
  assumes ok: "all_bodies wf_block ch" "same (fst base) (fst base)" and dist: "distinct (P @ A)" "distinct (P @ T)"
    and st: "synced same ops ch base (P @ A) st"
    and orders: "applied_blues ch (virtual_tip ch st) = Ok (P @ A)" "applied_blues ch new = Ok (P @ T)"
      "common_prefix_len (P @ A) (P @ T) = length P" "virtual_tip ch st \<noteq> new"
    and disj: "set A \<inter> set T = {}"
    and "interrupted ops ch st new w"
  shows "virtual_tip ch w = virtual_tip ch st \<and> vs_pending w = Some new \<and> between ch base P A T w"
  using assms(11)
proof (induction rule: interrupted.induct)
  case (crash w)
  have old: "\<exists>m\<le>length A. synced same ops ch base (P @ take m A) st" using st by (auto intro: exI [of _ "length A"])
  obtain ws r where run: "reorg_utxo_to_virtual ops ch st (virtual_tip ch st) new = (ws, r)" by fastforce
  note sw = reorg_from [OF ok dist synced_replayable [OF st] orders disjI1 [OF old] run]
  with crash run have "w \<noteq> last ws" "w \<in> set ws" by (auto simp: switched_def Let_def split: prod.splits)
  then have "w \<in> set (butlast ws)" by (cases ws rule: rev_cases) auto
  with sw show ?case by (auto simp: same_marks_def virtual_tip_def)
next
  case (crash_again w w')
  obtain ws r where run: "reorg_utxo_to_virtual ops ch w (virtual_tip ch st) new = (ws, r)" by fastforce
  have "(\<exists>m\<le>length A. synced same ops ch base (P @ take m A) w)
      \<or> (\<exists>k\<le>length T. synced same ops ch base (P @ take k T) w) \<and> set A \<inter> set T = {}"
    using crash_again.IH disj by (auto simp: between_def)
  note sw = reorg_from [OF ok dist synced_replayable [OF st] orders this run]
  with crash_again run have "w' \<noteq> last ws" "w' \<in> set ws"
    by (auto simp: recover_pending_virtual_def switched_def Let_def split: prod.splits)
  then have "w' \<in> set (butlast ws)" by (cases ws rule: rev_cases) auto
  with sw crash_again.IH show ?case by (auto simp: same_marks_def virtual_tip_def)
qed

text \<open>The rehearsal on the overlay unapplies the same blocks and applies the same bodies.\<close>

lemma overlay_unapply:
  assumes "all_bodies wf_block ch" and "same (fst base) (fst base)" and "distinct (P @ A)" and "synced same ops ch base (P @ A) st"
  shows "\<exists>ov. fold_result (\<lambda>ov. plan_unapply_block ops ch (vs_journals ov) ov) st (rev A) = Ok ov \<and> synced same ops ch base P ov"
  using assms(3,4)
proof (induction A arbitrary: st rule: rev_induct)
  case (snoc h A)
  then have "synced same ops ch base ((P @ A) @ [h]) st" "h \<notin> set (P @ A)" by auto
  from synced_undo [OF assms(1,2) this refl] snoc show ?case by auto
qed simp

lemma synced_unique:
  assumes "synced same ops ch base P st" and "synced same ops ch base P st'"
  shows "same (vs_state st) (vs_state st') \<and> vs_issued st = vs_issued st'"
proof -
  from assms obtain js s js' s' where "map fst js = map fst js'" "replays ops ch base js (s, vs_issued st)"
    "replays ops ch base js' (s', vs_issued st')" "same s (vs_state st)" "same s' (vs_state st')"
    unfolding synced_def by metis
  with replays_det [of ops ch base js "(s, vs_issued st)" js' "(s', vs_issued st')"] show ?thesis
    by (auto intro: same_sym same_trans)
qed

lemma rehearsal_applies:
  assumes "all_bodies wf_block ch'" and ch': "ch' = ch\<lparr>ch_bodies := (ch_bodies ch)(bid \<mapsto> block)\<rparr>"
    and "\<forall>h\<in>set T. blue_score (ch_ghostdag ch) h \<noteq> None"
    and "same t (vs_state st)" and "synced same ops ch' base P st" and "distinct (P @ T)"
    and "fold_result (rehearse_block ops ch block bid) (t, vs_issued st) T = Ok q"
  shows "snd (apply_suffix ops ch' st T) = None"
  using assms(3-)
proof (induction T arbitrary: P st t)
  case (Cons h T)
  have "\<exists>t' st'. rehearse_block ops ch block bid (t, vs_issued st) h = Ok (t', vs_issued st')
      \<and> apply_block_to_virtual ops ch' st h = Ok st' \<and> same t' (vs_state st')"
  proof (cases "h = ch_genesis ch")
    case True
    then show ?thesis using Cons.prems(2) by (auto simp: rehearse_block_def apply_block_to_virtual_def ch')
  next
    case False
    from Cons.prems(5) False obtain b sc sch j t' i' where b: "ch_bodies ch' h = Some b"
      "blue_score (ch_ghostdag ch) h = Some sc" "reward_at_blue_score (ch_emission ch) sc = Some sch"
      and app: "lo_apply ops b (clamp_emission (ch_max_supply ch) (vs_issued st) sch) sc t = Ok (j, t')"
      and cap: "\<not> ch_max_supply ch < saturating_add (vs_issued st) (lo_subsidy ops j)"
      and step: "rehearse_block ops ch block bid (t, vs_issued st) h = Ok (t', saturating_add (vs_issued st) (lo_subsidy ops j))"
      using Cons.prems(1)
      by (auto simp: rehearse_block_def clamp_emission_def saturating_sub_def min_def ch' Let_def split: if_splits)
    have wf: "wf_block b" using b(1) assms(1) by (auto simp: all_bodies_def)
    have "same t t" using Cons.prems(2) by (meson same_sym same_trans)
    note subsidy_bound [OF wf this app]
    moreover obtain s' where "lo_apply ops b (clamp_emission (ch_max_supply ch) (vs_issued st) sch) sc (vs_state st) = Ok (j, s')"
      "same t' s'" using apply_same [OF wf Cons.prems(2) app] by blast
    moreover have "map_of (vs_journals st) h = None" using synced_journal [OF Cons.prems(3), of h] Cons.prems(4) by auto
    ultimately show ?thesis using b cap step False
      by (auto simp: apply_block_to_virtual_def apply_body_def Let_def ch' split: if_splits)
  qed
  then obtain t' st' where st': "rehearse_block ops ch block bid (t, vs_issued st) h = Ok (t', vs_issued st')"
    "apply_block_to_virtual ops ch' st h = Ok st'" "same t' (vs_state st')" by blast
  have "synced same ops ch' base (P @ [h]) st'"
    using synced_apply [OF assms(1) Cons.prems(3) st'(2)] Cons.prems(4) by (simp add: add_block_to_def)
  with Cons.IH [of t' st' "P @ [h]"] Cons.prems(1,4,5) st' show ?case by (auto split: prod.splits)
qed simp

end

section \<open>Orders as they come from the colouring\<close>

lemma blue_order_distinct: "blue_order g d tip = Ok L \<Longrightarrow> distinct L"
  by (auto simp: blue_order_def order_past_view_def distinct_map inj_on_def intro!: distinct_filter)

lemma applied_blues_distinct: "applied_blues ch tip = Ok L \<Longrightarrow> distinct L"
  by (auto simp: applied_blues_def dest: blue_order_distinct)

lemma common_prefix_split:
  fixes xs ys :: "'a list"
  defines "n \<equiv> common_prefix_len xs ys"
  shows "xs = take n xs @ drop n xs" and "ys = take n xs @ drop n ys" and "n = length (take n xs)"
proof -
  have "n \<le> length xs" unfolding n_def by (induction xs ys rule: common_prefix_len.induct) auto
  then show "n = length (take n xs)" by simp
  show "ys = take n xs @ drop n ys" unfolding n_def by (metis append_take_drop_id common_prefix_take)
qed simp

lemma blue_order_scored:
  assumes "reachable k d g" and "blue_order g d tip = Ok L" and "h \<in> set L"
  shows "blue_score g h \<noteq> None"
proof -
  have wf: "wf_dag d" and inv: "coloring_inv d k (gh_coloring g)" using reachable_inv [OF assms(1)] by auto
  from assms(2) obtain bs c where bs: "order_past_view g d tip = Ok bs" "gh_coloring g tip = Some c"
    "L = map ob_hash (filter ob_is_blue bs)" by (auto simp: blue_order_def order_past_view_def)
  have tip: "Dag.contains d tip" using coloring_invD(1) [OF inv bs(2)] .
  have "h \<in> past d tip" using assms(3) bs order_past_view_eq [OF wf tip bs(2)] past_finite [OF wf] by auto
  from coloring_closed [OF inv _ this] bs(2) show ?thesis by (auto simp: blue_score_def)
qed

section \<open>The transaction lane as the ledger\<close>

text \<open>The part of a block's application that moves outputs, with its journal.\<close>

definition utxo_ops ::
    "crypto_env \<Rightarrow> tx_auth_context option \<Rightarrow> (utxo_set, transaction list, utxo_result) ledger_ops" where
  "utxo_ops env auth =
     \<lparr>lo_apply = (\<lambda>txs emission _ u.
        bind_result (apply_transactions env u txs emission auth Virtual) (\<lambda>r. Ok (r, apply_utxo_batch (ur_batch r) u))),
      lo_revert = (\<lambda>r u. Ok (apply_utxo_batch (revert_utxo_batch (ur_created r) (ur_spent r)) u)),
      lo_subsidy = ur_subsidy\<rparr>"

definition same_utxos :: "utxo_set \<Rightarrow> utxo_set \<Rightarrow> bool" where
  "same_utxos u v \<longleftrightarrow> utxo_wf u \<and> utxo_wf v \<and> map_of u = map_of v"

definition distinct_ids :: "crypto_env \<Rightarrow> transaction list \<Rightarrow> bool" where
  "distinct_ids env txs \<longleftrightarrow> inj_on (tx_id env) (set txs)"

text \<open>The lane reads the set of outputs by key only.\<close>

lemma select_inputs_reads:
  "map_of u = map_of v \<Longrightarrow> select_inputs u created reserved pending n ops = select_inputs v created reserved pending n ops"
  by (induction ops arbitrary: pending n) (simp_all cong: if_cong option.case_cong)

lemma resolve_inputs_reads:
  "map_of u = map_of v \<Longrightarrow> resolve_inputs u ts signer pending n ops = resolve_inputs v ts signer pending n ops"
  by (induction ops arbitrary: pending n) (simp_all add: load_utxo_def cong: if_cong option.case_cong)

lemma create_outputs_reads: "map_of u = map_of v \<Longrightarrow> create_outputs env u coinbase = create_outputs env v coinbase"
proof -
  assume "map_of u = map_of v"
  then have "create_output u coinbase = create_output v coinbase" by (simp add: create_output_def fun_eq_iff)
  then show ?thesis by (intro ext) (simp add: create_outputs_def)
qed

lemma apply_transactions_reads:
  assumes "map_of u = map_of v"
  shows "apply_transactions env u txs emission auth mode = apply_transactions env v txs emission auth mode"
proof -
  have dup: "coinbase_outpoints_exist env u tx = coinbase_outpoints_exist env v tx" for tx
    using assms by (simp add: coinbase_outpoints_exist_def)
  have "select_step env u auth mode = select_step env v auth mode"
    by (intro ext) (simp only: select_step_def select_inputs_reads [OF assms] cong: if_cong)
  then have "selectable_transfers env u txs auth mode = selectable_transfers env v txs auth mode"
    by (simp only: selectable_transfers_def seed_coinbase_def dup cong: if_cong)
  moreover have "tx_step env u auth mode = tx_step env v auth mode"
    by (intro ext) (simp only: tx_step_def apply_coinbase_def apply_transfer_def dup resolve_inputs_reads [OF assms]
        create_outputs_reads [OF assms] cong: if_cong)
  ultimately show ?thesis by (simp only: apply_transactions_def)
qed

lemma apply_transactions_undone:
  assumes "apply_transactions env u txs emission auth Virtual = Ok r" and "utxo_wf u" and "inj_on (tx_id env) (set txs)"
  shows "map_of (apply_utxo_batch (revert_utxo_batch (ur_created r) (ur_spent r)) (apply_utxo_batch (ur_batch r) u)) = map_of u
    \<and> ur_subsidy r \<le> emission"
proof -
  obtain lp where "loop_ok env u lp []" and r: "ur_batch r = ts_batch (tl_state lp)"
    "ur_spent r = ts_spent (tl_state lp)" "ur_created r = ts_created (tl_state lp)" "ur_coinbase_total r = tl_coinbase_total lp"
    and sums: "utxo_total (utxo_view u (tl_state lp)) + unat (ur_fees r) = utxo_total u + unat (tl_coinbase_total lp)"
      "unat (tl_coinbase_total lp) \<le> unat emission + unat (ur_fees r)"
      "unat (ur_subsidy r) = unat (tl_coinbase_total lp) - unat (ur_fees r)"
    by (rule apply_transactions_cases [OF assms])
  then have ok: "tx_ok u (tl_state lp)" by (simp add: loop_ok_def)
  then have "distinct (map fst (ts_spent (tl_state lp)))" by (simp add: tx_ok_def)
  note utxo_revert_value [OF this, of "ts_created (tl_state lp)" "utxo_view u (tl_state lp)"]
  with ok have "map_of (apply_utxo_batch (revert_utxo_batch (ur_created r) (ur_spent r)) (apply_utxo_batch (ur_batch r) u)) op
      = map_of u op" for op
    by (auto simp: r utxo_view_def [symmetric] tx_ok_def split: option.splits if_splits)
  then show ?thesis using sums by (auto simp: word_le_nat_alt)
qed

lemma apply_utxo_batch_reads:
  "map_of u = map_of v \<Longrightarrow> map_of (apply_utxo_batch b u) = map_of (apply_utxo_batch b v)"
proof (induction b arbitrary: u v)
  case (Cons x b)
  then have "map_of (apply_utxo_op x u) = map_of (apply_utxo_op x v)" by (cases x) (simp_all add: fun_eq_iff)
  from Cons.IH [OF this] show ?case by simp
qed simp

interpretation utxo_ledger: reversible_ledger "utxo_ops env auth" same_utxos "distinct_ids env"
proof unfold_locales
  fix b s t e sc j s'
  assume b: "distinct_ids env b" and st: "same_utxos s t" and app: "lo_apply (utxo_ops env auth) b e sc s = Ok (j, s')"
  then show "\<exists>t'. lo_apply (utxo_ops env auth) b e sc t = Ok (j, t') \<and> same_utxos s' t'"
    using apply_transactions_reads [of s t env b e auth Virtual] apply_utxo_batch_reads [of s t "ur_batch j"]
    by (auto simp: utxo_ops_def same_utxos_def)
next
  fix b s e sc j s'
  assume "distinct_ids env b" and "same_utxos s s" and "lo_apply (utxo_ops env auth) b e sc s = Ok (j, s')"
  then show "lo_subsidy (utxo_ops env auth) j \<le> e"
    using apply_transactions_undone [of env s b e auth j] by (auto simp: utxo_ops_def same_utxos_def distinct_ids_def)
next
  fix b s e sc j s' t
  assume "distinct_ids env b" and "same_utxos s s" and "lo_apply (utxo_ops env auth) b e sc s = Ok (j, s')" and "same_utxos s' t"
  then show "\<exists>u. lo_revert (utxo_ops env auth) j t = Ok u \<and> same_utxos s u"
    using apply_transactions_undone [of env s b e auth j]
      apply_utxo_batch_reads [of s' t "revert_utxo_batch (ur_created j) (ur_spent j)"]
    by (auto simp: utxo_ops_def same_utxos_def distinct_ids_def)
qed (auto simp: same_utxos_def)


lemma utxo_reorg_plan:
  assumes "applied_blues ch old = Ok xs" and "applied_blues ch new = Ok ys"
  obtains P A T where "xs = P @ A" "ys = P @ T" "distinct (P @ A)" "distinct (P @ T)"
    "common_prefix_len (P @ A) (P @ T) = length P" "P = take (common_prefix_len xs ys) xs"
    "A = drop (common_prefix_len xs ys) xs" "T = drop (common_prefix_len xs ys) ys"
proof -
  note sp = common_prefix_split [where xs = xs and ys = ys]
  show thesis
    by (rule that [OF sp(1,2)]) (use sp assms applied_blues_distinct in \<open>metis\<close>)+
qed

lemma utxo_switched:
  assumes "all_bodies (distinct_ids env) ch" and "utxo_wf (fst base)"
    and "synced same_utxos (utxo_ops env auth) ch base xs st"
    and "applied_blues ch old = Ok xs" and "applied_blues ch new = Ok ys" and "old \<noteq> new"
  shows "switched same_utxos (utxo_ops env auth) ch base (old, xs) (new, ys)
    (reorg_utxo_to_virtual (utxo_ops env auth) ch st old new)"
proof -
  obtain P A T where plan: "xs = P @ A" "ys = P @ T" "distinct (P @ A)" "distinct (P @ T)"
    "common_prefix_len (P @ A) (P @ T) = length P" by (rule utxo_reorg_plan [OF assms(4,5)])
  obtain ws r where run: "reorg_utxo_to_virtual (utxo_ops env auth) ch st old new = (ws, r)" by fastforce
  have "same_utxos (fst base) (fst base)" using assms(2) by (simp add: same_utxos_def)
  moreover have "\<exists>m\<le>length A. synced same_utxos (utxo_ops env auth) ch base (P @ take m A) st"
    using assms(3) plan(1) by (auto intro: exI [of _ "length A"])
  ultimately show ?thesis
    using utxo_ledger.reorg_from [OF assms(1) _ plan(3,4) _ _ _ plan(5) assms(6) _ run] assms(4,5) plan(1,2)
      synced_replayable [OF assms(3)] run by simp
qed

section \<open>Properties of the virtual ledger\<close>

text \<open>
  Property C33. A switch of the virtual tip moves the ledger from one blue order to the other. When the store holds
  the ledger of the blue order of the old tip, \<open>reorg_utxo_to_virtual\<close> ends in the ledger, issued supply and
  journals of the blue order of the new tip, whatever blocks the two orders share; when a block of the new order
  fails, every step is taken back and the store holds the ledger of the old tip again. In both cases the pending
  marker is gone and the virtual tip names the order that is applied.
\<close>

theorem reorg_switches_or_restores:
  assumes "all_bodies (distinct_ids env) ch" and "utxo_wf (fst base)"
    and "synced same_utxos (utxo_ops env auth) ch base xs st"
    and "applied_blues ch old = Ok xs" and "applied_blues ch new = Ok ys" and "old \<noteq> new"
  shows "switched same_utxos (utxo_ops env auth) ch base (old, xs) (new, ys)
    (reorg_utxo_to_virtual (utxo_ops env auth) ch st old new)"
  using assms by (rule utxo_switched)

text \<open>
  Property C34. Recovery finishes an interrupted switch. After any number of crashes at any durable write of a switch
  and of the recoveries that follow, running the recovery once more ends as the uninterrupted switch does, provided
  that no block lies in both the abandoned suffix and the new suffix of the two orders.
\<close>

theorem recovery_finishes_switch:
  assumes "all_bodies (distinct_ids env) ch" and "utxo_wf (fst base)"
    and "synced same_utxos (utxo_ops env auth) ch base xs st"
    and "applied_blues ch (virtual_tip ch st) = Ok xs" and "applied_blues ch new = Ok ys" and "virtual_tip ch st \<noteq> new"
    and "set (drop (common_prefix_len xs ys) xs) \<inter> set (drop (common_prefix_len xs ys) ys) = {}"
    and "interrupted (utxo_ops env auth) ch st new w"
  shows "switched same_utxos (utxo_ops env auth) ch base (virtual_tip ch st, xs) (new, ys)
    (recover_pending_virtual (utxo_ops env auth) ch w)"
proof -
  obtain P A T where plan: "xs = P @ A" "ys = P @ T" "distinct (P @ A)" "distinct (P @ T)"
    "common_prefix_len (P @ A) (P @ T) = length P" "P = take (common_prefix_len xs ys) xs"
    "A = drop (common_prefix_len xs ys) xs" "T = drop (common_prefix_len xs ys) ys"
    by (rule utxo_reorg_plan [OF assms(4,5)])
  have base: "same_utxos (fst base) (fst base)" using assms(2) by (simp add: same_utxos_def)
  have disj: "set A \<inter> set T = {}" using assms(7) plan(7,8) by simp
  note st = assms(3) [unfolded plan(1)] and old = assms(4) [unfolded plan(1)] and new = assms(5) [unfolded plan(2)]
  from utxo_ledger.interrupted_between [OF assms(1) base plan(3,4) st old new plan(5) assms(6) disj assms(8)]
  have w: "virtual_tip ch w = virtual_tip ch st" "vs_pending w = Some new"
    "utxo_ledger.between env auth ch base P A T w" by auto
  obtain ws r where run: "reorg_utxo_to_virtual (utxo_ops env auth) ch w (virtual_tip ch st) new = (ws, r)" by fastforce
  from w(3) disj have at: "(\<exists>m\<le>length A. synced same_utxos (utxo_ops env auth) ch base (P @ take m A) w)
      \<or> (\<exists>k\<le>length T. synced same_utxos (utxo_ops env auth) ch base (P @ take k T) w) \<and> set A \<inter> set T = {}"
    by (auto simp: utxo_ledger.between_def)
  from utxo_ledger.reorg_from [OF assms(1) base plan(3,4) synced_replayable [OF st] old new plan(5) assms(6) at run]
  show ?thesis using run w(1,2) plan(1,2) by (simp add: recover_pending_virtual_def)
qed


text \<open>
  Property C36. The rehearsal predicts the switch. When a candidate passes the proof of its blue order on an overlay over
  the store, then with the candidate stored the switch of the live ledger to it succeeds.
\<close>

theorem rehearsed_candidate_switches:
  assumes "validate_blue_order_utxo (utxo_ops env auth) ch st block bid = Ok ()"
    and "ch' = ch\<lparr>ch_bodies := (ch_bodies ch)(bid \<mapsto> block)\<rparr>"
    and "all_bodies (distinct_ids env) ch'" and "utxo_wf (fst base)"
    and "reachable k (ch_dag ch) (ch_ghostdag ch)"
    and "applied_blues ch (virtual_tip ch st) = Ok xs" and "synced same_utxos (utxo_ops env auth) ch' base xs st"
  shows "\<exists>ws. reorg_utxo_to_virtual (utxo_ops env auth) ch' st (virtual_tip ch st) bid = (ws, Ok ())"
proof (cases "virtual_tip ch st = bid")
  case False
  let ?ops = "utxo_ops env auth"
  have blues': "applied_blues ch' = applied_blues ch" by (simp add: assms(2) applied_blues_def fun_eq_iff)
  have unapply': "plan_unapply_block ?ops ch' = plan_unapply_block ?ops ch"
    by (simp add: assms(2) plan_unapply_block_def fun_eq_iff)
  from assms(1) obtain ys where ys: "applied_blues ch bid = Ok ys" by (auto simp: validate_blue_order_utxo_def)
  obtain P A T where plan: "xs = P @ A" "ys = P @ T" "distinct (P @ A)" "distinct (P @ T)"
    "common_prefix_len (P @ A) (P @ T) = length P" by (rule utxo_reorg_plan [OF assms(6) ys])
  have base: "same_utxos (fst base) (fst base)" using assms(4) by (simp add: same_utxos_def)
  note st = assms(7) [unfolded plan(1)]
  define st0 where "st0 = st\<lparr>vs_pending := Some bid\<rparr>"
  from utxo_ledger.overlay_unapply [OF assms(3) base plan(3) st] obtain ov where
    ov: "fold_result (\<lambda>ov. plan_unapply_block ?ops ch (vs_journals ov) ov) st (rev A) = Ok ov"
      "synced same_utxos ?ops ch' base P ov" by (auto simp: unapply')
  with assms(1,6) ys plan(1,2,5) obtain q where
    re: "fold_result (rehearse_block ?ops ch block bid) (vs_state ov, vs_issued ov) T = Ok q"
    by (auto simp: validate_blue_order_utxo_def Let_def)
  have "synced same_utxos ?ops ch' base (P @ take (length A) A) st0" using st by (simp add: st0_def)
  from utxo_ledger.unapply_list [OF assms(3) base plan(3) this, of "vs_journals st0"] obtain st1 where
    st1: "unapply_suffix ?ops ch' st0 A = Ok st1" "synced same_utxos ?ops ch' base P st1"
    by (auto simp: unapply_suffix_def)
  from utxo_ledger.synced_unique [OF ov(2) st1(2)] have same: "same_utxos (vs_state ov) (vs_state st1)" "vs_issued ov = vs_issued st1"
    by auto
  have "\<forall>h\<in>set T. blue_score (ch_ghostdag ch) h \<noteq> None"
    using blue_order_scored [OF assms(5)] ys plan(2) by (auto simp: applied_blues_def)
  from utxo_ledger.rehearsal_applies [OF assms(3,2) this same(1) st1(2) plan(4)] re same(2)
  have "snd (apply_suffix ?ops ch' st1 T) = None" by simp
  then show ?thesis
    using False st1(1) assms(6) ys plan(1,2,5) blues'
    by (auto simp: reorg_utxo_to_virtual_def Let_def st0_def split: prod.splits)
qed (simp add: reorg_utxo_to_virtual_def)

text \<open>
  Property C37. A tip change that the finality guard lets through keeps every finalised blue block where it is: a block
  of the old order whose blue score is at or below the finalised score stands at the same position of the new order.
\<close>

theorem guard_keeps_finalized:
  assumes "guard_reorg_vs_finality ch (Some f) old new = Ok ()"
    and "applied_blues ch old = Ok xs" and "applied_blues ch new = Ok ys"
    and "i < length xs" and "blue_score (ch_ghostdag ch) (xs ! i) = Some score" and "score \<le> f"
  shows "i < length ys \<and> ys ! i = xs ! i"
proof (cases "old = new")
  case False
  let ?n = "common_prefix_len xs ys"
  have step: "\<forall>h\<in>set hs. \<not> sc h \<le> f" if "fold_result (\<lambda>_ h. if sc h \<le> f then Err (FinalityReorg f (sc h)) else Ok ()) u hs = Ok ()"
    for sc :: "hash \<Rightarrow> u64" and u hs
    using that by (induction hs arbitrary: u) (auto split: if_splits)
  have "i < ?n"
  proof (rule ccontr)
    assume "\<not> i < ?n"
    then have "xs ! i \<in> set (drop ?n xs)" using assms(4) by (auto simp: in_set_conv_nth intro!: exI [of _ "i - ?n"])
    with assms(1,2,3,5,6) False show False by (auto simp: guard_reorg_vs_finality_def Let_def dest!: step)
  qed
  moreover note common_prefix_take [of xs ys] common_prefix_split(3) [where xs = xs and ys = ys]
  ultimately show ?thesis by (metis length_take min_less_iff_conj nth_take)
qed (use assms in simp)

section \<open>Concrete chains\<close>

text \<open>
  A block 3 spends the premine, a sibling 2 pays its miner only, and block 4, whose parents are both, spends an output
  of block 3. The blue order of 3 is 1, 3 and that of 4 is 1, 2, 3, 4.
\<close>

definition demo_child :: transaction where
  "demo_child = \<lparr>t_version = 1, t_inputs = [\<lparr>op_tx_id = 200, op_index = 0\<rparr>],
     t_outputs = [\<lparr>out_value = 6, out_address = 7\<rparr>], t_nonce = 300,
     t_public_key = replicate 33 8, t_signature = replicate 64 8\<rparr>"

definition demo_bodies :: "hash \<Rightarrow> transaction list option" where
  "demo_bodies = [2 \<mapsto> [demo_coinbase\<lparr>t_nonce := 101, t_outputs := [\<lparr>out_value = 4, out_address = 9\<rparr>]\<rparr>],
     3 \<mapsto> [demo_coinbase, demo_spend],
     4 \<mapsto> [demo_coinbase\<lparr>t_nonce := 102, t_outputs := [\<lparr>out_value = 4, out_address = 9\<rparr>]\<rparr>, demo_child]]"

definition demo_chain :: "transaction list chain" where
  "demo_chain = (case the (grow (dag_new, ghostdag_new 1) diamond) of (d, g) \<Rightarrow>
     \<lparr>ch_genesis = 1, ch_dag = d, ch_ghostdag = g, ch_emission = \<lparr>initial_reward = 4, halving_interval = 1000\<rparr>,
      ch_max_supply = 100, ch_bodies = demo_bodies\<rparr>)"

definition demo_base :: "(utxo_set, utxo_result) virtual_store" where
  "demo_base = \<lparr>vs_state = demo_utxos, vs_issued = 10, vs_journals = [], vs_virtual_tip = Some 1, vs_pending = None\<rparr>"

abbreviation demo_ops :: "(utxo_set, transaction list, utxo_result) ledger_ops" where
  "demo_ops \<equiv> utxo_ops utxo_env None"

definition demo_at :: "hash \<Rightarrow> (utxo_set, utxo_result) virtual_store" where
  "demo_at tip = last (fst (reorg_utxo_to_virtual demo_ops demo_chain demo_base 1 tip))"

lemma demo_orders:
  "applied_blues demo_chain 1 = Ok [1]" "applied_blues demo_chain 2 = Ok [1, 2]" "applied_blues demo_chain 3 = Ok [1, 3]"
  "applied_blues demo_chain 4 = Ok [1, 2, 3, 4]"
  by code_simp+



lemma demo_chain_parts:
  "ch_genesis demo_chain = 1" "ch_bodies demo_chain = demo_bodies" "demo_chain\<lparr>ch_bodies := demo_bodies\<rparr> = demo_chain"
  by (simp_all add: demo_chain_def split: prod.split)

lemma demo_reachable: "reachable 1 (ch_dag demo_chain) (ch_ghostdag demo_chain)"
proof -
  have "grow (dag_new, ghostdag_new 1) diamond \<noteq> None" by code_simp
  then obtain d g where "grow (dag_new, ghostdag_new 1) diamond = Some (d, g)" by auto
  then show ?thesis using grow_reachable by (auto simp: demo_chain_def)
qed

lemma demo_distinct: "all_bodies (distinct_ids utxo_env) demo_chain"
proof -
  have "list_all (\<lambda>h. distinct (map (tx_id utxo_env) (the (demo_bodies h)))) [2, 3, 4]" by code_simp
  then show ?thesis
    by (auto simp: all_bodies_def distinct_ids_def demo_chain_parts demo_bodies_def distinct_map split: if_splits)
qed

lemma demo_synced:
  assumes "applied_blues demo_chain tip = Ok ys" and "tip \<noteq> 1"
    and "snd (reorg_utxo_to_virtual demo_ops demo_chain demo_base 1 tip) = Ok ()"
  shows "synced same_utxos demo_ops demo_chain (demo_utxos, 10) ys (demo_at tip)"
proof -
  have "synced same_utxos demo_ops demo_chain (demo_utxos, 10) [1] demo_base"
    by (simp add: synced_def demo_chain_parts demo_base_def same_utxos_def demo_utxos_wf)
  from utxo_switched [OF demo_distinct _ this demo_orders(1) assms(1)] demo_utxos_wf assms(2,3) show ?thesis
    by (auto simp: switched_def demo_at_def Let_def)
qed

lemma demo_runs:
  "snd (reorg_utxo_to_virtual demo_ops demo_chain demo_base 1 2) = Ok ()"
  "snd (reorg_utxo_to_virtual demo_ops demo_chain demo_base 1 3) = Ok ()"
  "virtual_tip demo_chain (demo_at 2) = 2" "virtual_tip demo_chain (demo_at 3) = 3"
  by code_simp+

theorem reorg_switches_or_restores_witness:
  "switched same_utxos demo_ops demo_chain (demo_utxos, 10) (3, [1, 3]) (4, [1, 2, 3, 4])
     (reorg_utxo_to_virtual demo_ops demo_chain (demo_at 3) 3 4)"
  using reorg_switches_or_restores [OF demo_distinct _ demo_synced [OF demo_orders(3) _ demo_runs(2)] demo_orders(3,4)]
    demo_utxos_wf by simp

theorem recovery_finishes_switch_witness:
  "\<exists>w. interrupted demo_ops demo_chain (demo_at 2) 3 w
     \<and> switched same_utxos demo_ops demo_chain (demo_utxos, 10) (2, [1, 2]) (3, [1, 3]) (recover_pending_virtual demo_ops demo_chain w)"
proof -
  let ?w = "fst (reorg_utxo_to_virtual demo_ops demo_chain (demo_at 2) 2 3) ! 1"
  have "1 < length (fst (reorg_utxo_to_virtual demo_ops demo_chain (demo_at 2) 2 3))" "vs_pending ?w \<noteq> None" by code_simp+
  then have w: "interrupted demo_ops demo_chain (demo_at 2) 3 ?w"
    by (intro interrupted.crash) (simp_all add: demo_runs)
  from recovery_finishes_switch [OF demo_distinct _ demo_synced [OF demo_orders(2) _ demo_runs(1)], of 3 "[1, 3]" ?w]
    w demo_utxos_wf demo_orders show ?thesis by (auto simp: demo_runs)
qed

theorem rehearsed_candidate_switches_witness:
  "\<exists>ws. reorg_utxo_to_virtual demo_ops demo_chain (demo_at 3) 3 4 = (ws, Ok ())"
proof -
  let ?ch = "demo_chain\<lparr>ch_bodies := demo_bodies(4 := None)\<rparr>"
  have "validate_blue_order_utxo demo_ops ?ch (demo_at 3) (the (demo_bodies 4)) 4 = Ok ()" by code_simp
  moreover have "demo_chain = ?ch\<lparr>ch_bodies := (ch_bodies ?ch)(4 \<mapsto> the (demo_bodies 4))\<rparr>"
    by (simp add: demo_chain_parts demo_bodies_def fun_upd_idem)
  moreover have "virtual_tip ?ch (demo_at 3) = 3" "applied_blues ?ch 3 = Ok [1, 3]"
    using demo_runs(4) demo_orders(3) by (simp_all add: virtual_tip_def applied_blues_def split: option.splits)
  moreover have "synced same_utxos demo_ops demo_chain (demo_utxos, 10) [1, 3] (demo_at 3)"
    using demo_synced [OF demo_orders(3) _ demo_runs(2)] by simp
  ultimately show ?thesis
    using rehearsed_candidate_switches [of utxo_env None ?ch "demo_at 3" "the (demo_bodies 4)" 4 demo_chain "(demo_utxos, 10)" 1 "[1, 3]"]
      demo_distinct demo_utxos_wf demo_reachable by simp
qed

theorem guard_keeps_finalized_witness:
  "guard_reorg_vs_finality demo_chain (Some 1) 3 4 = Ok () \<and> [1, 2, 3, 4 :: hash] ! 0 = [1, 3] ! 0"
proof -
  have "guard_reorg_vs_finality demo_chain (Some 1) 3 4 = Ok ()" "blue_score (ch_ghostdag demo_chain) 1 = Some 1"
    by code_simp+
  then show ?thesis using guard_keeps_finalized [OF _ demo_orders(3,4), of 1 0 1] by simp
qed

end
