(* ===== verification/Finality_Gadget.thy ===== *)
theory Finality_Gadget
  imports Finality Staking_Rewards Chain_Reorg
begin

text \<open>
  The finality gadget of a node: certificates, attestation indexes and last attestations in the store
  (\<open>state-machine/src/finality_store.rs\<close>), the admission of a checkpoint attestation and the proof-of-work note
  (\<open>node-bin/src/admit/finality.rs\<close>), with the check of an attestation's signature (\<open>crypto/src/attestation.rs\<close>).

  The state root of a checkpoint body, \<open>compose_trident_state_root\<close>, is a hash over every column of the store;
  it is a function argument here. The store is written in batches; the result of an operation is the store after
  its batch.
\<close>

section \<open>Records in the store\<close>

fun as_certificate :: "meta_val \<Rightarrow> finality_certificate option" where
  "as_certificate (VCertificate c) = Some c"
| "as_certificate _ = None"

fun as_att_index :: "meta_val \<Rightarrow> attestation_index option" where
  "as_att_index (VAttIndex i) = Some i"
| "as_att_index _ = None"

fun as_attestation :: "meta_val \<Rightarrow> checkpoint_attestation option" where
  "as_attestation (VAttestation a) = Some a"
| "as_attestation _ = None"

definition put_certificate_into :: "finality_certificate \<Rightarrow> write_batch" where
  "put_certificate_into cert =
     Put (KCertificate (cb_block_hash (fc_body cert))) (VCertificate cert)
     # (if is_finalized (fc_state cert) then [Put KFinalizedTip (VU64 (cb_blue_score (fc_body cert)))] else [])"

definition load_certificate :: "state_store \<Rightarrow> hash \<Rightarrow> finality_certificate option res" where
  "load_certificate s h =
     (case get_cf s (KCertificate h) of
        None \<Rightarrow> Ok None
      | Some v \<Rightarrow> bind_result (decode_as as_certificate v) (\<lambda>c. Ok (Some c)))"

definition load_finalized_blue_score :: "state_store \<Rightarrow> u64 option" where
  "load_finalized_blue_score s = stored as_u64 s KFinalizedTip"

definition insert_signer :: "address \<Rightarrow> address list \<Rightarrow> address list" where
  "insert_signer a xs = (if a \<in> set xs then xs else sort (xs @ [a]))"

fun index_insert :: "native_asset_id \<Rightarrow> address \<Rightarrow> attestation_index \<Rightarrow> attestation_index" where
  "index_insert OVL a idx = idx\<lparr>ai_ovl_signers := insert_signer a (ai_ovl_signers idx)\<rparr>"
| "index_insert DRC a idx = idx\<lparr>ai_drc_signers := insert_signer a (ai_drc_signers idx)\<rparr>"
| "index_insert TLT a idx = idx"

fun signers :: "attestation_index \<Rightarrow> native_asset_id \<Rightarrow> address list" where
  "signers idx OVL = ai_ovl_signers idx"
| "signers idx DRC = ai_drc_signers idx"
| "signers idx TLT = []"

definition put_attestation_index_into :: "hash \<Rightarrow> attestation_index \<Rightarrow> write_batch" where
  "put_attestation_index_into h idx = [Put (KAttIndex h) (VAttIndex idx)]"

definition load_attestation_index :: "state_store \<Rightarrow> hash \<Rightarrow> attestation_index res" where
  "load_attestation_index s h =
     (case get_cf s (KAttIndex h) of
        None \<Rightarrow> Ok default_attestation_index
      | Some v \<Rightarrow> decode_as as_att_index v)"

definition put_last_attestation_into :: "checkpoint_attestation \<Rightarrow> write_batch" where
  "put_last_attestation_into att =
     [Put (KLastAtt (ca_set att) (ca_validator att) (cb_validator_epoch (ca_body att))) (VAttestation att)]"

definition load_last_attestation ::
    "state_store \<Rightarrow> native_asset_id \<Rightarrow> address \<Rightarrow> u64 \<Rightarrow> checkpoint_attestation option res" where
  "load_last_attestation s asset a epoch =
     (case get_cf s (KLastAtt asset a epoch) of
        None \<Rightarrow> Ok None
      | Some v \<Rightarrow> bind_result (decode_as as_attestation v) (\<lambda>att. Ok (Some att)))"

section \<open>Checkpoint bodies and signatures\<close>

definition checkpoint_vals :: "checkpoint_body \<Rightarrow> borsh_val list" where
  "checkpoint_vals b =
     [BStr ''agora-trident-checkpoint-v1'', BStr (cb_chain_id b), BHash (cb_genesis_hash b),
      BHash (cb_consensus_policy_hash b), BStr (cb_state_transition_version b), BU64 (cb_blue_score b),
      BHash (cb_block_hash b), BHash (cb_state_root b), BU64 (cb_validator_epoch b)]"

definition checkpoint_signing_bytes :: "crypto_env \<Rightarrow> checkpoint_body \<Rightarrow> bytes" where
  "checkpoint_signing_bytes env b = borsh_to_vec env (checkpoint_vals b)"

definition checkpoint_id :: "crypto_env \<Rightarrow> checkpoint_body \<Rightarrow> hash" where
  "checkpoint_id env b = hash_borsh env (checkpoint_vals b)"

definition verify_checkpoint_attestation :: "crypto_env \<Rightarrow> checkpoint_attestation \<Rightarrow> bool" where
  "verify_checkpoint_attestation env att \<longleftrightarrow>
     ca_set att \<noteq> TLT \<and> length (ca_public_key att) = 33 \<and> length (ca_signature att) = 64
     \<and> secp_verify env (ca_public_key att) (checkpoint_signing_bytes env (ca_body att)) (ca_signature att)
     \<and> address_from_pubkey env (ca_public_key att) = ca_validator att"

section \<open>The gadget\<close>

text \<open>The fields of the chain state the gadget reads; \<open>ga_blue_score\<close> is the blue score of the colouring.\<close>

record gadget =
  ga_env :: crypto_env
  ga_auth :: "tx_auth_context option"
  ga_genesis :: hash
  ga_policy_hash :: hash
  ga_pow :: finality_pow_policy
  ga_blue_score :: "hash \<Rightarrow> u64 option"
  ga_state_root :: "state_store \<Rightarrow> hash \<Rightarrow> hash res"

definition checkpoint_body_for :: "gadget \<Rightarrow> state_store \<Rightarrow> hash \<Rightarrow> u64 \<Rightarrow> admit_error + checkpoint_body" where
  "checkpoint_body_for g s block_hash score =
     bind_result (wrap_err StateFailure (ga_state_root g s block_hash)) (\<lambda>root.
     Ok \<lparr>cb_chain_id = (case ga_auth g of Some a \<Rightarrow> chain_id a | None \<Rightarrow> ''agora-dev''),
         cb_genesis_hash = ga_genesis g, cb_consensus_policy_hash = ga_policy_hash g,
         cb_state_transition_version = ''agora-trident-state-v24'', cb_blue_score = score,
         cb_block_hash = block_hash, cb_state_root = root,
         cb_validator_epoch = max (load_epoch s OVL) (load_epoch s DRC)\<rparr>)"

definition checkpoint_body_of :: "gadget \<Rightarrow> state_store \<Rightarrow> hash \<Rightarrow> admit_error + checkpoint_body option" where
  "checkpoint_body_of g s block_hash =
     (case ga_blue_score g block_hash of
        None \<Rightarrow> Ok None
      | Some score \<Rightarrow> bind_result (checkpoint_body_for g s block_hash score) (\<lambda>b. Ok (Some b)))"

definition note_pow_on_virtual_tip :: "gadget \<Rightarrow> state_store \<Rightarrow> hash \<Rightarrow> admit_error + state_store" where
  "note_pow_on_virtual_tip g s tip =
     (case ga_blue_score g tip of
        None \<Rightarrow> Ok s
      | Some score \<Rightarrow>
          bind_result (checkpoint_body_for g s tip score) (\<lambda>body.
          bind_result (wrap_err StateFailure (load_certificate s tip)) (\<lambda>found.
          let cert = (case found of Some c \<Rightarrow> c | None \<Rightarrow> new_certificate body);
              cert1 = (if fc_body cert \<noteq> body
                then (new_certificate body)\<lparr>fc_ovl_signed_stake := fc_ovl_signed_stake cert,
                        fc_ovl_active_stake := fc_ovl_active_stake cert,
                        fc_drc_signed_stake := fc_drc_signed_stake cert,
                        fc_drc_active_stake := fc_drc_active_stake cert\<rparr>
                else cert)
          in Ok (apply_batch (put_certificate_into (refresh_certificate (note_pow_progress cert1 score (ga_pow g)))) s))))"

text \<open>The part of \<open>admit_attestation\<close> after the checks against the last attestation: the signature is counted.\<close>

definition count_attestation ::
    "gadget \<Rightarrow> state_store \<Rightarrow> checkpoint_attestation \<Rightarrow> admit_error + (state_store \<times> finality_certificate)" where
  "count_attestation g s att =
     (let block_hash = cb_block_hash (ca_body att) in
     bind_result (ok_or (ga_blue_score g block_hash) (InvalidAttestation ''unknown checkpoint block'')) (\<lambda>local_score.
     bind_result (checkpoint_body_for g s block_hash local_score) (\<lambda>expected.
     if ca_body att \<noteq> expected then Err (InvalidAttestation ''checkpoint body mismatch'')
     else
     bind_result (wrap_err StateFailure (load_attestation_index s block_hash)) (\<lambda>idx0.
     let idx = index_insert (ca_set att) (ca_validator att) idx0 in
     bind_result (wrap_err StateFailure (build_snapshot s (ca_set att) (cb_validator_epoch (ca_body att)))) (\<lambda>snap.
     let signed = signed_stake_for snap (signers idx (ca_set att)); active = vs_total_active_stake snap in
     bind_result (wrap_err StateFailure (load_certificate s block_hash)) (\<lambda>found.
     let cert0 = (case found of Some c \<Rightarrow> c | None \<Rightarrow> new_certificate expected);
         cert1 = (if fc_body cert0 \<noteq> expected then new_certificate expected else cert0);
         cert2 = note_pow_progress cert1 local_score (ga_pow g) in
     bind_result (wrap_err ConsensusError (note_signed_stake cert2 expected (ca_set att = OVL) signed active)) (\<lambda>cert.
     Ok (apply_batch (put_attestation_index_into block_hash idx @ put_last_attestation_into att @ put_certificate_into cert) s,
         cert))))))))"

definition admit_attestation ::
    "gadget \<Rightarrow> state_store \<Rightarrow> checkpoint_attestation \<Rightarrow> state_store \<times> (admit_error + finality_certificate)" where
  "admit_attestation g s att =
     (let fresh = (case count_attestation g s att of Inl e \<Rightarrow> (s, Err e) | Inr (s', cert) \<Rightarrow> (s', Ok cert)) in
      if ca_set att = TLT then (s, Err (InvalidAttestation ''attestation set must be OVL or DRC''))
      else if \<not> verify_checkpoint_attestation (ga_env g) att then (s, Err (InvalidAttestation ''signature''))
      else case validator_key_matches s att of
        Inl e \<Rightarrow> (s, Err (StateFailure e))
      | Inr False \<Rightarrow> (s, Err (InvalidAttestation ''validator key mismatch or inactive''))
      | Inr True \<Rightarrow>
          (case load_last_attestation s (ca_set att) (ca_validator att) (cb_validator_epoch (ca_body att)) of
             Inl e \<Rightarrow> (s, Err (StateFailure e))
           | Inr None \<Rightarrow> fresh
           | Inr (Some prev) \<Rightarrow>
               (case detect_double_checkpoint (checkpoint_id (ga_env g)) (\<lambda>(a, b). hash_borsh (ga_env g) [BHash a, BHash b]) prev att of
                  Some ev \<Rightarrow>
                    (case apply_evidence s ev default_slash_policy of
                       Inl e \<Rightarrow> (s, Err (InvalidAttestation ''evidence''))
                     | Inr (b, _) \<Rightarrow> (apply_batch (b @ put_last_attestation_into att) s,
                                     Err (InvalidAttestation ''equivocation evidence applied'')))
                | None \<Rightarrow>
                    if checkpoint_id (ga_env g) (ca_body prev) = checkpoint_id (ga_env g) (ca_body att)
                    then (s, bind_result (wrap_err StateFailure (load_certificate s (cb_block_hash (ca_body att)))) (\<lambda>found.
                             ok_or found (InvalidAttestation ''missing certificate for replay'')))
                    else fresh)))"


section \<open>Runs of the gadget\<close>

text \<open>
  A run starts without attestations and interleaves attestations, proof-of-work notes and changes of the ledger, each
  with its own view of the chain. The log is a ghost: it lists the signatures that were counted, as set, validator, epoch
  and block.
\<close>

fun finality_key :: "meta_key \<Rightarrow> bool" where
  "finality_key (KCertificate h) = True"
| "finality_key (KAttIndex h) = True"
| "finality_key (KLastAtt x v e) = True"
| "finality_key KFinalizedTip = True"
| "finality_key _ = False"

type_synonym tally = "(native_asset_id \<times> address \<times> u64 \<times> hash) list"

definition tally_attestation ::
    "state_store \<Rightarrow> checkpoint_attestation \<Rightarrow> admit_error + finality_certificate \<Rightarrow> tally \<Rightarrow> tally" where
  "tally_attestation s att r log =
     (let x = ca_set att; v = ca_validator att; e = cb_validator_epoch (ca_body att)
      in if get_cf s (KLastAtt x v e) = None \<and> \<not> isl r then (x, v, e, cb_block_hash (ca_body att)) # log else log)"

inductive gadget_run :: "state_store \<Rightarrow> tally \<Rightarrow> bool" where
  start: "\<forall>k. finality_key k \<longrightarrow> get_cf s k = None \<Longrightarrow> gadget_run s []"
| attest: "gadget_run s log \<Longrightarrow> admit_attestation g s att = (s', r) \<Longrightarrow> gadget_run s' (tally_attestation s att r log)"
| note_pow: "gadget_run s log \<Longrightarrow> note_pow_on_virtual_tip g s tip = Ok s' \<Longrightarrow> gadget_run s' log"
| ledger: "gadget_run s log \<Longrightarrow> \<forall>k. finality_key k \<longrightarrow> get_cf s' k = get_cf s k \<Longrightarrow> gadget_run s' log"

definition last_keyed :: "state_store \<Rightarrow> bool" where
  "last_keyed s \<longleftrightarrow> (\<forall>x v e w. get_cf s (KLastAtt x v e) = Some w \<longrightarrow>
     (\<exists>att. w = VAttestation att \<and> ca_set att = x \<and> ca_validator att = v \<and> cb_validator_epoch (ca_body att) = e))"

lemma evidence_keys:
  assumes "apply_evidence s ev pol = Ok (b, slash)" and "finality_key k"
  shows "get_cf (apply_batch b s) k = get_cf s k"
proof -
  from assms(1) obtain r n where "b = put_validator_into (ve_set ev) r \<or>
      b = put_validator_into (ve_set ev) r @ put_reward_pool_into (ve_set ev) n"
    by (auto simp: apply_evidence_def credit_reward_pool_into_def Let_def split: prod.splits if_splits)
      (metis surj_pair)+
  with assms(2) show ?thesis by (cases k) (auto simp: put_validator_into_def put_reward_pool_into_def)
qed

lemma count_attestation_Ok:
  assumes "count_attestation g s att = Ok (s', cert)"
  obtains idx where "load_attestation_index s (cb_block_hash (ca_body att)) = Ok idx"
    and "s' = apply_batch (put_attestation_index_into (cb_block_hash (ca_body att)) (index_insert (ca_set att) (ca_validator att) idx)
           @ put_last_attestation_into att @ put_certificate_into cert) s"
    and "cb_block_hash (fc_body cert) = cb_block_hash (ca_body att)"
  using assms by (auto simp: count_attestation_def checkpoint_body_for_def note_signed_stake_def refresh_certificate_def Let_def
      split: if_splits)

text \<open>An attestation is counted, or it leaves every attestation index as it is.\<close>

lemma admit_attestation_cases:
  assumes "admit_attestation g s att = (s', r)" and "last_keyed s"
  defines "k \<equiv> KLastAtt (ca_set att) (ca_validator att) (cb_validator_epoch (ca_body att))"
  obtains (counted) cert where "get_cf s k = None" "r = Ok cert" "count_attestation g s att = Ok (s', cert)" "ca_set att \<noteq> TLT"
  | (unchanged) "s' = s" "get_cf s k \<noteq> None \<or> isl r"
  | (slashed) b where "get_cf s k \<noteq> None" "\<forall>k. finality_key k \<longrightarrow> get_cf (apply_batch b s) k = get_cf s k"
      "s' = apply_batch (b @ put_last_attestation_into att) s"
proof -
  consider "s' = s" "isl r"
    | "load_last_attestation s (ca_set att) (ca_validator att) (cb_validator_epoch (ca_body att)) = Ok None"
      "ca_set att \<noteq> TLT" "(s', r) = (case count_attestation g s att of Inl e \<Rightarrow> (s, Err e) | Inr (s', cert) \<Rightarrow> (s', Ok cert))"
    | prev where "load_last_attestation s (ca_set att) (ca_validator att) (cb_validator_epoch (ca_body att)) = Ok (Some prev)"
    using assms(1) by (auto simp: admit_attestation_def Let_def split: if_splits sum.splits option.splits bool.splits)
  then show thesis
  proof cases
    case 1
    then show ?thesis by (rule unchanged [OF _ disjI2])
  next
    case 2
    then have "get_cf s k = None" by (auto simp: load_last_attestation_def k_def split: option.splits)
    with 2 show ?thesis
      by (cases "count_attestation g s att") (auto intro: counted unchanged split: prod.splits)
  next
    case 3
    then obtain w where w: "get_cf s k = Some w" "as_attestation w = Some prev"
      by (auto simp: load_last_attestation_def k_def split: option.splits)
    with assms(2) have prev: "ca_set prev = ca_set att" "ca_validator prev = ca_validator att"
      "cb_validator_epoch (ca_body prev) = cb_validator_epoch (ca_body att)" by (force simp: last_keyed_def k_def)+
    show ?thesis
    proof (cases "s' = s")
      case True
      with w show ?thesis by (intro unchanged) auto
    next
      case False
      with assms(1) 3 prev obtain ev b slash where "apply_evidence s ev default_slash_policy = Ok (b, slash)"
        "s' = apply_batch (b @ put_last_attestation_into att) s"
        by (auto simp: admit_attestation_def Let_def detect_double_checkpoint_def
            split: if_splits sum.splits option.splits bool.splits prod.splits)
      with w show ?thesis by (intro slashed [of b]) (auto dest: evidence_keys)
    qed
  qed
qed


text \<open>What a run keeps: one counted signature per set, validator and epoch, and indexes that list the counted ones.\<close>

definition counted_for :: "tally \<Rightarrow> native_asset_id \<Rightarrow> hash \<Rightarrow> address set" where
  "counted_for log x h = {v. \<exists>e. (x, v, e, h) \<in> set log}"

definition tally_inv :: "state_store \<Rightarrow> tally \<Rightarrow> bool" where
  "tally_inv s log \<longleftrightarrow> last_keyed s
     \<and> distinct (map (\<lambda>(x, v, e, h). (x, v, e)) log)
     \<and> (\<forall>x v e h. (x, v, e, h) \<in> set log \<longrightarrow> get_cf s (KLastAtt x v e) \<noteq> None)
     \<and> (\<forall>h. \<exists>idx. load_attestation_index s h = Ok idx
          \<and> (\<forall>x. distinct (signers idx x) \<and> (x \<noteq> TLT \<longrightarrow> set (signers idx x) = counted_for log x h)))"

lemma signers_insert:
  "set (signers (index_insert x v idx) y) = (if y = x \<and> x \<noteq> TLT then insert v (set (signers idx y)) else set (signers idx y))"
  "distinct (signers idx y) \<Longrightarrow> distinct (signers (index_insert x v idx) y)"
  by (cases x; cases y; auto simp: insert_signer_def)+

lemma signers_default [simp]: "signers default_attestation_index x = []"
  by (cases x) (simp_all add: default_attestation_index_def)

lemma tally_inv_cong:
  assumes "\<And>x v e. get_cf s' (KLastAtt x v e) = get_cf s (KLastAtt x v e)" and "\<And>h. get_cf s' (KAttIndex h) = get_cf s (KAttIndex h)"
  shows "tally_inv s' log = tally_inv s log"
  using assms by (simp add: tally_inv_def last_keyed_def load_attestation_index_def)

lemma tally_inv_index:
  assumes "tally_inv s log" and "load_attestation_index s h = Ok idx"
  shows "distinct (signers idx x)" and "x \<noteq> TLT \<Longrightarrow> set (signers idx x) = counted_for log x h"
proof -
  from assms(1) obtain i where "load_attestation_index s h = Ok i"
    "\<forall>x. distinct (signers i x) \<and> (x \<noteq> TLT \<longrightarrow> set (signers i x) = counted_for log x h)"
    unfolding tally_inv_def by blast
  with assms(2) show "distinct (signers idx x)" "x \<noteq> TLT \<Longrightarrow> set (signers idx x) = counted_for log x h" by simp_all
qed

lemma put_certificate_keys:
  "get_cf (apply_batch (put_certificate_into cert) s) (KLastAtt x v e) = get_cf s (KLastAtt x v e)"
  "get_cf (apply_batch (put_certificate_into cert) s) (KAttIndex h) = get_cf s (KAttIndex h)"
  by (auto simp: put_certificate_into_def)

lemma tally_inv_count:
  assumes inv: "tally_inv s log" and run: "count_attestation g s att = Ok (s', cert)" and "ca_set att \<noteq> TLT"
    and fresh: "get_cf s (KLastAtt (ca_set att) (ca_validator att) (cb_validator_epoch (ca_body att))) = None"
  shows "tally_inv s' ((ca_set att, ca_validator att, cb_validator_epoch (ca_body att), cb_block_hash (ca_body att)) # log)"
proof -
  let ?h = "cb_block_hash (ca_body att)" and ?x = "ca_set att" and ?v = "ca_validator att" and ?e = "cb_validator_epoch (ca_body att)"
  obtain idx where idx: "load_attestation_index s ?h = Ok idx"
    and s': "s' = apply_batch (put_attestation_index_into ?h (index_insert ?x ?v idx)
           @ put_last_attestation_into att @ put_certificate_into cert) s"
    by (rule count_attestation_Ok [OF run])
  have last: "get_cf s' (KLastAtt x v e) = (if (x, v, e) = (?x, ?v, ?e) then Some (VAttestation att) else get_cf s (KLastAtt x v e))"
    for x v e by (auto simp: s' put_certificate_keys put_attestation_index_into_def put_last_attestation_into_def)
  have index: "load_attestation_index s' h = (if h = ?h then Ok (index_insert ?x ?v idx) else load_attestation_index s h)" for h
    by (auto simp: load_attestation_index_def s' put_certificate_keys put_attestation_index_into_def put_last_attestation_into_def
        decode_as_def)
  have "(?x, ?v, ?e) \<notin> set (map (\<lambda>(x, v, e, h). (x, v, e)) log)"
    using inv fresh unfolding tally_inv_def by (auto split: prod.splits) (metis option.distinct(1))
  moreover have "last_keyed s'" using inv by (auto simp: tally_inv_def last_keyed_def last)
  moreover have "\<exists>i. load_attestation_index s' h = Ok i
      \<and> (\<forall>x. distinct (signers i x) \<and> (x \<noteq> TLT \<longrightarrow> set (signers i x) = counted_for ((?x, ?v, ?e, ?h) # log) x h))" for h
  proof -
    from inv obtain i where i: "load_attestation_index s h = Ok i"
      "\<forall>x. distinct (signers i x) \<and> (x \<noteq> TLT \<longrightarrow> set (signers i x) = counted_for log x h)"
      unfolding tally_inv_def by blast
    have "counted_for ((?x, ?v, ?e, ?h) # log) x h = (if x = ?x \<and> h = ?h then insert ?v (counted_for log x h) else counted_for log x h)" for x
      by (auto simp: counted_for_def)
    then show ?thesis using i idx assms(3) by (auto simp: index signers_insert)
  qed
  ultimately show ?thesis using inv by (auto simp: tally_inv_def last)
qed

lemma gadget_run_inv: "gadget_run s log \<Longrightarrow> tally_inv s log"
proof (induction rule: gadget_run.induct)
  case (start s)
  then show ?case
    by (simp add: tally_inv_def last_keyed_def load_attestation_index_def signers_default counted_for_def)
next
  case (attest s log g att s' r)
  then have keyed: "last_keyed s" by (simp add: tally_inv_def)
  from attest(2) keyed show ?case
  proof (cases rule: admit_attestation_cases)
    case (counted cert)
    then show ?thesis using tally_inv_count [OF attest.IH counted(3,4,1)] by (simp add: tally_attestation_def Let_def)
  next
    case unchanged
    then show ?thesis using attest.IH by (auto simp: tally_attestation_def Let_def)
  next
    case (slashed b)
    have "tally_inv (apply_batch b s) log" using attest.IH slashed(2) by (subst tally_inv_cong) simp_all
    then have "tally_inv s' log"
      by (auto simp: slashed(3) tally_inv_def last_keyed_def put_last_attestation_into_def load_attestation_index_def)
    then show ?thesis using slashed(1) by (auto simp: tally_attestation_def Let_def)
  qed
next
  case (note_pow s log g tip s')
  then have "s' = s \<or> (\<exists>cert. s' = apply_batch (put_certificate_into cert) s)"
    by (auto simp: note_pow_on_virtual_tip_def Let_def split: option.splits if_splits)
  then show ?case
  proof (elim disjE exE)
    fix cert assume "s' = apply_batch (put_certificate_into cert) s"
    with note_pow.IH show ?thesis by (subst tally_inv_cong) (simp_all add: put_certificate_keys)
  qed (use note_pow.IH in simp)
next
  case (ledger s log s')
  then show ?case by (subst tally_inv_cong) simp_all
qed


section \<open>Quorums of one snapshot\<close>

interpretation snapshot_voters: weighted_voters "UNIV :: address set" "\<lambda>v. unat (power_of snap v)"
  for snap by unfold_locales simp

lemma snapshot_power:
  assumes "build_snapshot s x e = Ok snap" and "wf_store s" and "keyed_validators s x"
  shows "power_of snap v = effective_power s x e v"
proof -
  note spec = snapshot_spec [OF assms]
  show ?thesis
  proof (cases "map_of (vs_validators snap) v")
    case None
    then have "(v, effective_power s x e v) \<notin> set (vs_validators snap)" by (metis map_of_eq_None_iff fst_conv image_eqI)
    then show ?thesis using None by (simp add: power_of_def spec(1) word_gt_0)
  next
    case (Some p)
    then show ?thesis using map_of_SomeD [OF Some] by (simp add: power_of_def spec(1))
  qed
qed

lemma signed_stake_sum:
  assumes "distinct vs" and "(\<Sum>v\<in>UNIV. unat (power_of snap v)) < 2 ^ 64"
  shows "unat (signed_stake_for snap vs) = (\<Sum>v\<in>set vs. unat (power_of snap v))"
proof -
  have "unat (fold (\<lambda>a t. saturating_add t (power_of snap a)) vs t) = unat t + (\<Sum>v\<in>set vs. unat (power_of snap v))"
    if "distinct vs" "unat t + (\<Sum>v\<in>set vs. unat (power_of snap v)) < 2 ^ 64" for t
    using that by (induction vs arbitrary: t) (auto simp: unat_saturating_add)
  moreover have "(\<Sum>v\<in>set vs. unat (power_of snap v)) \<le> (\<Sum>v\<in>UNIV. unat (power_of snap v))" by (rule sum_mono2) auto
  ultimately show ?thesis using assms by (simp add: signed_stake_for_def)
qed

section \<open>Properties of the gadget over a run\<close>

text \<open>
  Property C38. In every run of the gadget a validator's signature is counted at most once per validator set and epoch,
  and the signers listed for a block, each once, are exactly the validators counted for it. This holds whatever
  attestations arrive and however they interleave with proof-of-work notes and changes of the ledger.
\<close>

theorem validator_counted_once_per_epoch:
  assumes "gadget_run s log"
  shows "distinct (map (\<lambda>(x, v, e, h). (x, v, e)) log)
    \<and> (\<forall>h. \<exists>idx. load_attestation_index s h = Ok idx \<and> (\<forall>x \<in> {OVL, DRC}.
         distinct (signers idx x) \<and> set (signers idx x) = counted_for log x h))"
proof (intro conjI allI)
  note inv = gadget_run_inv [OF assms]
  show "distinct (map (\<lambda>(x, v, e, h). (x, v, e)) log)" using inv by (simp add: tally_inv_def)
  fix h
  from inv obtain idx where "load_attestation_index s h = Ok idx" unfolding tally_inv_def by blast
  with tally_inv_index [OF inv this] show "\<exists>idx. load_attestation_index s h = Ok idx \<and> (\<forall>x \<in> {OVL, DRC}.
         distinct (signers idx x) \<and> set (signers idx x) = counted_for log x h)"
    by (intro exI [of _ idx] conjI ballI) (auto simp del: signers.simps)
qed

text \<open>
  Property C39. Two blocks whose listed signers all signed in the same epoch cannot both hold two thirds of the stake of
  one snapshot of that epoch: the two signer sets would share a validator that was counted twice.
\<close>

theorem one_quorum_per_epoch:
  assumes run: "gadget_run s log" and "x \<noteq> TLT"
    and snap: "build_snapshot s x e = Ok snap" "wf_store s" "keyed_validators s x" "active_stake s x e < 2 ^ 64"
    and idx: "load_attestation_index s h = Ok i" "load_attestation_index s h' = Ok i'"
    and fresh: "\<forall>v \<in> set (signers i x). (x, v, e, h) \<in> set log" "\<forall>v \<in> set (signers i' x). (x, v, e, h') \<in> set log"
    and quorum: "has_two_thirds_quorum (signed_stake_for snap (signers i x)) (vs_total_active_stake snap)"
      "has_two_thirds_quorum (signed_stake_for snap (signers i' x)) (vs_total_active_stake snap)"
  shows "h = h'"
proof (rule ccontr)
  assume "h \<noteq> h'"
  have inv: "tally_inv s log" by (rule gadget_run_inv [OF run])
  have "distinct (signers i x)" "distinct (signers i' x)" using tally_inv_index(1) [OF inv] idx by auto
  have once: "distinct (map (\<lambda>(x, v, e, h). (x, v, e)) log)" using inv by (simp add: tally_inv_def)
  have disj: "set (signers i x) \<inter> set (signers i' x) = {}"
  proof (intro equals0I)
    fix v assume "v \<in> set (signers i x) \<inter> set (signers i' x)"
    then have "(x, v, e, h) \<in> set log" "(x, v, e, h') \<in> set log" using fresh by auto
    with once \<open>h \<noteq> h'\<close> show False by (force simp: distinct_map inj_on_def)
  qed
  let ?w = "\<lambda>v. unat (power_of snap v)"
  have tot: "sum ?w UNIV = active_stake s x e" by (simp add: active_stake_def snapshot_power [OF snap(1-3)])
  then have total: "unat (vs_total_active_stake snap) = sum ?w UNIV" using snapshot_total(2) [OF snap(1-3)] snap(4) by simp
  have "unat (signed_stake_for snap (signers i x)) = sum ?w (set (signers i x))"
    "unat (signed_stake_for snap (signers i' x)) = sum ?w (set (signers i' x))"
    using signed_stake_sum tot snap(4) \<open>distinct (signers i x)\<close> \<open>distinct (signers i' x)\<close> by simp_all
  with quorum total have "2 * sum ?w UNIV \<le> 3 * sum ?w (set (signers i x))" "2 * sum ?w UNIV \<le> 3 * sum ?w (set (signers i' x))"
    "0 < sum ?w UNIV" by (simp_all add: quorum_iff)
  with snapshot_voters.quorum_intersection [of "set (signers i x)" "set (signers i' x)" snap] disj show False by simp
qed


section \<open>Concrete runs\<close>

text \<open>
  Validators with equal stake in both sets. The chain is the one of \<open>Chain_Reorg\<close>: blocks 2 and 3 are siblings
  with blue score 2 and block 4 merges them.
\<close>

definition sum_env :: crypto_env where
  "sum_env = \<lparr>borsh_to_vec = (\<lambda>vs. []),
     hash_borsh = (\<lambda>vs. fold (\<lambda>v acc. 1000 * acc + (case v of BHash h \<Rightarrow> h | BU64 n \<Rightarrow> ucast n | _ \<Rightarrow> 0)) vs 0),
     secp_verify = (\<lambda>pk msg sig. sig = replicate 64 (hd pk)), address_from_pubkey = (\<lambda>pk. ucast (hd pk))\<rparr>"

definition demo_gadget :: gadget where
  "demo_gadget = \<lparr>ga_env = sum_env, ga_auth = None, ga_genesis = 1, ga_policy_hash = 0, ga_pow = default_pow_policy,
     ga_blue_score = [1 \<mapsto> 1, 2 \<mapsto> 2, 3 \<mapsto> 2, 4 \<mapsto> 4],
     ga_state_root = (\<lambda>s _. Ok (case stored as_account s (KAccount OVL 1) of Some a \<Rightarrow> ucast (balance a) | None \<Rightarrow> 0))\<rparr>"

lemma demo_gadget_scores:
  "list_all (\<lambda>h. ga_blue_score demo_gadget h = blue_score (ch_ghostdag demo_chain) h) [1, 2, 3, 4]"
  by code_simp

definition voter :: "u8 \<Rightarrow> validator_record" where
  "voter v = \<lparr>vr_operator = ucast v, vr_consensus_pubkey = replicate 33 v, vr_withdrawal = ucast v, vr_self_bond = 100,
     vr_delegated = 0, vr_commission_bps = 0, vr_status = Bonded, vr_jailed_until_epoch = 0, vr_metadata_hash = 0\<rparr>"

definition voter_store :: "u8 list \<Rightarrow> state_store" where
  "voter_store vs = concat (map (\<lambda>x. map (\<lambda>v. (KValidator x (ucast v), VValidator (voter v))) vs) [OVL, DRC])"

definition set_epoch :: "u64 \<Rightarrow> state_store \<Rightarrow> state_store" where
  "set_epoch e s = apply_batch (put_epoch_into OVL e @ put_epoch_into DRC e) s"

definition signed_body :: "native_asset_id \<Rightarrow> u8 \<Rightarrow> hash \<Rightarrow> state_store \<Rightarrow> checkpoint_attestation" where
  "signed_body x v h s = \<lparr>ca_body = (case checkpoint_body_of demo_gadget s h of Inr (Some b) \<Rightarrow> b | _ \<Rightarrow> undefined),
     ca_set = x, ca_validator = ucast v, ca_public_key = replicate 33 v, ca_signature = replicate 64 v\<rparr>"

definition vote :: "hash \<Rightarrow> u8 \<Rightarrow> state_store \<Rightarrow> state_store" where
  "vote h v s = fold (\<lambda>x s. fst (admit_attestation demo_gadget s (signed_body x v h s))) [OVL, DRC] s"

definition finalized_at :: "state_store \<Rightarrow> hash \<Rightarrow> bool" where
  "finalized_at s h = (case load_certificate s h of Inr (Some c) \<Rightarrow> is_finalized (fc_state c) | _ \<Rightarrow> False)"

definition all_bonded :: "state_store \<Rightarrow> bool" where
  "all_bonded s = list_all (\<lambda>x. list_all (\<lambda>v. case validator_at s x (ucast v) of
     Some r \<Rightarrow> vr_status r = Bonded \<and> vr_self_bond r = 100 | None \<Rightarrow> False) [7, 8, 9 :: u8]) [OVL, DRC]"


text \<open>
  The finalised score can fall. After block 4 and then the genesis block are finalised, the recorded
  score is that of the genesis block; the guard, which refused a switch from block 4 to block 3, now accepts it.
\<close>

theorem finalized_score_falls:
  "let s1 = vote 4 7 (set_epoch 1 (voter_store [7])); s2 = vote 1 7 (set_epoch 2 s1)
   in load_finalized_blue_score s1 = Some 4 \<and> load_finalized_blue_score s2 = Some 1 \<and> finalized_at s2 4
      \<and> isl (guard_reorg_vs_finality demo_chain (load_finalized_blue_score s1) 4 3)
      \<and> guard_reorg_vs_finality demo_chain (load_finalized_blue_score s2) 4 3 = Ok ()"
  by code_simp

text \<open>
  Signing the same block again is punished as equivocation. A validator signs the body the node computes for
  block 2; the ledger changes, and with it the state root of the body the node computes for the same block and epoch;
  when the validator signs that body it loses stake and is tombstoned.
\<close>

theorem resigning_same_block_is_slashed:
  "let s = vote 2 7 (set_epoch 1 (voter_store [7]));
       s' = apply_batch [Put (KAccount OVL 1) (VAccount \<lparr>balance = 5, nonce = 0\<rparr>)] s;
       (s'', r) = admit_attestation demo_gadget s' (signed_body OVL 7 2 s')
   in cb_block_hash (ca_body (signed_body OVL 7 2 s')) = 2
      \<and> r = Err (InvalidAttestation ''equivocation evidence applied'')
      \<and> (case validator_at s'' OVL 7 of Some v \<Rightarrow> vr_status v = Tombstoned \<and> vr_self_bond v = 95 | None \<Rightarrow> False)"
  by code_simp


definition one_vote :: checkpoint_attestation where
  "one_vote = signed_body OVL 7 2 (set_epoch 1 (voter_store [7]))"

lemma one_vote_run:
  "gadget_run (fst (admit_attestation demo_gadget (set_epoch 1 (voter_store [7])) one_vote)) [(OVL, 7, 1, 2)]"
proof -
  let ?s = "set_epoch 1 (voter_store [7])"
  have "\<forall>k. finality_key k \<longrightarrow> get_cf ?s k = None"
    by (auto simp: set_epoch_def put_epoch_into_def voter_store_def get_cf_def elim: finality_key.elims)
  from gadget_run.attest [OF gadget_run.start [OF this], of demo_gadget one_vote]
  have "gadget_run (fst (admit_attestation demo_gadget ?s one_vote))
     (tally_attestation ?s one_vote (snd (admit_attestation demo_gadget ?s one_vote)) [])" by simp
  moreover have "tally_attestation ?s one_vote (snd (admit_attestation demo_gadget ?s one_vote)) [] = [(OVL, 7, 1, 2)]"
    by code_simp
  ultimately show ?thesis by simp
qed

theorem validator_counted_once_per_epoch_witness:
  "\<exists>idx. load_attestation_index (fst (admit_attestation demo_gadget (set_epoch 1 (voter_store [7])) one_vote)) 2 = Ok idx
     \<and> set (signers idx OVL) = {7}"
  using validator_counted_once_per_epoch [OF one_vote_run] by (force simp: counted_for_def)

definition voted_store :: state_store where
  "voted_store = fst (admit_attestation demo_gadget (set_epoch 1 (voter_store [7])) one_vote)"

lemma voted_store_checks:
  "case (build_snapshot voted_store OVL 1, load_attestation_index voted_store 2) of
     (Inr snap, Inr i) \<Rightarrow> signers i OVL = [7]
       \<and> has_two_thirds_quorum (signed_stake_for snap (signers i OVL)) (vs_total_active_stake snap) | _ \<Rightarrow> False"
  "wf_store voted_store"
  "list_all (\<lambda>(k, v). case (k, v) of (KValidator x a, VValidator r) \<Rightarrow> vr_operator r = a \<and> a = 7 | _ \<Rightarrow> True) voted_store"
  by code_simp+

lemma voted_store_validators:
  "keyed_validators voted_store OVL" "active_stake voted_store OVL 1 < 2 ^ 64"
proof -
  have only: "vr_operator r = a \<and> a = 7" if "validator_at voted_store OVL a = Some r" for a r
  proof -
    from that have "map_of voted_store (KValidator OVL a) = Some (VValidator r)"
      by (auto simp: validator_at_def stored_def get_cf_def bind_eq_Some_conv elim: as_validator.elims)
    from map_of_SomeD [OF this] voted_store_checks(3) show ?thesis by (auto simp: list_all_iff)
  qed
  then show "keyed_validators voted_store OVL" by (auto simp: keyed_validators_def)
  have "effective_power voted_store OVL 1 a = 0" if "a \<noteq> 7" for a
    using only [of a] that by (auto simp: effective_power_def split: option.split)
  then have "active_stake voted_store OVL 1 = unat (effective_power voted_store OVL 1 7)"
    unfolding active_stake_def by (subst sum.remove [of _ "7"]) auto
  then show "active_stake voted_store OVL 1 < 2 ^ 64" using unsigned_less [of "effective_power voted_store OVL 1 7"] by simp
qed

theorem one_quorum_per_epoch_witness:
  "\<exists>log snap i. gadget_run voted_store log \<and> build_snapshot voted_store OVL 1 = Ok snap \<and> load_attestation_index voted_store 2 = Ok i
     \<and> has_two_thirds_quorum (signed_stake_for snap (signers i OVL)) (vs_total_active_stake snap) \<and> (2 :: hash) = 2"
proof -
  obtain snap i where c: "build_snapshot voted_store OVL 1 = Ok snap" "load_attestation_index voted_store 2 = Ok i"
    "signers i OVL = [7]" "has_two_thirds_quorum (signed_stake_for snap (signers i OVL)) (vs_total_active_stake snap)"
    using voted_store_checks(1) by (auto split: sum.splits)
  have run: "gadget_run voted_store [(OVL, 7, 1, 2)]" using one_vote_run by (simp add: voted_store_def)
  have "(2 :: hash) = 2"
    by (rule one_quorum_per_epoch [OF run _ c(1) voted_store_checks(2) voted_store_validators c(2) c(2) _ _ c(4) c(4)])
      (use c(3) in auto)
  then show ?thesis using run c by blast
qed

end
