(* ===== verification/Tlt_Script.thy ===== *)
theory Tlt_Script
  imports Utxo Meta_Keys "HOL-Library.Sublist"
begin

text \<open>
  The covenant script language of the TLT lane (\<open>types/src/tlt_script.rs\<close>): covenant transactions, the standard
  programs, the data push encoding, the interpreter with its limits, the timelock rules and the evaluation of an input.

  The theorems say by which script signatures the standard programs can be spent: a key hash, a hash time lock and
  a threshold of keys are exact; two more show limits at which a standard program can no longer be spent.

  SHA-256 and the signature check are fields of \<open>script_env\<close>. Stacks are lists with the top first, so the vector of the
  code is their reverse; the list of open conditionals has the innermost first. A program position is the
  rest of the program.
\<close>

section \<open>Limits, flags and opcodes\<close>

definition TLT_COVENANT_TX_VERSION :: u32 where "TLT_COVENANT_TX_VERSION = 2"
definition TLT_MAX_SCRIPT_LEN :: nat where "TLT_MAX_SCRIPT_LEN = 512"
definition TLT_MAX_STACK :: nat where "TLT_MAX_STACK = 32"
definition TLT_MAX_OPS :: nat where "TLT_MAX_OPS = 64"
definition TLT_MAX_PUSH :: nat where "TLT_MAX_PUSH = 80"
definition TLT_MAX_MULTISIG :: nat where "TLT_MAX_MULTISIG = 15"
definition TLT_MAX_IF_DEPTH :: nat where "TLT_MAX_IF_DEPTH = 8"
definition TLT_SEQUENCE_FINAL :: u32 where "TLT_SEQUENCE_FINAL = 0xFFFFFFFF"
definition TLT_CSV_TIME_STEP_SECS :: u64 where "TLT_CSV_TIME_STEP_SECS = 512"
definition TLT_LOCKTIME_TIME_THRESHOLD :: u64 where "TLT_LOCKTIME_TIME_THRESHOLD = 500000000"

abbreviation OP_0 :: u8 where "OP_0 \<equiv> 0x00"
abbreviation OP_PUSH :: u8 where "OP_PUSH \<equiv> 0x01"
abbreviation OP_1 :: u8 where "OP_1 \<equiv> 0x51"
abbreviation OP_16 :: u8 where "OP_16 \<equiv> 0x60"
abbreviation OP_NOP :: u8 where "OP_NOP \<equiv> 0x61"
abbreviation OP_IF :: u8 where "OP_IF \<equiv> 0x63"
abbreviation OP_ELSE :: u8 where "OP_ELSE \<equiv> 0x67"
abbreviation OP_ENDIF :: u8 where "OP_ENDIF \<equiv> 0x68"
abbreviation OP_VERIFY :: u8 where "OP_VERIFY \<equiv> 0x69"
abbreviation OP_RETURN :: u8 where "OP_RETURN \<equiv> 0x6a"
abbreviation OP_DROP :: u8 where "OP_DROP \<equiv> 0x75"
abbreviation OP_DUP :: u8 where "OP_DUP \<equiv> 0x76"
abbreviation OP_EQUAL :: u8 where "OP_EQUAL \<equiv> 0x87"
abbreviation OP_EQUALVERIFY :: u8 where "OP_EQUALVERIFY \<equiv> 0x88"
abbreviation OP_SHA256 :: u8 where "OP_SHA256 \<equiv> 0xa8"
abbreviation OP_PUBKEYHASH :: u8 where "OP_PUBKEYHASH \<equiv> 0xa9"
abbreviation OP_CHECKSIG :: u8 where "OP_CHECKSIG \<equiv> 0xac"
abbreviation OP_CHECKMULTISIG :: u8 where "OP_CHECKMULTISIG \<equiv> 0xae"
abbreviation OP_CHECKLOCKTIMEVERIFY :: u8 where "OP_CHECKLOCKTIMEVERIFY \<equiv> 0xb1"
abbreviation OP_CHECKSEQUENCEVERIFY :: u8 where "OP_CHECKSEQUENCEVERIFY \<equiv> 0xb2"

definition sequence_signals_rbf :: "u32 \<Rightarrow> bool" where
  "sequence_signals_rbf s \<longleftrightarrow> s < TLT_SEQUENCE_FINAL"

datatype tlt_script_error =
    ScriptTooLarge
  | TooManyOps
  | StackOverflow
  | StackUnderflow
  | InvalidPush
  | VerifyFailed
  | UnbalancedIf
  | OpReturn
  | InvalidNumber
  | LocktimeTypeMismatch
  | LocktimeNotMet
  | SequenceDisabled
  | SequenceTypeMismatch
  | SequenceNotMet
  | InvalidMultisig
  | UnknownOpcode u8
  | BadVersion
  | BadInput
  | P2shNotPushOnly
  | EmptyScript

type_synonym 'a script_res = "tlt_script_error + 'a"
type_synonym stack = "bytes list"

section \<open>Covenant transactions\<close>

record tlt_output_origin =
  og_blue_score :: u64
  og_median_time_secs :: u64

record tlt_spend_context =
  sc_sighash_preimage :: bytes
  sc_lock_time :: u64
  sc_sequence :: u32
  sc_spend_blue_score :: u64
  sc_median_time_past_secs :: u64
  sc_origin :: tlt_output_origin

record tlt_covenant_input =
  ci_previous_outpoint :: out_point
  ci_sequence :: u32
  ci_script_sig :: bytes

record tlt_covenant_output =
  co_value :: amount
  co_script_pubkey :: bytes

record tlt_covenant_tx =
  cv_version :: u32
  cv_inputs :: "tlt_covenant_input list"
  cv_outputs :: "tlt_covenant_output list"
  cv_lock_time :: u64
  cv_nonce :: u64

definition outpoint_val :: "out_point \<Rightarrow> borsh_val" where
  "outpoint_val op = BList [BHash (op_tx_id op), BU32 (op_index op)]"

definition covenant_tx_id :: "crypto_env \<Rightarrow> tlt_covenant_tx \<Rightarrow> hash" where
  "covenant_tx_id env tx =
     hash_borsh env [BStr ''agora-tlt-covenant-v1'', BU32 (cv_version tx),
       BList (map (\<lambda>i. BList [outpoint_val (ci_previous_outpoint i), BU32 (ci_sequence i), BBytes (ci_script_sig i)]) (cv_inputs tx)),
       BList (map (\<lambda>out. BList [BU64 (co_value out), BBytes (co_script_pubkey out)]) (cv_outputs tx)),
       BU64 (cv_lock_time tx), BU64 (cv_nonce tx)]"

definition sighash_preimage :: "crypto_env \<Rightarrow> tlt_covenant_tx \<Rightarrow> bytes" where
  "sighash_preimage env tx =
     borsh_to_vec env [BStr ''agora-tlt-covenant-sighash-v1'', BU32 (cv_version tx),
       BList (map (\<lambda>i. BList [outpoint_val (ci_previous_outpoint i), BU32 (ci_sequence i)]) (cv_inputs tx)),
       BList (map (\<lambda>out. BList [BU64 (co_value out), BBytes (co_script_pubkey out)]) (cv_outputs tx)),
       BU64 (cv_lock_time tx), BU64 (cv_nonce tx)]"

definition sighash_preimage_bound :: "crypto_env \<Rightarrow> tlt_covenant_tx \<Rightarrow> string \<Rightarrow> hash \<Rightarrow> bytes" where
  "sighash_preimage_bound env tx chain gen =
     borsh_to_vec env [BStr ''agora-tlt-covenant-sighash-bound-v1'', BStr chain, BHash gen, BBytes (sighash_preimage env tx)]"

definition locktime_is_ignored :: "tlt_covenant_tx \<Rightarrow> bool" where
  "locktime_is_ignored tx = list_all (\<lambda>i. ci_sequence i = TLT_SEQUENCE_FINAL) (cv_inputs tx)"

definition covenant_locktime_satisfied :: "tlt_covenant_tx \<Rightarrow> u64 \<Rightarrow> u64 \<Rightarrow> unit script_res" where
  "covenant_locktime_satisfied tx spend_blue_score median_time_past_secs =
     (if locktime_is_ignored tx then Ok ()
      else if cv_lock_time tx < TLT_LOCKTIME_TIME_THRESHOLD
      then if spend_blue_score < cv_lock_time tx then Err LocktimeNotMet else Ok ()
      else if median_time_past_secs < cv_lock_time tx then Err LocktimeNotMet else Ok ())"

section \<open>Standard programs\<close>

definition push_data :: "bytes \<Rightarrow> bytes script_res" where
  "push_data data =
     (if data = [] then Ok [OP_0]
      else if length data = 1 \<and> 1 \<le> hd data \<and> hd data \<le> 16 then Ok [OP_1 + hd data - 1]
      else if TLT_MAX_PUSH < length data then Err InvalidPush
      else Ok (OP_PUSH # of_nat (length data) # data))"

text \<open>Pushes of fixed length that the code unwraps with \<open>expect\<close>.\<close>

definition push_fixed :: "bytes \<Rightarrow> bytes" where
  "push_fixed data = OP_PUSH # of_nat (length data) # data"

definition script_p2pkh :: "address \<Rightarrow> bytes" where
  "script_p2pkh a = [OP_DUP, OP_PUBKEYHASH] @ push_fixed (address_bytes a) @ [OP_EQUALVERIFY, OP_CHECKSIG]"

definition of_be_bytes :: "bytes \<Rightarrow> 'a::len word" where
  "of_be_bytes bs = foldl (\<lambda>acc b. 256 * acc + ucast b) 0 bs"

definition p2pkh_address :: "bytes \<Rightarrow> address option" where
  "p2pkh_address script =
     (if length script \<noteq> 26 \<or> script ! 0 \<noteq> OP_DUP \<or> script ! 1 \<noteq> OP_PUBKEYHASH \<or> script ! 2 \<noteq> OP_PUSH \<or> script ! 3 \<noteq> 20
         \<or> script ! 24 \<noteq> OP_EQUALVERIFY \<or> script ! 25 \<noteq> OP_CHECKSIG
      then None else Some (of_be_bytes (take 20 (drop 4 script))))"

record script_env =
  se_sha256 :: "bytes \<Rightarrow> hash"
  se_check_sig :: "bytes \<Rightarrow> bytes \<Rightarrow> bytes \<Rightarrow> bool"

definition script_p2sh :: "script_env \<Rightarrow> bytes \<Rightarrow> bytes \<times> hash" where
  "script_p2sh env redeem =
     (let digest = se_sha256 env redeem in ([OP_SHA256] @ push_fixed (hash_bytes digest) @ [OP_EQUAL], digest))"

definition is_p2sh_script :: "bytes \<Rightarrow> bool" where
  "is_p2sh_script script \<longleftrightarrow>
     length script = 36 \<and> script ! 0 = OP_SHA256 \<and> script ! 1 = OP_PUSH \<and> script ! 2 = 32 \<and> script ! 35 = OP_EQUAL"

definition push_all :: "bytes list \<Rightarrow> bytes script_res" where
  "push_all ds = fold_result (\<lambda>buf d. bind_result (push_data d) (\<lambda>p. Ok (buf @ p))) [] ds"

definition script_multisig :: "u8 \<Rightarrow> bytes list \<Rightarrow> bytes script_res" where
  "script_multisig m pubkeys =
     (let n = (if length pubkeys < 256 then of_nat (length pubkeys) else 255 :: u8) in
      if m = 0 \<or> n < m \<or> n = 0 \<or> of_nat TLT_MAX_MULTISIG < n then Err InvalidMultisig
      else bind_result (push_all ([m] # pubkeys @ [[n]])) (\<lambda>s. Ok (s @ [OP_CHECKMULTISIG])))"

definition script_htlc :: "hash \<Rightarrow> bytes \<Rightarrow> bytes \<Rightarrow> u64 \<Rightarrow> bytes script_res" where
  "script_htlc hash256 recipient_pubkey refund_pubkey lock_time =
     bind_result (push_data (hash_bytes hash256)) (\<lambda>p_hash.
     bind_result (push_data recipient_pubkey) (\<lambda>p_recipient.
     bind_result (push_data (le_bytes 8 lock_time)) (\<lambda>p_lock.
     bind_result (push_data refund_pubkey) (\<lambda>p_refund.
     Ok ([OP_IF, OP_SHA256] @ p_hash @ [OP_EQUALVERIFY] @ p_recipient @ [OP_CHECKSIG, OP_ELSE] @ p_lock
         @ [OP_CHECKLOCKTIMEVERIFY, OP_DROP] @ p_refund @ [OP_CHECKSIG, OP_ENDIF])))))"

section \<open>Stack and numbers\<close>

definition executing :: "bool list \<Rightarrow> bool" where
  "executing exec = list_all (\<lambda>b. b) exec"

definition is_true :: "bytes \<Rightarrow> bool" where
  "is_true bs = list_ex (\<lambda>b. b \<noteq> 0) bs"

definition bool_item :: "bool \<Rightarrow> bytes" where
  "bool_item v = (if v then [1] else [0])"

definition top_true :: "stack \<Rightarrow> bool" where
  "top_true st = (case st of [] \<Rightarrow> False | t # _ \<Rightarrow> is_true t)"

definition push :: "bytes \<Rightarrow> stack \<Rightarrow> stack script_res" where
  "push x st = (if TLT_MAX_STACK \<le> length st then Err StackOverflow else Ok (x # st))"

definition pop :: "stack \<Rightarrow> (bytes \<times> stack) script_res" where
  "pop st = (case st of [] \<Rightarrow> Err StackUnderflow | t # r \<Rightarrow> Ok (t, r))"

fun le_value :: "bytes \<Rightarrow> u64" where
  "le_value [] = 0"
| "le_value (b # bs) = ucast b + 256 * le_value bs"

definition script_u64 :: "bytes \<Rightarrow> u64 script_res" where
  "script_u64 bs = (if bs = [] \<or> 8 < length bs then Err InvalidNumber else Ok (le_value bs))"

definition script_u32 :: "bytes \<Rightarrow> u32 script_res" where
  "script_u32 bs =
     bind_result (script_u64 bs) (\<lambda>v. if 0xFFFFFFFF < v then Err InvalidNumber else Ok (ucast v))"

definition read_count :: "bytes \<Rightarrow> nat script_res" where
  "read_count bs =
     bind_result (script_u64 bs) (\<lambda>n.
     if n = 0 \<or> of_nat TLT_MAX_MULTISIG < n then Err InvalidMultisig else Ok (unat n))"

fun pop_many :: "nat \<Rightarrow> stack \<Rightarrow> (bytes list \<times> stack) script_res" where
  "pop_many 0 st = Ok ([], st)"
| "pop_many (Suc n) st =
     bind_result (pop st) (\<lambda>(x, st').
     bind_result (pop_many n st') (\<lambda>(xs, st''). Ok (x # xs, st'')))"

section \<open>Checks\<close>

text \<open>The key index only moves forward: each signature is looked for among the keys after the last match.\<close>

fun find_key :: "(bytes \<Rightarrow> bytes \<Rightarrow> bool) \<Rightarrow> bytes \<Rightarrow> bytes list \<Rightarrow> bytes list option" where
  "find_key chk sig [] = None"
| "find_key chk sig (k # ks) = (if chk k sig then Some ks else find_key chk sig ks)"

fun count_matched :: "(bytes \<Rightarrow> bytes \<Rightarrow> bool) \<Rightarrow> bytes list \<Rightarrow> bytes list \<Rightarrow> nat" where
  "count_matched chk keys [] = 0"
| "count_matched chk keys (sig # sigs) =
     (case find_key chk sig keys of None \<Rightarrow> 0 | Some keys' \<Rightarrow> Suc (count_matched chk keys' sigs))"

definition check_multisig :: "script_env \<Rightarrow> tlt_spend_context \<Rightarrow> stack \<Rightarrow> stack script_res" where
  "check_multisig env ctx st =
     bind_result (pop st) (\<lambda>(nb, st1).
     bind_result (read_count nb) (\<lambda>n.
     bind_result (pop_many n st1) (\<lambda>(pubs, st2).
     bind_result (pop st2) (\<lambda>(mb, st3).
     bind_result (read_count mb) (\<lambda>m.
     if m = 0 \<or> n < m then Err InvalidMultisig
     else
     bind_result (pop_many m st3) (\<lambda>(sigs, st4).
     push (bool_item (count_matched (\<lambda>k s. se_check_sig env k s (sc_sighash_preimage ctx)) (rev pubs) (rev sigs) = m)) st4))))))"

definition locktime_is_time :: "u64 \<Rightarrow> bool" where
  "locktime_is_time t \<longleftrightarrow> TLT_LOCKTIME_TIME_THRESHOLD \<le> t"

definition check_locktime :: "stack \<Rightarrow> tlt_spend_context \<Rightarrow> unit script_res" where
  "check_locktime st ctx =
     (if sc_sequence ctx = TLT_SEQUENCE_FINAL then Err LocktimeNotMet
      else
      bind_result (case st of [] \<Rightarrow> Err StackUnderflow | t # _ \<Rightarrow> Ok t) (\<lambda>t.
      bind_result (script_u64 t) (\<lambda>required.
      if locktime_is_time required \<noteq> locktime_is_time (sc_lock_time ctx) then Err LocktimeTypeMismatch
      else if sc_lock_time ctx < required then Err LocktimeNotMet
      else if locktime_is_time (sc_lock_time ctx)
      then if sc_median_time_past_secs ctx < sc_lock_time ctx then Err LocktimeNotMet else Ok ()
      else if sc_spend_blue_score ctx < sc_lock_time ctx then Err LocktimeNotMet else Ok ())))"

definition check_sequence :: "stack \<Rightarrow> tlt_spend_context \<Rightarrow> unit script_res" where
  "check_sequence st ctx =
     bind_result (case st of [] \<Rightarrow> Err StackUnderflow | t # _ \<Rightarrow> Ok t) (\<lambda>t.
     bind_result (script_u32 t) (\<lambda>operand.
     if bit operand 31 then Ok ()
     else if bit (sc_sequence ctx) 31 then Err SequenceDisabled
     else if bit operand 22 \<noteq> bit (sc_sequence ctx) 22 then Err SequenceTypeMismatch
     else
     let required = take_bit 16 operand; offered = take_bit 16 (sc_sequence ctx) in
     if offered < required then Err SequenceNotMet
     else if bit operand 22
     then if saturating_sub (sc_median_time_past_secs ctx) (og_median_time_secs (sc_origin ctx)) div TLT_CSV_TIME_STEP_SECS
             < ucast required
          then Err SequenceNotMet else Ok ()
     else if saturating_sub (sc_spend_blue_score ctx) (og_blue_score (sc_origin ctx)) < ucast required
          then Err SequenceNotMet else Ok ()))"

section \<open>The interpreter\<close>

definition known_opcode :: "u8 \<Rightarrow> bool" where
  "known_opcode op \<longleftrightarrow>
     op \<in> {OP_0, OP_NOP, OP_IF, OP_ELSE, OP_ENDIF, OP_VERIFY, OP_RETURN, OP_DROP, OP_DUP, OP_EQUAL, OP_EQUALVERIFY,
           OP_SHA256, OP_PUBKEYHASH, OP_CHECKSIG, OP_CHECKMULTISIG, OP_CHECKLOCKTIMEVERIFY, OP_CHECKSEQUENCEVERIFY}
     \<or> OP_1 \<le> op \<and> op \<le> OP_16"

text \<open>One opcode other than a data push, on the open conditionals and the stack.\<close>

definition step_op ::
    "script_env \<Rightarrow> tlt_spend_context \<Rightarrow> u8 \<Rightarrow> bool list \<Rightarrow> stack \<Rightarrow> (bool list \<times> stack) script_res" where
  "step_op env ctx op exec st =
     (let keep = (\<lambda>r. bind_result r (\<lambda>st'. Ok (exec, st'))) in
      if \<not> executing exec \<and> op \<noteq> OP_IF \<and> op \<noteq> OP_ELSE \<and> op \<noteq> OP_ENDIF
      then if OP_1 \<le> op \<and> op \<le> OP_16 \<or> op = OP_0 \<or> op = OP_NOP then Ok (exec, st)
           else if \<not> known_opcode op then Err (UnknownOpcode op)
           else Ok (exec, st)
      else if op = OP_0 then keep (push [] st)
      else if OP_1 \<le> op \<and> op \<le> OP_16 then keep (push [op - OP_1 + 1] st)
      else if op = OP_NOP then Ok (exec, st)
      else if op = OP_IF
      then if TLT_MAX_IF_DEPTH \<le> length exec then Err UnbalancedIf
           else if executing exec then bind_result (pop st) (\<lambda>(cond, st'). Ok (is_true cond # exec, st'))
           else Ok (False # exec, st)
      else if op = OP_ELSE
      then (case exec of [] \<Rightarrow> Err UnbalancedIf | b # r \<Rightarrow> Ok ((\<not> b) # r, st))
      else if op = OP_ENDIF
      then (case exec of [] \<Rightarrow> Err UnbalancedIf | _ # r \<Rightarrow> Ok (r, st))
      else if op = OP_VERIFY
      then bind_result (pop st) (\<lambda>(t, st'). if is_true t then Ok (exec, st') else Err VerifyFailed)
      else if op = OP_RETURN then Err OpReturn
      else if op = OP_DROP then bind_result (pop st) (\<lambda>(_, st'). Ok (exec, st'))
      else if op = OP_DUP then (case st of [] \<Rightarrow> Err StackUnderflow | t # _ \<Rightarrow> keep (push t st))
      else if op = OP_EQUAL
      then bind_result (pop st) (\<lambda>(a, st1). bind_result (pop st1) (\<lambda>(b, st2). keep (push (bool_item (a = b)) st2)))
      else if op = OP_EQUALVERIFY
      then bind_result (pop st) (\<lambda>(a, st1). bind_result (pop st1) (\<lambda>(b, st2).
             if a \<noteq> b then Err VerifyFailed else Ok (exec, st2)))
      else if op = OP_SHA256 then bind_result (pop st) (\<lambda>(x, st'). keep (push (hash_bytes (se_sha256 env x)) st'))
      else if op = OP_PUBKEYHASH then bind_result (pop st) (\<lambda>(x, st'). keep (push (take 20 (hash_bytes (se_sha256 env x))) st'))
      else if op = OP_CHECKSIG
      then bind_result (pop st) (\<lambda>(pubkey, st1). bind_result (pop st1) (\<lambda>(sig, st2).
             keep (push (bool_item (se_check_sig env pubkey sig (sc_sighash_preimage ctx))) st2)))
      else if op = OP_CHECKMULTISIG then keep (check_multisig env ctx st)
      else if op = OP_CHECKLOCKTIMEVERIFY then bind_result (check_locktime st ctx) (\<lambda>_. Ok (exec, st))
      else if op = OP_CHECKSEQUENCEVERIFY then bind_result (check_sequence st ctx) (\<lambda>_. Ok (exec, st))
      else Err (UnknownOpcode op))"

function run_from ::
    "script_env \<Rightarrow> tlt_spend_context \<Rightarrow> nat \<Rightarrow> bool list \<Rightarrow> stack \<Rightarrow> bytes \<Rightarrow> stack script_res" where
  "run_from env ctx ops exec st [] = (if exec = [] then Ok st else Err UnbalancedIf)"
| "run_from env ctx ops exec st (op # rest) =
     (if TLT_MAX_OPS < Suc ops then Err TooManyOps
      else if op = OP_PUSH
      then (case rest of
              [] \<Rightarrow> Err InvalidPush
            | l # rest' \<Rightarrow>
                let len = unat l in
                if len = 0 \<or> TLT_MAX_PUSH < len \<or> length rest' < len then Err InvalidPush
                else
                bind_result (if executing exec then push (take len rest') st else Ok st) (\<lambda>st'.
                run_from env ctx (Suc ops) exec st' (drop len rest')))
      else bind_result (step_op env ctx op exec st) (\<lambda>(exec', st'). run_from env ctx (Suc ops) exec' st' rest))"
  by pat_completeness auto
termination by (relation "measure (\<lambda>(_, _, _, _, _, s). length s)") auto

definition run_script :: "script_env \<Rightarrow> tlt_spend_context \<Rightarrow> stack \<Rightarrow> bytes \<Rightarrow> stack script_res" where
  "run_script env ctx st script = run_from env ctx 0 [] st script"

function is_push_only :: "bytes \<Rightarrow> bool script_res" where
  "is_push_only [] = Ok True"
| "is_push_only (op # rest) =
     (if op = OP_0 \<or> OP_1 \<le> op \<and> op \<le> OP_16 then is_push_only rest
      else if op = OP_PUSH
      then (case rest of
              [] \<Rightarrow> Err InvalidPush
            | l # rest' \<Rightarrow>
                if unat l = 0 \<or> TLT_MAX_PUSH < unat l \<or> length rest' < unat l then Err InvalidPush
                else is_push_only (drop (unat l) rest'))
      else Ok False)"
  by pat_completeness auto
termination by (relation "measure length") auto

definition check_len :: "bytes \<Rightarrow> unit script_res" where
  "check_len script = (if TLT_MAX_SCRIPT_LEN < length script then Err ScriptTooLarge else Ok ())"

definition eval_tlt_script :: "script_env \<Rightarrow> bytes \<Rightarrow> bytes \<Rightarrow> tlt_spend_context \<Rightarrow> unit script_res" where
  "eval_tlt_script env script_sig script_pubkey ctx =
     (if script_pubkey = [] then Err EmptyScript
      else
      bind_result (check_len script_sig) (\<lambda>_.
      bind_result (check_len script_pubkey) (\<lambda>_.
      bind_result (run_script env ctx [] script_sig) (\<lambda>st.
      bind_result
        (if is_p2sh_script script_pubkey
         then bind_result (is_push_only script_sig) (\<lambda>only.
              if \<not> only then Err P2shNotPushOnly
              else
              bind_result (case st of [] \<Rightarrow> Err StackUnderflow | t # _ \<Rightarrow> Ok t) (\<lambda>redeem.
              bind_result (check_len redeem) (\<lambda>_.
              bind_result (run_script env ctx st script_pubkey) (\<lambda>st1.
              if \<not> top_true st1 then Err VerifyFailed
              else run_script env ctx (tl st1) redeem))))
         else run_script env ctx st script_pubkey) (\<lambda>st'.
      if length st' = 1 \<and> top_true st' then Ok () else Err VerifyFailed)))))"

definition eval_covenant_input_preimage ::
    "script_env \<Rightarrow> tlt_covenant_tx \<Rightarrow> nat \<Rightarrow> bytes \<Rightarrow> u64 \<Rightarrow> u64 \<Rightarrow> tlt_output_origin \<Rightarrow> bytes \<Rightarrow> unit script_res" where
  "eval_covenant_input_preimage env tx input_index script_pubkey spend_blue_score median_time_past_secs orig preimage =
     (if cv_version tx \<noteq> TLT_COVENANT_TX_VERSION then Err BadVersion
      else if length (cv_inputs tx) \<le> input_index then Err BadInput
      else let input = cv_inputs tx ! input_index in
           eval_tlt_script env (ci_script_sig input) script_pubkey
             \<lparr>sc_sighash_preimage = preimage, sc_lock_time = cv_lock_time tx, sc_sequence = ci_sequence input,
              sc_spend_blue_score = spend_blue_score, sc_median_time_past_secs = median_time_past_secs, sc_origin = orig\<rparr>)"

definition eval_covenant_input ::
    "crypto_env \<Rightarrow> script_env \<Rightarrow> tlt_covenant_tx \<Rightarrow> nat \<Rightarrow> bytes \<Rightarrow> u64 \<Rightarrow> u64 \<Rightarrow> tlt_output_origin \<Rightarrow> unit script_res" where
  "eval_covenant_input cenv env tx input_index script_pubkey spend_blue_score median_time_past_secs orig =
     eval_covenant_input_preimage env tx input_index script_pubkey spend_blue_score median_time_past_secs orig
       (sighash_preimage cenv tx)"

text \<open>The checker of \<open>crypto/src/tlt_script.rs\<close>, over the verification of the key pair.\<close>

definition secp_check_sig :: "crypto_env \<Rightarrow> bytes \<Rightarrow> bytes \<Rightarrow> bytes \<Rightarrow> bool" where
  "secp_check_sig cenv pubkey sig msg =
     (if length pubkey \<noteq> 33 \<or> length sig \<noteq> 64 then False else secp_verify cenv pubkey msg sig)"

definition verify_tlt_covenant_input ::
    "crypto_env \<Rightarrow> (bytes \<Rightarrow> hash) \<Rightarrow> tlt_covenant_tx \<Rightarrow> nat \<Rightarrow> bytes \<Rightarrow> u64 \<Rightarrow> u64 \<Rightarrow> tlt_output_origin \<Rightarrow> unit script_res" where
  "verify_tlt_covenant_input cenv sha tx input_index script_pubkey spend_blue_score median_time_past_secs orig =
     eval_covenant_input cenv \<lparr>se_sha256 = sha, se_check_sig = secp_check_sig cenv\<rparr>
       tx input_index script_pubkey spend_blue_score median_time_past_secs orig"

definition verify_tlt_covenant_input_preimage ::
    "crypto_env \<Rightarrow> (bytes \<Rightarrow> hash) \<Rightarrow> tlt_covenant_tx \<Rightarrow> nat \<Rightarrow> bytes \<Rightarrow> u64 \<Rightarrow> u64 \<Rightarrow> tlt_output_origin \<Rightarrow> bytes
      \<Rightarrow> unit script_res" where
  "verify_tlt_covenant_input_preimage cenv sha tx input_index script_pubkey spend_blue_score median_time_past_secs orig preimage =
     eval_covenant_input_preimage \<lparr>se_sha256 = sha, se_check_sig = secp_check_sig cenv\<rparr>
       tx input_index script_pubkey spend_blue_score median_time_past_secs orig preimage"

section \<open>Byte encodings\<close>

lemma take_bit_split:
  "take_bit 8 (x :: 'a::len word) + 256 * take_bit n (drop_bit 8 x) = take_bit (8 + n) x"
  using bits_ident [of 8 "take_bit (8 + n) x"]
  by (simp add: drop_bit_take_bit take_bit_take_bit push_bit_eq_mult add.commute mult.commute)

lemma ucast_byte:
  assumes "8 \<le> LENGTH('a::len)"
  shows "ucast (ucast (x :: 'a word) :: u8) = take_bit 8 x"
  using assms by (auto intro!: bit_word_eqI simp: bit_simps)

lemma take_bit_u64 [simp]: "take_bit 64 (w :: u64) = w"
  by (rule bit_word_eqI) (auto simp: bit_simps)

lemma take_bit_address [simp]: "take_bit 160 (a :: address) = a"
  by (rule bit_word_eqI) (auto simp: bit_simps)

lemma le_value_from:
  "le_value (map (\<lambda>i. ucast (drop_bit (8 * i) (w :: u64))) [k..<k + n]) = take_bit (8 * n) (drop_bit (8 * k) w)"
proof (induction n arbitrary: k)
  case (Suc n)
  have upt: "[k..<k + Suc n] = k # [Suc k..<Suc k + n]" by (simp add: upt_rec [of k])
  have "le_value (map (\<lambda>i. ucast (drop_bit (8 * i) w)) [k..<k + Suc n])
      = take_bit 8 (drop_bit (8 * k) w) + 256 * le_value (map (\<lambda>i. ucast (drop_bit (8 * i) w)) [Suc k..<Suc k + n])"
    unfolding upt by (simp add: ucast_byte del: upt_Suc)
  also have "\<dots> = take_bit 8 (drop_bit (8 * k) w) + 256 * take_bit (8 * n) (drop_bit 8 (drop_bit (8 * k) w))"
    unfolding Suc [of "Suc k"] by (simp add: drop_bit_drop_bit)
  also have "\<dots> = take_bit (8 * Suc n) (drop_bit (8 * k) w)" by (subst take_bit_split) simp
  finally show ?case .
qed simp

lemma le_value_bytes [simp]: "le_value (le_bytes 8 w) = w"
  using le_value_from [of w 0 8] by (simp add: le_bytes_def del: upt_conv_Cons)

lemma of_be_bytes_from:
  "foldl (\<lambda>acc b. 256 * acc + ucast b) acc (be_bytes n (a :: address)) = 256 ^ n * acc + take_bit (8 * n) a"
proof (induction n arbitrary: acc)
  case (Suc n)
  have pow: "(2 :: address) ^ (8 * n) = 256 ^ n" by (simp add: power_mult)
  have split: "take_bit (8 * n) a + 256 ^ n * take_bit 8 (drop_bit (8 * n) a) = take_bit (8 * Suc n) a"
    using bits_ident [of "8 * n" "take_bit (8 * Suc n) a"]
    by (simp add: drop_bit_take_bit take_bit_take_bit push_bit_eq_mult pow add.commute mult.commute [of _ "256 ^ n"])
  have "be_bytes (Suc n) a = ucast (drop_bit (8 * n) a) # be_bytes n a" by (simp add: be_bytes_def)
  with Suc show ?case unfolding split [symmetric] by (simp add: ucast_byte algebra_simps)
qed (simp add: be_bytes_def)

lemma of_be_address [simp]: "of_be_bytes (address_bytes a) = a"
  using of_be_bytes_from [of 0 20 a] by (simp add: of_be_bytes_def address_bytes_def)

lemma address_hash_length [simp]: "length (address_bytes a) = 20" "length (hash_bytes h) = 32"
  by (simp_all add: address_bytes_def hash_bytes_def)

section \<open>Symbolic execution\<close>

lemmas script_limits = TLT_MAX_SCRIPT_LEN_def TLT_MAX_STACK_def TLT_MAX_OPS_def TLT_MAX_PUSH_def TLT_MAX_MULTISIG_def
  TLT_MAX_IF_DEPTH_def

lemma executing_simps [simp]: "executing []" "executing (b # r) \<longleftrightarrow> b \<and> executing r"
  by (simp_all add: executing_def)

lemma is_true_bool_item [simp]: "is_true (bool_item b) = b"
  by (simp add: is_true_def bool_item_def)

lemma top_true_simps [simp]: "\<not> top_true []" "top_true (t # r) = is_true t"
  by (simp_all add: top_true_def)

lemma pop_simps [simp]: "pop [] = Err StackUnderflow" "pop (t # r) = Ok (t, r)"
  by (simp_all add: pop_def)

lemma push_ok [simp]: "push x st = Ok st' \<longleftrightarrow> length st < 32 \<and> st' = x # st"
  by (auto simp: push_def script_limits)

lemma run_push:
  assumes "0 < length d" "length d \<le> 80" "ops < 64"
  shows "run_from env ctx ops exec st (push_fixed d @ rest) =
     bind_result (if executing exec then push d st else Ok st) (\<lambda>st'. run_from env ctx (Suc ops) exec st' rest)"
proof -
  have "unat (of_nat (length d) :: u8) = length d" using assms(2) by (simp add: unat_of_nat)
  then show ?thesis using assms by (simp add: push_fixed_def script_limits)
qed

lemma run_op:
  assumes "op \<noteq> OP_PUSH" "ops < 64"
  shows "run_from env ctx ops exec st (op # rest) =
     bind_result (step_op env ctx op exec st) (\<lambda>(exec', st'). run_from env ctx (Suc ops) exec' st' rest)"
  using assms by (simp add: script_limits)

declare run_from.simps(2) [simp del]

lemmas symbolic_run = run_op run_push step_op_def known_opcode_def script_limits push_def

lemma result_cases:
  obtains (ok) v where "r = Ok v" | (err) e where "r = Err e"
  by (cases r) auto

lemma push_data_fixed:
  "2 \<le> length d \<Longrightarrow> length d \<le> 80 \<Longrightarrow> push_data d = Ok (push_fixed d)"
  by (auto simp: push_data_def push_fixed_def script_limits)

section \<open>Pay to a key hash\<close>

lemma run_p2pkh:
  "run_script env ctx st (script_p2pkh a) = Ok st' \<longleftrightarrow>
     (\<exists>pk sig r. st = pk # sig # r \<and> length st < 31 \<and> take 20 (hash_bytes (se_sha256 env pk)) = address_bytes a
        \<and> st' = bool_item (se_check_sig env pk sig (sc_sighash_preimage ctx)) # r)"
proof (cases st)
  case (Cons pk st1)
  then show ?thesis
    by (cases st1) (auto simp: run_script_def script_p2pkh_def symbolic_run)
qed (simp add: run_script_def script_p2pkh_def symbolic_run)

lemma p2pkh_not_p2sh [simp]: "\<not> is_p2sh_script (script_p2pkh a)"
  by (simp add: is_p2sh_script_def script_p2pkh_def push_fixed_def)

lemma p2pkh_length [simp]: "length (script_p2pkh a) = 26"
  by (simp add: script_p2pkh_def push_fixed_def)

lemma eval_bare:
  assumes "\<not> is_p2sh_script pk" "pk \<noteq> []" "length pk \<le> 512"
  shows "eval_tlt_script env ss pk ctx = Ok () \<longleftrightarrow>
     length ss \<le> 512 \<and> (\<exists>st t. run_script env ctx [] ss = Ok st \<and> run_script env ctx st pk = Ok [t] \<and> is_true t)"
  using assms
  by (cases "run_script env ctx [] ss" rule: result_cases)
     (auto simp: eval_tlt_script_def check_len_def script_limits length_Suc_conv)

text \<open>
  Property C30. An output locked to an address with the standard key-hash program is spent exactly by a script
  signature that leaves two items, a public key on top of a signature: the hash prefix of the key is the
  address and the signature is valid under it for the sighash of the spending input.
\<close>

theorem p2pkh_spent_iff:
  "eval_tlt_script env ss (script_p2pkh a) ctx = Ok () \<longleftrightarrow>
     length ss \<le> 512
     \<and> (\<exists>pk sig. run_script env ctx [] ss = Ok [pk, sig]
          \<and> take 20 (hash_bytes (se_sha256 env pk)) = address_bytes a
          \<and> se_check_sig env pk sig (sc_sighash_preimage ctx))"
proof -
  have "script_p2pkh a \<noteq> []" using p2pkh_length [of a] by force
  then show ?thesis by (auto simp: eval_bare run_p2pkh)
qed

section \<open>Hash time locks\<close>

lemma script_htlc_ok:
  assumes "length rpk = 33" "length fpk = 33"
  shows "script_htlc h rpk fpk t = Ok (OP_IF # OP_SHA256 # push_fixed (hash_bytes h) @ OP_EQUALVERIFY # push_fixed rpk
     @ OP_CHECKSIG # OP_ELSE # push_fixed (le_bytes 8 t) @ OP_CHECKLOCKTIMEVERIFY # OP_DROP # push_fixed fpk
     @ [OP_CHECKSIG, OP_ENDIF])"
  using assms by (simp add: script_htlc_def push_data_fixed)

definition locktime_reached :: "u64 \<Rightarrow> tlt_spend_context \<Rightarrow> bool" where
  "locktime_reached t ctx \<longleftrightarrow>
     sc_sequence ctx \<noteq> TLT_SEQUENCE_FINAL \<and> t \<le> sc_lock_time ctx
     \<and> (t < TLT_LOCKTIME_TIME_THRESHOLD \<and> sc_lock_time ctx < TLT_LOCKTIME_TIME_THRESHOLD
          \<and> sc_lock_time ctx \<le> sc_spend_blue_score ctx
        \<or> TLT_LOCKTIME_TIME_THRESHOLD \<le> t \<and> sc_lock_time ctx \<le> sc_median_time_past_secs ctx)"

lemma check_locktime_ok:
  "check_locktime (le_bytes 8 t # st) ctx = Ok () \<longleftrightarrow> locktime_reached t ctx"
proof -
  have "le_bytes 8 t \<noteq> []" using bytes_length(2) [of 8 t] by force
  then show ?thesis
    by (auto simp: check_locktime_def script_u64_def locktime_is_time_def locktime_reached_def not_less not_le split: if_splits)
qed

lemma run_htlc:
  assumes "script_htlc h rpk fpk t = Ok prog" "length rpk = 33" "length fpk = 33"
  shows "run_script env ctx st prog = Ok st' \<longleftrightarrow>
     (\<exists>c pre sig r. st = c # pre # sig # r \<and> is_true c \<and> length st < 33 \<and> se_sha256 env pre = h
        \<and> st' = bool_item (se_check_sig env rpk sig (sc_sighash_preimage ctx)) # r)
     \<or> (\<exists>c sig r. st = c # sig # r \<and> \<not> is_true c \<and> length st < 33 \<and> locktime_reached t ctx
        \<and> st' = bool_item (se_check_sig env fpk sig (sc_sighash_preimage ctx)) # r)"
proof (cases st)
  case (Cons c st1)
  note prog = assms(1) [unfolded script_htlc_ok [OF assms(2,3)], simplified, symmetric]
  show ?thesis
  proof (cases "is_true c")
    case True
    then show ?thesis
      by (cases st1; cases "tl st1")
         (auto simp: Cons run_script_def prog symbolic_run assms(2,3) hash_bytes_def split: if_splits)
  next
    case False
    then show ?thesis
      by (cases st1) (auto simp: Cons run_script_def prog symbolic_run check_locktime_ok assms(2,3) split: if_splits)
  qed
next
  case Nil
  then show ?thesis using assms by (auto simp: run_script_def script_htlc_ok symbolic_run)
qed

text \<open>
  Property C31. A hash time lock is spent in exactly two ways. With a true selector, by the preimage of the hash and a
  signature of the recipient. With a false one, by a signature of the refund key once the lock time is reached,
  on a transaction whose own lock time is of the same kind and at least the one of the program.
\<close>

theorem htlc_spent_iff:
  assumes "script_htlc h rpk fpk t = Ok prog" "length rpk = 33" "length fpk = 33"
  shows "eval_tlt_script env ss prog ctx = Ok () \<longleftrightarrow>
     length ss \<le> 512
     \<and> (\<exists>c rest. run_script env ctx [] ss = Ok (c # rest)
          \<and> (is_true c \<and> (\<exists>pre sig. rest = [pre, sig] \<and> se_sha256 env pre = h
                 \<and> se_check_sig env rpk sig (sc_sighash_preimage ctx))
            \<or> \<not> is_true c \<and> locktime_reached t ctx \<and> (\<exists>sig. rest = [sig]
                 \<and> se_check_sig env fpk sig (sc_sighash_preimage ctx))))"
proof -
  have "length prog = 123" using assms by (auto simp: script_htlc_ok push_fixed_def)
  then have "\<not> is_p2sh_script prog" "prog \<noteq> []" "length prog \<le> 512" by (auto simp: is_p2sh_script_def)
  then show ?thesis by (simp add: eval_bare run_htlc [OF assms]) auto
qed

section \<open>Multisignature programs\<close>

lemma find_key_sound: "find_key chk s keys = Some rest \<Longrightarrow> \<exists>k. chk k s \<and> subseq (k # rest) keys"
proof (induction keys)
  case (Cons x keys)
  then show ?case by (cases "chk x s") (auto intro: list_emb_Cons)
qed simp

lemma find_key_complete:
  "subseq (k # ks) keys \<Longrightarrow> chk k s \<Longrightarrow> \<exists>rest. find_key chk s keys = Some rest \<and> subseq ks rest"
proof (induction keys)
  case (Cons x keys)
  then show ?case by (cases "k = x") (auto dest: subseq_Cons')
qed simp

lemma count_matched_le: "count_matched chk keys sigs \<le> length sigs"
  by (induction sigs arbitrary: keys) (auto split: option.split)

lemma all_matched_iff:
  "count_matched chk keys sigs = length sigs \<longleftrightarrow> (\<exists>ks. subseq ks keys \<and> list_all2 chk ks sigs)"
proof (induction sigs arbitrary: keys)
  case (Cons s sigs)
  show ?case (is "?l \<longleftrightarrow> ?r")
  proof
    assume ?l
    then obtain rest where rest: "find_key chk s keys = Some rest" "count_matched chk rest sigs = length sigs"
      by (auto split: option.splits)
    from find_key_sound [OF rest(1)] obtain k where "chk k s" "subseq (k # rest) keys" by blast
    moreover from rest(2) Cons obtain ks where "subseq ks rest" "list_all2 chk ks sigs" by blast
    ultimately have "subseq (k # ks) keys" "list_all2 chk (k # ks) (s # sigs)"
      by (auto intro: subseq_order.trans [of _ "k # rest"])
    then show ?r by blast
  next
    assume ?r
    then obtain k ks where "subseq (k # ks) keys" "chk k s" "list_all2 chk ks sigs" by (auto simp: list_all2_Cons2)
    with find_key_complete [of k ks keys chk s] Cons show ?l by fastforce
  qed
qed auto

lemma pop_many_ok: "pop_many n st = Ok (xs, r) \<longleftrightarrow> length xs = n \<and> st = xs @ r"
proof (induction n arbitrary: st xs)
  case (Suc n)
  then show ?case by (cases st; cases xs) auto
qed auto

lemma run_small:
  assumes "0 < m" "m \<le> 16" "ops < 64" "executing exec"
  shows "run_from env ctx ops exec st ((80 + m) # rest) =
     bind_result (push [m] st) (\<lambda>st'. run_from env ctx (Suc ops) exec st' rest)"
proof -
  have "OP_1 \<le> 80 + m \<and> 80 + m \<le> OP_16 \<and> 80 + m \<noteq> OP_PUSH \<and> 80 + m \<noteq> OP_0"
    using assms(1,2) by (unat_arith, auto)
  then show ?thesis using assms(3,4)
    by (cases "length st < 32") (simp_all add: run_op step_op_def push_def script_limits)
qed

lemma run_pushes:
  "\<forall>d\<in>set ds. length d = 33 \<Longrightarrow> ops + length ds \<le> 64 \<Longrightarrow>
   run_from env ctx ops [] st (concat (map push_fixed ds) @ rest) =
     (if length st + length ds \<le> 32 \<or> ds = [] then run_from env ctx (ops + length ds) [] (rev ds @ st) rest else Err StackOverflow)"
proof (induction ds arbitrary: ops st)
  case (Cons d ds)
  then show ?case by (auto simp: run_push push_def script_limits)
qed simp

lemma push_all_fixed:
  "\<forall>d\<in>set ds. length d = 33 \<Longrightarrow>
   fold_result (\<lambda>buf d. bind_result (push_data d) (\<lambda>p. Ok (buf @ p))) buf ds = Ok (buf @ concat (map push_fixed ds))"
  by (induction ds arbitrary: buf) (simp_all add: push_data_fixed)

lemma script_multisig_ok:
  assumes "script_multisig m pks = Ok prog" "\<forall>k\<in>set pks. length k = 33"
  shows "0 < unat m" "unat m \<le> length pks" "length pks \<le> 15"
    "prog = (80 + m) # concat (map push_fixed pks) @ [80 + of_nat (length pks), OP_CHECKMULTISIG]"
proof -
  have len: "length pks < 256" using assms(1) by (auto simp: script_multisig_def script_limits Let_def split: if_splits)
  let ?n = "of_nat (length pks) :: u8"
  have n: "unat ?n = length pks" using len by (simp add: unat_of_nat)
  have guards: "m \<noteq> 0" "m \<le> ?n" "?n \<le> 15"
    using assms(1) len by (auto simp: script_multisig_def script_limits Let_def split: if_splits)
  then show b: "0 < unat m" "unat m \<le> length pks" "length pks \<le> 15"
    using n by (auto simp: word_le_nat_alt unat_gt_0)
  have "1 \<le> m" "m \<le> 16" "1 \<le> ?n" "?n \<le> 16" using b n by (auto simp: word_le_nat_alt)
  then show "prog = (80 + m) # concat (map push_fixed pks) @ [80 + ?n, OP_CHECKMULTISIG]"
    using assms len guards
    by (auto simp: script_multisig_def Let_def push_all_def push_data_def [of "[_]"] fold_result_append push_all_fixed split: if_splits)
qed

lemma read_count_byte:
  assumes "0 < unat b" "unat b \<le> 15"
  shows "read_count [b] = Ok (unat b)"
proof -
  have "unat (ucast b :: u64) = unat b" using assms(2) by (simp add: unsigned_ucast_eq take_bit_nat_eq_self)
  then show ?thesis using assms
    by (auto simp: read_count_def script_u64_def script_limits word_less_nat_alt)
qed

lemma run_multisig:
  assumes "script_multisig m pks = Ok prog" "\<forall>k\<in>set pks. length k = 33"
  shows "run_script env ctx st prog = Ok st' \<longleftrightarrow>
     length st + length pks + 2 \<le> 32
     \<and> (\<exists>sigs r. st = rev sigs @ r \<and> length sigs = unat m
          \<and> st' = bool_item (count_matched (\<lambda>k s. se_check_sig env k s (sc_sighash_preimage ctx)) pks sigs = unat m) # r)"
proof -
  note ok = script_multisig_ok [OF assms]
  let ?n = "of_nat (length pks) :: u8" and ?chk = "\<lambda>k s. se_check_sig env k s (sc_sighash_preimage ctx)"
  have n: "unat ?n = length pks" using ok(3) by (simp add: unat_of_nat)
  have small: "0 < m" "m \<le> 16" "0 < ?n" "?n \<le> 16"
    using ok(1-3) n by (auto simp: word_le_nat_alt word_less_nat_alt)
  have last: "run_from env ctx k [] st2 [OP_CHECKMULTISIG] = check_multisig env ctx st2" if "k < 64" for k st2
    using that by (cases "check_multisig env ctx st2") (simp_all add: run_op step_op_def)
  have "0 < length pks" using ok(1,2) by linarith
  then have counts: "read_count [?n] = Ok (length pks)" "read_count [m] = Ok (unat m)"
    using ok(1-3) n read_count_byte [of ?n] read_count_byte [of m] by simp_all
  have keys: "pop_many (length pks) (rev pks @ [m] # st) = Ok (rev pks, [m] # st)" by (simp add: pop_many_ok)
  have run: "run_script env ctx st prog = Ok st' \<longleftrightarrow>
      length st + length pks + 2 \<le> 32 \<and> check_multisig env ctx ([?n] # rev pks @ [m] # st) = Ok st'"
    using ok(1-3) by (auto simp add: ok(4) run_script_def run_small small run_pushes assms(2) last split: if_splits)
  have check: "check_multisig env ctx ([?n] # rev pks @ [m] # st) = Ok st' \<longleftrightarrow>
      (\<exists>sigs r. st = sigs @ r \<and> length sigs = unat m \<and> push (bool_item (count_matched ?chk pks (rev sigs) = unat m)) r = Ok st')"
    using ok(1,2) by (auto simp: check_multisig_def counts keys pop_many_ok simp del: push_ok)
  have ex_rev: "(\<exists>xs. P xs) \<longleftrightarrow> (\<exists>xs. P (rev xs))" for P :: "bytes list \<Rightarrow> bool" by (metis rev_rev_ident)
  show ?thesis unfolding run check by (subst ex_rev) auto
qed

lemma multisig_length:
  assumes "script_multisig m pks = Ok prog" "\<forall>k\<in>set pks. length k = 33"
  shows "length prog = 35 * length pks + 3"
proof -
  have "length (concat (map push_fixed pks)) = 35 * length pks"
    using assms(2) by (induction pks) (simp_all add: push_fixed_def)
  then show ?thesis by (simp add: script_multisig_ok(4) [OF assms])
qed


text \<open>
  The largest number of keys that \<open>script_multisig\<close> accepts gives a program over the length limit of
  the interpreter: no script signature spends an output locked with it.
\<close>

theorem fifteen_keys_unspendable:
  assumes "script_multisig m pks = Ok prog" "\<forall>k\<in>set pks. length k = 33" "length pks = TLT_MAX_MULTISIG"
  shows "eval_tlt_script env ss prog ctx = Err ScriptTooLarge"
  using multisig_length [OF assms(1,2)] assms(3)
  by (auto simp: eval_tlt_script_def check_len_def script_limits)

section \<open>Pay to a script hash\<close>

lemma push_not_small [simp]: "\<not> OP_1 \<le> OP_PUSH"
  by (simp add: word_le_nat_alt)

lemma push_only_items:
  "is_push_only ss = Ok True \<Longrightarrow> run_from env ctx ops [] st ss = Ok st' \<Longrightarrow> x \<in> set st' \<Longrightarrow> x \<in> set st \<or> length x \<le> 80"
proof (induction ss arbitrary: ops st rule: is_push_only.induct)
  case (2 op rest)
  show ?case
  proof (cases "op = OP_0 \<or> OP_1 \<le> op \<and> op \<le> OP_16")
    case True
    then have "op \<noteq> OP_PUSH" by auto
    let ?y = "if op = OP_0 then [] else [op - 80]"
    have "run_from env ctx (Suc ops) [] (?y # st) rest = Ok st'"
      using True \<open>op \<noteq> OP_PUSH\<close> 2(4) by (auto simp: run_from.simps(2) step_op_def split: if_splits)
    from 2(1) [OF True _ this 2(5)] True 2(3) show ?thesis by (auto split: if_splits)
  next
    case False
    then have "op = OP_PUSH" using 2(3) by (auto split: if_splits)
    then obtain l r where "rest = l # r" using 2(3) by (cases rest) auto
    with 2(2) [OF False] 2(3-5) \<open>op = OP_PUSH\<close> show ?thesis
      by (fastforce simp: run_from.simps(2) Let_def script_limits split: if_splits)
  qed
qed simp

text \<open>
  The redeem script of a script hash output is one item of a push-only script signature, so only
  redeem scripts of at most 80 bytes can be revealed.
\<close>

theorem p2sh_redeem_fits_push:
  assumes "eval_tlt_script env ss (fst (script_p2sh env redeem)) ctx = Ok ()"
  shows "\<exists>r. length r \<le> 80 \<and> se_sha256 env r = se_sha256 env redeem"
proof -
  let ?pk = "fst (script_p2sh env redeem)" and ?h = "hash_bytes (se_sha256 env redeem)"
  have pk: "?pk = OP_SHA256 # push_fixed ?h @ [OP_EQUAL]" by (simp add: script_p2sh_def Let_def)
  have "is_p2sh_script ?pk" by (simp add: pk is_p2sh_script_def push_fixed_def nth_append)
  with assms obtain r st st1 where r: "run_script env ctx [] ss = Ok (r # st)" "is_push_only ss = Ok True"
      "run_script env ctx (r # st) ?pk = Ok st1" "top_true st1"
    by (auto simp: eval_tlt_script_def split: if_splits list.splits)
  then have "length r \<le> 80" using push_only_items [of ss env ctx 0 "[]" "r # st" r] by (simp add: run_script_def)
  moreover have "hash_bytes (se_sha256 env r) = ?h"
    using r(3,4) by (auto simp: run_script_def pk symbolic_run split: if_splits)
  ultimately show ?thesis by (auto simp: hash_bytes_def)
qed

section \<open>Limits\<close>

lemma pop_stack: "pop st = Ok (x, st') \<Longrightarrow> length st = Suc (length st')"
  by (cases st) auto

lemma step_stack:
  assumes "step_op env ctx op exec st = Ok (exec', st')" "length st \<le> 32"
  shows "length st' \<le> 32"
  using assms by (auto simp: step_op_def check_multisig_def Let_def dest!: pop_stack split: if_splits list.splits)

lemma run_stack:
  "run_from env ctx ops exec st s = Ok st' \<Longrightarrow> length st \<le> 32 \<Longrightarrow> length st' \<le> 32"
proof (induction env ctx ops exec st s rule: run_from.induct)
  case (2 env ctx ops exec st op rest)
  show ?case
  proof (cases "op = OP_PUSH")
    case True
    then obtain l r where rest: "rest = l # r" using 2(3) by (cases rest) (auto simp: run_from.simps(2) split: if_splits)
    then obtain st1 where st1: "\<not> TLT_MAX_OPS < Suc ops" "\<not> (unat l = 0 \<or> TLT_MAX_PUSH < unat l \<or> length r < unat l)"
        "(if executing exec then push (take (unat l) r) st else Ok st) = Ok st1"
        "run_from env ctx (Suc ops) exec st1 (drop (unat l) r) = Ok st'"
      using 2(3) True by (simp add: run_from.simps(2) Let_def del: push_ok split: if_split_asm) blast+
    have "length st1 \<le> 32" using st1(3) 2(4) by (auto split: if_splits)
    with 2(1) [OF st1(1) True rest refl st1(2,3,4)] show ?thesis by blast
  next
    case False
    then obtain exec' st1 where st1: "\<not> TLT_MAX_OPS < Suc ops" "step_op env ctx op exec st = Ok (exec', st1)"
        "run_from env ctx (Suc ops) exec' st1 rest = Ok st'"
      using 2(3) by (auto simp: run_from.simps(2) split: if_splits)
    from 2(2) [OF st1(1) False st1(2) refl st1(3)] step_stack [OF st1(2) 2(4)] show ?thesis by blast
  qed
qed (auto split: if_splits)

section \<open>Round trips\<close>

lemma push_data_pushes:
  assumes "push_data d = Ok p" "length st < 32" "ops < 64"
  shows "run_from env ctx ops [] st (p @ rest) = run_from env ctx (Suc ops) [] (d # st) rest"
proof (cases "length d = 1 \<and> 1 \<le> hd d \<and> hd d \<le> 16")
  case True
  then obtain m where d: "d = [m]" "0 < m" "m \<le> 16" by (cases d) (auto simp: word_le_nat_alt word_less_nat_alt)
  with assms True show ?thesis by (auto simp: push_data_def run_small push_def script_limits)
next
  case False
  then show ?thesis
    using assms run_push [of d ops env ctx "[]" st rest]
    by (cases d) (auto simp: push_data_def push_fixed_def symbolic_run split: if_splits)
qed

lemma p2pkh_round_trip: "p2pkh_address (script_p2pkh a) = Some a"
  by (simp add: p2pkh_address_def script_p2pkh_def push_fixed_def nth_append)

section \<open>Example programs\<close>

definition demo_script_env :: script_env where
  "demo_script_env = \<lparr>se_sha256 = (\<lambda>bs. of_nat (length bs)), se_check_sig = (\<lambda>pk sig msg. pk \<noteq> [] \<and> pk = sig)\<rparr>"

definition demo_script_ctx :: "u32 \<Rightarrow> u64 \<Rightarrow> u64 \<Rightarrow> tlt_spend_context" where
  "demo_script_ctx sq lock score =
     \<lparr>sc_sighash_preimage = [1, 2, 3], sc_lock_time = lock, sc_sequence = sq, sc_spend_blue_score = score,
      sc_median_time_past_secs = 0, sc_origin = \<lparr>og_blue_score = 0, og_median_time_secs = 0\<rparr>\<rparr>"

definition pushes :: "bytes list \<Rightarrow> bytes" where
  "pushes ds = (case push_all ds of Inr s \<Rightarrow> s | Inl _ \<Rightarrow> [])"

definition program_of :: "bytes script_res \<Rightarrow> bytes" where
  "program_of r = (case r of Inr s \<Rightarrow> s | Inl _ \<Rightarrow> [])"

abbreviation demo_key :: "u8 \<Rightarrow> bytes" where "demo_key b \<equiv> replicate 33 b"

definition demo_htlc :: bytes where
  "demo_htlc = program_of (script_htlc 3 (demo_key 6) (demo_key 7) 20)"

definition demo_multisig :: bytes where
  "demo_multisig = program_of (script_multisig 2 [demo_key 0x11, demo_key 0x22, demo_key 0x33])"

definition demo_fifteen :: bytes where
  "demo_fifteen = program_of (script_multisig 1 (replicate 15 (demo_key 2)))"

theorem htlc_spent_witness:
  "script_htlc 3 (demo_key 6) (demo_key 7) 20 = Ok demo_htlc
   \<and> eval_tlt_script demo_script_env (pushes [demo_key 6, [9, 9, 9], [1]]) demo_htlc (demo_script_ctx 0xFFFFFFFF 0 5) = Ok ()
   \<and> eval_tlt_script demo_script_env (pushes [demo_key 7, []]) demo_htlc (demo_script_ctx 0 20 20) = Ok ()
   \<and> eval_tlt_script demo_script_env (pushes [demo_key 7, []]) demo_htlc (demo_script_ctx 0 20 19) \<noteq> Ok ()"
proof -
  have prog: "script_htlc 3 (demo_key 6) (demo_key 7) 20 = Ok demo_htlc" by code_simp
  have lens: "length (pushes [demo_key 6, [9, 9, 9], [1]]) \<le> 512" "length (pushes [demo_key 7, []]) \<le> 512"
    by code_simp+
  have claim: "run_script demo_script_env (demo_script_ctx 0xFFFFFFFF 0 5) [] (pushes [demo_key 6, [9, 9, 9], [1]])
      = Ok [[1], [9, 9, 9], demo_key 6]" by code_simp
  have refund: "run_script demo_script_env (demo_script_ctx 0 20 20) [] (pushes [demo_key 7, []]) = Ok [[], demo_key 7]"
    "run_script demo_script_env (demo_script_ctx 0 20 19) [] (pushes [demo_key 7, []]) = Ok [[], demo_key 7]"
    by code_simp+
  have flags: "is_true [1]" "\<not> is_true []" "locktime_reached 20 (demo_script_ctx 0 20 20)" "\<not> locktime_reached 20 (demo_script_ctx 0 20 19)"
    "se_sha256 demo_script_env [9, 9, 9] = 3" by code_simp+
  have sig: "se_check_sig demo_script_env (demo_key b) (demo_key b) msg" for b msg
    by (simp add: demo_script_env_def)
  note iff = htlc_spent_iff [OF prog length_replicate length_replicate]
  show ?thesis using prog lens claim refund flags sig by (simp add: iff)
qed


theorem fifteen_keys_witness:
  "script_multisig 1 (replicate 15 (demo_key 2)) = Ok demo_fifteen
   \<and> eval_tlt_script demo_script_env (pushes [demo_key 2]) demo_fifteen (demo_script_ctx 0 0 5) = Err ScriptTooLarge"
proof -
  have prog: "script_multisig 1 (replicate 15 (demo_key 2)) = Ok demo_fifteen" by code_simp
  show ?thesis using prog fifteen_keys_unspendable [OF prog] by (simp add: TLT_MAX_MULTISIG_def)
qed

theorem p2sh_redeem_witness:
  "eval_tlt_script demo_script_env (pushes [demo_key 4, demo_key 4, script_p2pkh 0])
     (fst (script_p2sh demo_script_env (script_p2pkh 0))) (demo_script_ctx 0 0 5) = Ok ()
   \<and> (\<exists>r. length r \<le> 80 \<and> se_sha256 demo_script_env r = se_sha256 demo_script_env (script_p2pkh 0))"
proof -
  have "eval_tlt_script demo_script_env (pushes [demo_key 4, demo_key 4, script_p2pkh 0])
     (fst (script_p2sh demo_script_env (script_p2pkh 0))) (demo_script_ctx 0 0 5) = Ok ()" by code_simp
  then show ?thesis using p2sh_redeem_fits_push by blast
qed

end
