(* ===== verification/Spec2Isabelle.thy ===== *)
theory Spec2Isabelle
  imports Ghostdag Daa Finality Staking_Rewards Block_Properties Meta_Keys Utxo Chain_Reorg Finality_Gadget Tlt_Script
begin

text \<open>
  \<^bold>\<open>Verification of the Agora network node.\<close>

  \<^bold>\<open>The program.\<close> A node keeps a directed acyclic graph of blocks, colours it with GHOSTDAG, and applies the blue blocks of
  the best tip in a total order to a ledger of three native assets (TLT, OVL, DRC). TLT lives in unspent outputs; OVL and
  DRC live in accounts with staking, DRC also with tickets, policies, keys, signer lists and escrows. Each applied block leaves a
  journal from which it can be taken back when another tip wins. Validators of OVL and DRC sign checkpoints; a block with
  enough work and two thirds of both stakes is final, and the node refuses to abandon it.

  The parts interact in this order. \<open>admit_block\<close> colours a candidate (\<open>Dag\<close>, \<open>Ghostdag\<close>) after checking its difficulty
  (\<open>Daa\<close>); it rehearses the blue order on an overlay of the store (\<open>Kv_Store\<close>, \<open>Chain_Reorg\<close>), asks the finality guard, and switches
  the ledger, which applies each block: transactions (\<open>Utxo\<close>), then the account lanes (\<open>Lanes\<close>), which call \<open>Accounts\<close>,
  \<open>Drc_Policy\<close>, \<open>Supply\<close>, \<open>Staking\<close> and \<open>Escrow\<close>. Attestations are admitted beside it (\<open>Finality_Gadget\<close>).

  \<^bold>\<open>Theories, and the code they model\<close> (paths below \<^verbatim>\<open>src/core\<close>, crates below \<^verbatim>\<open>crates\<close>).

  \<^item> \<open>Agora_Prelude\<close>: machine words with Rust's checked and saturating arithmetic, \<open>Result\<close> as a sum with \<open>bind_result\<close> for the question
    mark, loops that stop at the first error, and shared list facts. \<open>Agora_Types\<close>: hashes, addresses, amounts, finality records
    (\<^verbatim>\<open>types/src\<close>).
  \<^item> \<open>Dag\<close>, \<open>Ghostdag\<close> (\<^verbatim>\<open>consensus/src/dag.rs\<close>, \<^verbatim>\<open>ghostdag.rs\<close>): the state is the DAG with its insertion order and the colouring map;
    one definition per method. Shown: colouring always returns and depends only on the past of a block, the structure of blue sets,
    scores and selected parents, the total order of a tip's view, the choice of the virtual tip, and the snapshot round trip; two concrete
    runs show orders and blue sets that contradict the comments. The locale \<open>ranked\<close> is the choice of a maximum.
  \<^item> \<open>Daa\<close> (\<^verbatim>\<open>daa.rs\<close>, \<^verbatim>\<open>emission.rs\<close>, \<^verbatim>\<open>limits.rs\<close>): retargeting with bounds and exact value, median time, emission.
  \<^item> \<open>Finality\<close> (\<^verbatim>\<open>quorum.rs\<close>, \<^verbatim>\<open>finality.rs\<close>, \<^verbatim>\<open>evidence.rs\<close>): the quorum test, the life cycle of a checkpoint, penalties. The locale
    \<open>weighted_voters\<close> gives the intersection of two quorums and is interpreted on validator snapshots in \<open>Finality_Gadget\<close>.
  \<^item> \<open>Kv_Store\<close>, \<open>Meta_Keys\<close> (\<^verbatim>\<open>state-machine/src/store.rs\<close> and the key builders of the modules): the byte store with batches, overlays and
    scans, and the byte string of every typed key. \<open>Ledger_Store\<close> is the typed store the other theories use; the locales \<open>batch_store\<close> and
    \<open>mirrored_stores\<close>, interpreted on bytes, typed records and outputs, show that it refines the byte store because keys are injective.
  \<^item> \<open>Ledger_Types\<close>, \<open>Drc_Keys\<close>, \<open>Drc_Envelopes\<close> (\<^verbatim>\<open>types/src/drc_*.rs\<close>, \<^verbatim>\<open>account.rs\<close>, \<^verbatim>\<open>stake.rs\<close>): records, signed operations, their
    structural checks and signing bytes, and the loads and decodes of the store.
  \<^item> \<open>Accounts\<close> (\<^verbatim>\<open>state-machine/src/accounts\<close>, \<^verbatim>\<open>drc_ticket.rs\<close>, \<^verbatim>\<open>drc_account_auth.rs\<close>): transfers, nonces and tickets, authorisation by master key,
    regular key or signer list. Shown: the exact effect, who authorised it, and what the journal restores.
  \<^item> \<open>Drc_Policy\<close> (\<^verbatim>\<open>drc_policy.rs\<close>, \<^verbatim>\<open>drc_regular_key.rs\<close>, \<^verbatim>\<open>drc_signer_list.rs\<close>, \<^verbatim>\<open>drc_deposit_preauth.rs\<close>): the four kinds of account settings.
  \<^item> \<open>Supply\<close> (\<^verbatim>\<open>monetary.rs\<close>, \<^verbatim>\<open>supply.rs\<close>): issued, burned and reserved counters, ignition, fee burning.
  \<^item> \<open>Staking\<close>, \<open>Staking_Rewards\<close> (\<^verbatim>\<open>staking/mod.rs\<close>): bonding to slashing, snapshots, epochs and rewards. Shown: conservation of stake with the
    exact loss of the two overwriting cases, deterministic snapshots, conservation over an epoch.
  \<^item> \<open>Escrow\<close> (\<^verbatim>\<open>drc_escrow.rs\<close>): creation and settlement, and that the time rules never leave an escrow stuck.
  \<^item> \<open>Lanes\<close>, \<open>Ledger_Steps\<close>, \<open>Ledger_Invariants\<close>, \<open>Block_Properties\<close> (\<^verbatim>\<open>apply.rs\<close>): the account lanes of a block with their conflict rule, journal
    and revert; a step relation on ledgers; the block refines it, so invariants of single steps hold for blocks: typed records, unit
    accounting, sequences used once, escrows settled once, nobody locked out, and the revert of a block.
  \<^item> \<open>Utxo\<close> (\<^verbatim>\<open>apply.rs\<close>, \<^verbatim>\<open>types/src/transaction.rs\<close>): the transaction lane in both modes, its journal, and mempool admission. Shown: value
    conservation, spending by the owner only, agreement of mempool and block.
  \<^item> \<open>Chain_Reorg\<close> (\<^verbatim>\<open>node-bin/src/admit/mod.rs\<close>): the switch of the virtual tip as a list of durable writes. The locale \<open>reversible_ledger\<close> states what
    a ledger must promise (a journal takes its block back, up to an equivalence), and is interpreted on the transaction lane. Shown:
    a switch reaches the new order or restores the old one; recovery after any crashes finishes it when the suffixes are disjoint,
    with a concrete run where they are not; the rehearsal predicts the switch; the guard keeps final blocks.
  \<^item> \<open>Finality_Gadget\<close> (\<^verbatim>\<open>finality_store.rs\<close>, \<^verbatim>\<open>node-bin/src/admit/finality.rs\<close>): attestations and certificates over runs of the gadget. Shown: one counted
    signature per validator and epoch, at most one quorum among fresh signatures, and concrete runs beyond those hypotheses.
  \<^item> \<open>Tlt_Script\<close> (\<^verbatim>\<open>types/src/tlt_script.rs\<close>, \<^verbatim>\<open>crypto/src/tlt_script.rs\<close>): the script language of covenant outputs, its interpreter with all
    limits, and the standard programs. Shown: exactly which script signatures spend a key hash, a hash time lock and a threshold of keys,
    a program of fifteen keys that cannot be spent, and the size limit on redeem scripts.

  \<^bold>\<open>Parameters.\<close> SHA-256, secp256k1 and Borsh are the fields of \<open>crypto_env\<close>; distinct values may collide unless a theorem assumes
  otherwise. RocksDB is not modelled: the store is the in-memory back end of the same interface. The state root of a checkpoint body is a function
  argument.

  \<^bold>\<open>Bounds and fuel.\<close> Integers keep their width, with checked, saturating and wrapping operations as in the code. The recursion of
  \<open>color_block\<close> into uncoloured parents has the number of blocks as fuel; \<open>add_block_total\<close> proves it enough on every reachable DAG. All
  other loops are structural or have a termination proof. Conservation of stake and emission assumes totals below two to the 64 where the
  code adds without a check. Panics and failed loads are error values.

  \<^bold>\<open>Not modelled.\<close> The remaining lanes of a block (payments, checks, payment channels, trust lines, issued assets, offers, the block side of covenants,
  community, treasury, vesting, data commitments) repeat the pattern of the modelled lanes on records of their own and are left out for
  size; OVL execution is the third-party revm. The ledger-object and explorer indexes are derived data. Proof of work, networking,
  RPC, mempool scheduling, genesis assembly, wallets, bridge, rollup, intents and governance services are input and output, hashing,
  or outside block application. Of \<^verbatim>\<open>admit/mod.rs\<close>, bootstrap, header checks, templates, header synchronisation and pruning are left out.
\<close>

end
